(* ===== verification/Ge_Prelude.thy ===== *)
theory Ge_Prelude
  imports
    Main
    "HOL-Library.Word"
    "HOL-Library.Multiset"
    "HOL-Library.Char_ord"
    "HOL-Library.List_Lexorder"
begin

section \<open>Shared vocabulary of the development\<close>

text \<open>
  This theory holds what the component theories share: unsigned machine integers as naturals with
  the wrap-around written out, results as sums, \<open>std::map\<close> as a key-sorted association list, the
  linear searches the code performs over vectors of identified records, and reachability in a
  transition system with its invariant rule. Two interfaces are locales: \<open>id_table\<close> (a vector
  searched by a key field, as \<open>GraphSpec\<close> and \<open>CapabilityDescriptor\<close> use it) and
  \<open>invariant_system\<close> (an invariant that every step keeps).
\<close>

named_theorems ge_inv \<open>operations preserve their component's invariant\<close>
named_theorems ge_frame \<open>fields that an operation leaves alone\<close>

subsection \<open>Unsigned integers\<close>

text \<open>A \<open>std::uint32_t\<close> or \<open>std::uint64_t\<close> is a natural number reduced to its width after every
  arithmetic operation that can leave it.\<close>

definition u32 :: "nat \<Rightarrow> nat" where
  "u32 n = n mod 2 ^ 32"

definition u64 :: "nat \<Rightarrow> nat" where
  "u64 n = n mod 2 ^ 64"

lemma u32_small [simp]: "n < 4294967296 \<Longrightarrow> u32 n = n"
  by (simp add: u32_def)

lemma u32_less [simp]: "u32 n < 4294967296"
  by (simp add: u32_def)

lemma u64_small [simp]: "n < 18446744073709551616 \<Longrightarrow> u64 n = n"
  by (simp add: u64_def)

lemma u64_less [simp]: "u64 n < 18446744073709551616"
  by (simp add: u64_def)

lemma u64_le: "u64 n \<le> n"
  by (simp add: u64_def)

lemma u64_add_left [simp]: "u64 (u64 m + n) = u64 (m + n)"
  by (simp add: u64_def mod_add_left_eq)

lemma u64_add_right [simp]: "u64 (m + u64 n) = u64 (m + n)"
  by (simp add: u64_def mod_add_right_eq)

lemma u64_Suc [simp]: "u64 (Suc (u64 n)) = u64 (Suc n)"
  by (metis Suc_eq_plus1 u64_add_left)

text \<open>The casts \<open>static_cast<std::int32_t>\<close>, \<open>static_cast<std::int64_t>\<close> and \<open>static_cast<std::uint32_t>\<close>,
  \<open>static_cast<std::uint64_t>\<close> of a signed integer keep the low bits.\<close>

definition i32 :: "int \<Rightarrow> int" where
  "i32 i = (i + 2 ^ 31) mod 2 ^ 32 - 2 ^ 31"

definition i64 :: "int \<Rightarrow> int" where
  "i64 i = (i + 2 ^ 63) mod 2 ^ 64 - 2 ^ 63"

definition u32_of_int :: "int \<Rightarrow> nat" where
  "u32_of_int i = nat (i mod 2 ^ 32)"

definition u64_of_int :: "int \<Rightarrow> nat" where
  "u64_of_int i = nat (i mod 2 ^ 64)"

lemma i32_small [simp]: "- 2147483648 \<le> i \<Longrightarrow> i < 2147483648 \<Longrightarrow> i32 i = i"
  by (simp add: i32_def)

lemma i64_small [simp]: "- 9223372036854775808 \<le> i \<Longrightarrow> i < 9223372036854775808 \<Longrightarrow> i64 i = i"
  by (simp add: i64_def)

lemma u32_of_int_small [simp]: "n < 4294967296 \<Longrightarrow> u32_of_int (int n) = n"
  by (simp add: u32_of_int_def)

lemma u64_of_int_small [simp]: "n < 18446744073709551616 \<Longrightarrow> u64_of_int (int n) = n"
  by (simp add: u64_of_int_def)

subsection \<open>Results\<close>

text \<open>Subtraction of \<open>uint64_t\<close> values wraps as well; it is the true difference when that is not
  negative.\<close>

definition sub64 :: "nat \<Rightarrow> nat \<Rightarrow> nat" where
  "sub64 a b = (a + 2 ^ 64 - b) mod 2 ^ 64"

lemma sub64_eq [simp]: "b \<le> a \<Longrightarrow> a < 18446744073709551616 \<Longrightarrow> sub64 a b = a - b"
proof -
  assume "b \<le> a" "a < 18446744073709551616"
  then have "a + 2 ^ 64 - b = (a - b) + 2 ^ 64" "a - b < 2 ^ 64" by simp_all
  then show ?thesis by (simp only: sub64_def mod_add_self2 mod_less)
qed

text \<open>\<open>Result<T>\<close> is a sum: the error on the left, the value on the right. \<open>bind_result\<close> is the
  early return the code writes as \<open>if (!r.ok()) return r.status()\<close>.\<close>

definition bind_result :: "'e + 'a \<Rightarrow> ('a \<Rightarrow> 'e + 'b) \<Rightarrow> 'e + 'b" where
  "bind_result r f = (case r of Inl e \<Rightarrow> Inl e | Inr a \<Rightarrow> f a)"

lemma bind_result_simps [simp]:
  "bind_result (Inl e) f = Inl e"
  "bind_result (Inr a) f = f a"
  by (simp_all add: bind_result_def)

lemma bind_result_Inr: "bind_result r f = Inr b \<longleftrightarrow> (\<exists>a. r = Inr a \<and> f a = Inr b)"
  by (cases r) simp_all

lemma bind_result_Inl:
  "bind_result r f = Inl e \<longleftrightarrow> r = Inl e \<or> (\<exists>a. r = Inr a \<and> f a = Inl e)"
  by (cases r) simp_all

lemma bind_result_cong [fundef_cong]:
  "r = r' \<Longrightarrow> (\<And>a. r' = Inr a \<Longrightarrow> f a = f' a) \<Longrightarrow> bind_result r f = bind_result r' f'"
  by (cases r') simp_all

text \<open>A loop over a vector whose body may return early with an error.\<close>

fun fold_result :: "('a \<Rightarrow> 's \<Rightarrow> 'e + 's) \<Rightarrow> 'a list \<Rightarrow> 's \<Rightarrow> 'e + 's" where
  "fold_result f [] s = Inr s"
| "fold_result f (x # xs) s = bind_result (f x s) (fold_result f xs)"

lemma fold_result_append:
  "fold_result f (xs @ ys) s = bind_result (fold_result f xs s) (fold_result f ys)"
  by (induction xs arbitrary: s) (auto simp: bind_result_def split: sum.splits)

lemma fold_result_inv:
  assumes "fold_result f xs s = Inr s'" and "P s"
    and "\<And>x s s'. x \<in> set xs \<Longrightarrow> P s \<Longrightarrow> f x s = Inr s' \<Longrightarrow> P s'"
  shows "P s'"
  using assms
proof (induction xs arbitrary: s)
  case Nil
  then show ?case by simp
next
  case (Cons x xs)
  then obtain t where t: "f x s = Inr t" "fold_result f xs t = Inr s'"
    by (auto simp: bind_result_Inr)
  with Cons.prems have "P t" by auto
  with t(2) Cons show ?case by auto
qed

text \<open>Error messages put names between single quotes.\<close>

definition quoted :: "string \<Rightarrow> string" where
  "quoted s = CHR 0x27 # s @ [CHR 0x27]"

subsection \<open>Vectors: first match, erase, push if absent\<close>

text \<open>\<open>remove_first P\<close> is \<open>erase(find_if(...))\<close>; nothing happens when no element matches.\<close>

fun remove_first :: "('a \<Rightarrow> bool) \<Rightarrow> 'a list \<Rightarrow> 'a list" where
  "remove_first P [] = []"
| "remove_first P (x # xs) = (if P x then xs else x # remove_first P xs)"

lemma remove_first_none: "(\<And>x. x \<in> set xs \<Longrightarrow> \<not> P x) \<Longrightarrow> remove_first P xs = xs"
  by (induction xs) auto

lemma set_remove_first_subset: "set (remove_first P xs) \<subseteq> set xs"
  by (induction xs) auto

lemma remove_first_eq_filter:
  "distinct (map f xs) \<Longrightarrow> remove_first (\<lambda>x. f x = k) xs = filter (\<lambda>x. f x \<noteq> k) xs"
  by (induction xs) (auto simp: image_iff intro!: sym [OF filter_True])

lemma length_remove_first:
  "length (remove_first P xs) = (if \<exists>x\<in>set xs. P x then length xs - 1 else length xs)"
proof (induction xs)
  case (Cons x xs)
  then show ?case by (cases xs) auto
qed simp

lemma mset_remove_first:
  "find P xs = Some y \<Longrightarrow> mset xs = add_mset y (mset (remove_first P xs))"
  by (induction xs) (auto split: if_splits)

lemma remove_first_split:
  "(\<And>x. x \<in> set xs \<Longrightarrow> \<not> P x) \<Longrightarrow> P y \<Longrightarrow> remove_first P (xs @ y # ys) = xs @ ys"
  by (induction xs) auto

lemma filter_remove_first:
  "(\<And>x. P x \<Longrightarrow> \<not> Q x) \<Longrightarrow> filter Q (remove_first P xs) = filter Q xs"
  by (induction xs) auto

lemma find_Some_D: "find P xs = Some y \<Longrightarrow> y \<in> set xs \<and> P y"
  by (auto simp: find_Some_iff)

lemma find_None_D: "find P xs = None \<longleftrightarrow> (\<forall>x\<in>set xs. \<not> P x)"
  by (auto simp: find_None_iff)

subsection \<open>Ordered maps\<close>

text \<open>\<open>std::map\<close> iterates in key order, so it is the key-sorted list of its entries: \<open>om_put\<close> is
  \<open>m[k] = v\<close>, \<open>om_emplace\<close> keeps an existing entry, \<open>om_erase\<close> erases one, and \<open>map_of\<close> looks up.\<close>

fun om_put :: "'k::linorder \<Rightarrow> 'v \<Rightarrow> ('k \<times> 'v) list \<Rightarrow> ('k \<times> 'v) list" where
  "om_put k v [] = [(k, v)]"
| "om_put k v ((a, b) # m) =
     (if k < a then (k, v) # (a, b) # m
      else if k = a then (k, v) # m
      else (a, b) # om_put k v m)"

definition om_emplace :: "'k::linorder \<Rightarrow> 'v \<Rightarrow> ('k \<times> 'v) list \<Rightarrow> ('k \<times> 'v) list" where
  "om_emplace k v m = (case map_of m k of None \<Rightarrow> om_put k v m | Some _ \<Rightarrow> m)"

definition om_erase :: "'k \<Rightarrow> ('k \<times> 'v) list \<Rightarrow> ('k \<times> 'v) list" where
  "om_erase k m = filter (\<lambda>(a, _). a \<noteq> k) m"

definition om_wf :: "('k::linorder \<times> 'v) list \<Rightarrow> bool" where
  "om_wf m = sorted_wrt (<) (map fst m)"

lemma om_wf_Nil [simp]: "om_wf []"
  by (simp add: om_wf_def)

lemma om_wf_Cons: "om_wf ((a, b) # m) \<longleftrightarrow> (\<forall>k\<in>fst ` set m. a < k) \<and> om_wf m"
  by (auto simp: om_wf_def)

lemma set_om_put_keys [simp]: "fst ` set (om_put k v m) = insert k (fst ` set m)"
  by (induction k v m rule: om_put.induct) auto

lemma om_wf_put [intro, simp]: "om_wf m \<Longrightarrow> om_wf (om_put k v m)"
  by (induction k v m rule: om_put.induct) (auto simp: om_wf_Cons)

lemma map_of_om_put [simp]: "om_wf m \<Longrightarrow> map_of (om_put k v m) = (map_of m)(k \<mapsto> v)"
proof (induction k v m rule: om_put.induct)
  case (2 k v a b m)
  then show ?case
    by (auto simp: om_wf_Cons fun_upd_twist fun_eq_iff)
qed simp

lemma om_wf_emplace [intro, simp]: "om_wf m \<Longrightarrow> om_wf (om_emplace k v m)"
  by (auto simp: om_emplace_def split: option.splits)

lemma map_of_om_emplace:
  "om_wf m \<Longrightarrow> map_of (om_emplace k v m) k' =
     (if k' = k \<and> map_of m k = None then Some v else map_of m k')"
  by (auto simp: om_emplace_def split: option.splits)

lemma om_wf_erase [intro, simp]: "om_wf m \<Longrightarrow> om_wf (om_erase k m)"
  by (auto simp: om_wf_def om_erase_def sorted_wrt_map sorted_wrt_filter)

lemma map_of_om_erase [simp]: "map_of (om_erase k m) = (map_of m)(k := None)"
  by (induction m) (auto simp: om_erase_def fun_eq_iff)

lemma om_wf_distinct: "om_wf m \<Longrightarrow> distinct (map fst m)"
  by (simp add: om_wf_def strict_sorted_iff)

lemma om_wf_map_of_iff: "om_wf m \<Longrightarrow> map_of m k = Some v \<longleftrightarrow> (k, v) \<in> set m"
  by (simp add: om_wf_distinct)

lemma om_put_put [simp]: "om_put k w (om_put k v m) = om_put k w m"
  by (induction k v m rule: om_put.induct) auto

lemma om_wf_of_keys: "om_wf m \<Longrightarrow> m = map (\<lambda>k. (k, the (map_of m k))) (map fst m)"
  by (auto simp: om_wf_distinct intro!: sym [OF map_idI])

lemma om_eqI:
  assumes "om_wf m" and "om_wf m'" and "map_of m = map_of m'"
  shows "m = m'"
proof -
  have "dom (map_of m) = dom (map_of m')" using assms(3) by simp
  then have "set (map fst m) = set (map fst m')" by (simp add: dom_map_of_conv_image_fst)
  then have "map fst m = map fst m'"
    using assms(1,2) unfolding om_wf_def by (metis strict_sorted_equal)
  then show ?thesis
    using om_wf_of_keys [OF assms(1)] om_wf_of_keys [OF assms(2)] assms(3) by simp
qed

lemma om_put_last: "om_wf (acc @ (k, v) # m) \<Longrightarrow> om_put k v acc = acc @ [(k, v)]"
  by (induction acc) (auto simp: om_wf_def)

lemma fold_om_put_sorted:
  assumes "om_wf es" and "\<And>k v m. om_wf m \<Longrightarrow> map_of m k = None \<Longrightarrow> ins k v m = om_put k (g v) m"
  shows "fold (\<lambda>(k, v). ins k v) es [] = map (\<lambda>(k, v). (k, g v)) es"
proof -
  have "fold (\<lambda>(k, v). ins k v) es acc = acc @ map (\<lambda>(k, v). (k, g v)) es"
    if "om_wf (acc @ map (\<lambda>(k, v). (k, g v)) es)" for acc
    using that
  proof (induction es arbitrary: acc)
    case (Cons e es)
    obtain k v where e: "e = (k, v)" by force
    have wf: "om_wf acc" using Cons.prems by (auto simp: om_wf_def sorted_wrt_append)
    have "map_of acc k = None"
      using om_wf_distinct [OF Cons.prems] by (auto simp: e map_of_eq_None_iff)
    then have "ins k v acc = acc @ [(k, g v)]"
      using om_put_last [of acc k "g v"] Cons.prems wf assms(2) by (simp add: e)
    then show ?case using Cons by (simp add: e)
  qed simp
  moreover have "om_wf (map (\<lambda>(k, v). (k, g v)) es)"
    using assms(1) by (simp add: om_wf_def comp_def case_prod_beta)
  ultimately show ?thesis by simp
qed

subsection \<open>Tables searched by a key field\<close>

text \<open>
  The graph keeps its nodes, edges and ports in vectors and searches them front to back for a key.
  The interface is what every such table promises as long as its keys are distinct: the search
  finds exactly the elements, an element appended under a fresh key is found and disturbs no
  other search, and erasing a key hides that key alone.
\<close>

locale id_table =
  fixes ident :: "'a \<Rightarrow> 'k"
    and lookup :: "'k \<Rightarrow> 'a list \<Rightarrow> 'a option"
  assumes lookup_find: "lookup k xs = find (\<lambda>x. ident x = k) xs"
begin

lemma lookup_Nil [simp]: "lookup k [] = None"
  by (simp add: lookup_find)

lemma lookup_Cons: "lookup k (x # xs) = (if ident x = k then Some x else lookup k xs)"
  by (simp add: lookup_find)

lemma lookup_SomeD: "lookup k xs = Some x \<Longrightarrow> x \<in> set xs \<and> ident x = k"
  unfolding lookup_find by (drule find_Some_D) simp

lemma lookup_None_iff: "lookup k xs = None \<longleftrightarrow> k \<notin> ident ` set xs"
  by (auto simp: lookup_find find_None_D)

lemma lookup_not_None_iff: "lookup k xs \<noteq> None \<longleftrightarrow> k \<in> ident ` set xs"
  by (simp add: lookup_None_iff)

lemma lookup_distinct:
  "distinct (map ident xs) \<Longrightarrow> x \<in> set xs \<Longrightarrow> lookup (ident x) xs = Some x"
  by (induction xs) (auto simp: lookup_Cons)

lemma lookup_Some_iff:
  "distinct (map ident xs) \<Longrightarrow> lookup k xs = Some x \<longleftrightarrow> x \<in> set xs \<and> ident x = k"
  by (metis lookup_SomeD lookup_distinct)

lemma lookup_append_fresh:
  "k \<notin> ident ` set xs \<Longrightarrow> ident x = k \<Longrightarrow>
     lookup k' (xs @ [x]) = (if k' = k then Some x else lookup k' xs)"
  by (induction xs) (auto simp: lookup_Cons)

lemma lookup_append: "lookup k (xs @ ys) = (case lookup k xs of None \<Rightarrow> lookup k ys | Some x \<Rightarrow> Some x)"
  by (induction xs) (auto simp: lookup_Cons)

lemma lookup_remove_first:
  "distinct (map ident xs) \<Longrightarrow>
     lookup k' (remove_first (\<lambda>x. ident x = k) xs) = (if k' = k then None else lookup k' xs)"
  by (induction xs) (auto simp: lookup_Cons lookup_None_iff)

lemma lookup_filter:
  "distinct (map ident xs) \<Longrightarrow>
     lookup k (filter Q xs) = (case lookup k xs of Some x \<Rightarrow> if Q x then Some x else None | None \<Rightarrow> None)"
  by (induction xs) (auto simp: lookup_Cons lookup_None_iff split: option.splits dest!: lookup_SomeD)

lemma distinct_append_fresh:
  "distinct (map ident xs) \<Longrightarrow> lookup (ident x) xs = None \<Longrightarrow> distinct (map ident (xs @ [x]))"
  by (auto simp: lookup_None_iff)

lemma distinct_remove_first:
  "distinct (map ident xs) \<Longrightarrow> distinct (map ident (remove_first P xs))"
  by (induction xs) (use set_remove_first_subset in \<open>fastforce+\<close>)

lemma ident_remove_first:
  "distinct (map ident xs) \<Longrightarrow>
     ident ` set (remove_first (\<lambda>x. ident x = k) xs) = ident ` set xs - {k}"
  by (simp add: remove_first_eq_filter) auto

end

subsection \<open>Transition systems\<close>

text \<open>States reachable from an initial state by steps, and the rule that an invariant of every step
  holds in all of them.\<close>

inductive reachable :: "('s \<Rightarrow> bool) \<Rightarrow> ('s \<Rightarrow> 's \<Rightarrow> bool) \<Rightarrow> 's \<Rightarrow> bool"
  for init :: "'s \<Rightarrow> bool" and step :: "'s \<Rightarrow> 's \<Rightarrow> bool"
  where
    reach_init: "init s \<Longrightarrow> reachable init step s"
  | reach_step: "reachable init step s \<Longrightarrow> step s t \<Longrightarrow> reachable init step t"

locale invariant_system =
  fixes init :: "'s \<Rightarrow> bool" and step :: "'s \<Rightarrow> 's \<Rightarrow> bool" and inv :: "'s \<Rightarrow> bool"
  assumes inv_init: "init s \<Longrightarrow> inv s"
    and inv_step: "inv s \<Longrightarrow> step s t \<Longrightarrow> inv t"
begin

lemma reachable_inv: "reachable init step s \<Longrightarrow> inv s"
  by (induction rule: reachable.induct) (auto intro: inv_init inv_step)

lemma steps_inv: "step\<^sup>*\<^sup>* s t \<Longrightarrow> inv s \<Longrightarrow> inv t"
  by (induction rule: rtranclp_induct) (auto intro: inv_step)

end

end
