(* ===== verification/Json.thy ===== *)
theory Json
  imports Ge_Prelude
begin

section \<open>JSON values, serialisation and parsing\<close>

text \<open>
  Models \<open>include/ge/cpp/json.h\<close> (the value, the accessors, \<open>Serialize\<close>) and \<open>src/json.cpp\<close> (the
  recursive-descent parser). A string is the list of its bytes. A \<open>double\<close> is its 64-bit pattern;
  the floating-point routines of the C library that the code uses on it (\<open>strtod\<close>,
  \<open>snprintf("%.17g")\<close>, the casts from and to \<open>int64_t\<close>, the comparisons) are the fields of the argument \<open>fp\<close>.
  The parser reads a suffix of its text: an error carries the message and how many bytes were left,
  which is the offset the code prints, and \<open>depth\<close> counts down what the code counts up to 256.
\<close>

type_synonym double = "64 word"

record fp_ops =
  fp_strtod :: "string \<Rightarrow> double option"
  fp_print :: "double \<Rightarrow> string"
  fp_trunc :: "double \<Rightarrow> int"
  fp_less :: "double \<Rightarrow> double \<Rightarrow> bool"
  fp_eq :: "double \<Rightarrow> double \<Rightarrow> bool"
  fp_of_int :: "int \<Rightarrow> double"

datatype json =
    JNull
  | JBool bool
  | JInt int
  | JNum double
  | JStr string
  | JArr "json list"
  | JObj "(string \<times> json) list"

subsection \<open>Accessors\<close>

fun is_object :: "json \<Rightarrow> bool" where
  "is_object (JObj _) = True"
| "is_object _ = False"

fun is_number :: "json \<Rightarrow> bool" where
  "is_number (JNum _) = True"
| "is_number (JInt _) = True"
| "is_number _ = False"

fun as_object :: "json \<Rightarrow> (string \<times> json) list" where
  "as_object (JObj m) = m"
| "as_object _ = []"

definition json_Find :: "json \<Rightarrow> string \<Rightarrow> json option" where
  "json_Find v key = (case v of JObj m \<Rightarrow> map_of m key | _ \<Rightarrow> None)"

definition json_GetString :: "json \<Rightarrow> string \<Rightarrow> string option" where
  "json_GetString v key = (case json_Find v key of Some (JStr s) \<Rightarrow> Some s | _ \<Rightarrow> None)"

definition json_GetInteger :: "fp_ops \<Rightarrow> json \<Rightarrow> string \<Rightarrow> int option" where
  "json_GetInteger fp v key =
     (case json_Find v key of
        Some (JInt i) \<Rightarrow> Some i
      | Some (JNum d) \<Rightarrow> Some (fp_trunc fp d)
      | _ \<Rightarrow> None)"

definition json_GetBool :: "json \<Rightarrow> string \<Rightarrow> bool option" where
  "json_GetBool v key = (case json_Find v key of Some (JBool b) \<Rightarrow> Some b | _ \<Rightarrow> None)"

text \<open>\<open>operator==\<close>: an integer and a double are compared as doubles; a map is compared entry by entry.\<close>

fun json_equal :: "fp_ops \<Rightarrow> json \<Rightarrow> json \<Rightarrow> bool"
  and json_list_equal :: "fp_ops \<Rightarrow> json list \<Rightarrow> json list \<Rightarrow> bool"
  and json_object_equal :: "fp_ops \<Rightarrow> (string \<times> json) list \<Rightarrow> (string \<times> json) list \<Rightarrow> bool" where
  "json_equal fp JNull JNull = True"
| "json_equal fp (JBool a) (JBool b) = (a = b)"
| "json_equal fp (JInt a) (JInt b) = (a = b)"
| "json_equal fp (JNum a) (JNum b) = fp_eq fp a b"
| "json_equal fp (JInt a) (JNum b) = fp_eq fp (fp_of_int fp a) b"
| "json_equal fp (JNum a) (JInt b) = fp_eq fp a (fp_of_int fp b)"
| "json_equal fp (JStr a) (JStr b) = (a = b)"
| "json_equal fp (JArr a) (JArr b) = json_list_equal fp a b"
| "json_equal fp (JObj a) (JObj b) = json_object_equal fp a b"
| "json_equal fp _ _ = False"
| "json_list_equal fp [] [] = True"
| "json_list_equal fp (x # xs) (y # ys) = (json_equal fp x y \<and> json_list_equal fp xs ys)"
| "json_list_equal fp _ _ = False"
| "json_object_equal fp [] [] = True"
| "json_object_equal fp ((k, x) # xs) ((l, y) # ys) = (k = l \<and> json_equal fp x y \<and> json_object_equal fp xs ys)"
| "json_object_equal fp _ _ = False"

subsection \<open>Decimal and hexadecimal text\<close>

definition digit_char :: "nat \<Rightarrow> char" where
  "digit_char n = char_of (48 + n)"

fun nat_to_string :: "nat \<Rightarrow> string" where
  "nat_to_string n =
     (if n < 10 then [digit_char n] else nat_to_string (n div 10) @ [digit_char (n mod 10)])"

declare nat_to_string.simps [simp del]

definition int_to_string :: "int \<Rightarrow> string" where
  "int_to_string i = (if i < 0 then CHR ''-'' # nat_to_string (nat (- i)) else nat_to_string (nat i))"

definition hex_char :: "nat \<Rightarrow> char" where
  "hex_char n = (if n < 10 then char_of (48 + n) else char_of (87 + n))"

definition hex4 :: "nat \<Rightarrow> string" where
  "hex4 n = [hex_char (n div 4096 mod 16), hex_char (n div 256 mod 16),
             hex_char (n div 16 mod 16), hex_char (n mod 16)]"

subsection \<open>Serialisation\<close>

definition quote_char :: "char \<Rightarrow> string" where
  "quote_char c =
     (if c = CHR 0x22 then [CHR 0x5C, CHR 0x22]
      else if c = CHR 0x5C then [CHR 0x5C, CHR 0x5C]
      else if c = CHR 0x08 then [CHR 0x5C, CHR ''b'']
      else if c = CHR 0x0C then [CHR 0x5C, CHR ''f'']
      else if c = CHR 0x0A then [CHR 0x5C, CHR ''n'']
      else if c = CHR 0x0D then [CHR 0x5C, CHR ''r'']
      else if c = CHR 0x09 then [CHR 0x5C, CHR ''t'']
      else if (of_char c :: nat) < 0x20 then [CHR 0x5C, CHR ''u''] @ hex4 (of_char c)
      else [c])"

definition AppendQuoted :: "string \<Rightarrow> string" where
  "AppendQuoted s = CHR 0x22 # concat (map quote_char s) @ [CHR 0x22]"

fun sep_concat :: "string list \<Rightarrow> string" where
  "sep_concat [] = []"
| "sep_concat [s] = s"
| "sep_concat (s # ss) = s @ CHR '','' # sep_concat ss"

fun Serialize :: "fp_ops \<Rightarrow> json \<Rightarrow> string" where
  "Serialize fp JNull = ''null''"
| "Serialize fp (JBool b) = (if b then ''true'' else ''false'')"
| "Serialize fp (JInt i) = int_to_string i"
| "Serialize fp (JNum d) = fp_print fp d"
| "Serialize fp (JStr s) = AppendQuoted s"
| "Serialize fp (JArr vs) = CHR ''['' # sep_concat (map (Serialize fp) vs) @ '']''"
| "Serialize fp (JObj m) =
     CHR ''{'' # sep_concat (map (\<lambda>(k, v). AppendQuoted k @ CHR '':'' # Serialize fp v) m) @ ''}''"

subsection \<open>Parsing\<close>

text \<open>An error: the message and the number of unread bytes when it was raised.\<close>

type_synonym json_error = "string \<times> nat"
type_synonym 'a parse = "json_error + 'a \<times> string"

definition parse_fail :: "string \<Rightarrow> string \<Rightarrow> 'a parse" where
  "parse_fail msg rest = Inl (msg, length rest)"

definition is_json_space :: "char \<Rightarrow> bool" where
  "is_json_space c \<longleftrightarrow> c = CHR 0x20 \<or> c = CHR 0x0A \<or> c = CHR 0x0D \<or> c = CHR 0x09"

definition SkipWhitespace :: "string \<Rightarrow> string" where
  "SkipWhitespace s = dropWhile is_json_space s"

definition Consume :: "string \<Rightarrow> string \<Rightarrow> unit parse" where
  "Consume lit s =
     (if take (length lit) s = lit then Inr ((), drop (length lit) s)
      else parse_fail ''unexpected token'' s)"

definition is_digit :: "char \<Rightarrow> bool" where
  "is_digit c \<longleftrightarrow> CHR ''0'' \<le> c \<and> c \<le> CHR ''9''"

definition is_number_char :: "char \<Rightarrow> bool" where
  "is_number_char c \<longleftrightarrow> is_digit c \<or> c \<in> set ''.eE+-''"

definition digits_value :: "string \<Rightarrow> nat" where
  "digits_value ds = foldl (\<lambda>n c. 10 * n + (of_char c - 48)) 0 ds"

definition clamp_int64 :: "int \<Rightarrow> int" where
  "clamp_int64 i = max (- (2 ^ 63)) (min (2 ^ 63 - 1) i)"

text \<open>\<open>strtoll\<close> in base ten on a token of an optional minus sign and digits; it converts nothing when
  there is no digit, and saturates out of range.\<close>

definition strtoll10 :: "string \<Rightarrow> int option" where
  "strtoll10 tok =
     (let neg = (tok \<noteq> [] \<and> hd tok = CHR ''-''); ds = (if neg then tl tok else tok);
          v = int (digits_value ds)
      in if ds = [] then None else Some (clamp_int64 (if neg then - v else v)))"

definition ParseNumber :: "fp_ops \<Rightarrow> string \<Rightarrow> json parse" where
  "ParseNumber fp s =
     (let (sign, s1) = (if s \<noteq> [] \<and> hd s = CHR ''-'' then (''-'', tl s) else ([], s));
          body = takeWhile is_number_char s1;
          rest = dropWhile is_number_char s1;
          tok = sign @ body
      in if tok = [] then parse_fail ''invalid number'' rest
         else (case if list_all is_digit body then strtoll10 tok else None of
                 Some i \<Rightarrow> Inr (JInt i, rest)
               | None \<Rightarrow>
                   (case fp_strtod fp tok of
                      Some d \<Rightarrow> Inr (JNum d, rest)
                    | None \<Rightarrow> parse_fail ''invalid number'' rest)))"

definition hex_value :: "char \<Rightarrow> nat option" where
  "hex_value c =
     (let n = of_char c :: nat in
      if 48 \<le> n \<and> n \<le> 57 then Some (n - 48)
      else if 97 \<le> n \<and> n \<le> 102 then Some (n - 87)
      else if 65 \<le> n \<and> n \<le> 70 then Some (n - 55)
      else None)"

fun hex_digits :: "nat \<Rightarrow> string \<Rightarrow> nat \<times> string" where
  "hex_digits acc [] = (acc, [])"
| "hex_digits acc (c # s) =
     (case hex_value c of Some d \<Rightarrow> hex_digits (16 * acc + d) s | None \<Rightarrow> (acc, c # s))"

definition is_c_space :: "char \<Rightarrow> bool" where
  "is_c_space c \<longleftrightarrow> c = CHR 0x20 \<or> CHR 0x09 \<le> c \<and> c \<le> CHR 0x0D"

text \<open>\<open>strtoul\<close> in base 16 on at most four bytes: leading white space, a sign, a \<open>0x\<close> prefix in
  front of a hexadecimal digit, then digits up to the terminating zero byte. The result is the
  value when the whole C string was converted (\<open>*end == 0\<close>); an empty C string converts nothing
  and also ends at its terminator.\<close>

definition strtoul16 :: "string \<Rightarrow> nat option" where
  "strtoul16 hex =
     (let cs = takeWhile (\<lambda>c. c \<noteq> CHR 0x00) hex;
          s1 = dropWhile is_c_space cs;
          (neg, s2) = (case s1 of
                         CHR ''-'' # r \<Rightarrow> (True, r) | CHR ''+'' # r \<Rightarrow> (False, r) | _ \<Rightarrow> (False, s1));
          s3 = (case s2 of
                  CHR ''0'' # x # h # r \<Rightarrow>
                    if (x = CHR ''x'' \<or> x = CHR ''X'') \<and> hex_value h \<noteq> None then h # r else s2
                | _ \<Rightarrow> s2);
          (v, end) = hex_digits 0 s3
      in if cs = [] then Some 0
         else if end = s3 then None
         else if end \<noteq> [] then None
         else Some (if neg then (2 ^ 64 - v) mod 2 ^ 64 else v))"

text \<open>\<open>static_cast<char>\<close> keeps the low eight bits.\<close>

definition low_char :: "nat \<Rightarrow> char" where
  "low_char n = char_of (n mod 256)"

definition AppendUtf8 :: "nat \<Rightarrow> string" where
  "AppendUtf8 code =
     (if code < 0x80 then [low_char code]
      else if code < 0x800 then [low_char (0xC0 + code div 64), low_char (0x80 + code mod 64)]
      else [low_char (0xE0 + code div 4096), low_char (0x80 + code div 64 mod 64),
            low_char (0x80 + code mod 64)])"

fun ParseString_body :: "string \<Rightarrow> string \<Rightarrow> string parse" where
  "ParseString_body out [] = parse_fail ''unterminated string'' []"
| "ParseString_body out (c # s) =
     (if c = CHR 0x22 then Inr (out, s)
      else if c = CHR 0x5C then
        (case s of
           [] \<Rightarrow> parse_fail ''unterminated string'' []
         | e # s' \<Rightarrow>
             if e = CHR 0x22 \<or> e = CHR 0x5C \<or> e = CHR 0x2F then ParseString_body (out @ [e]) s'
             else if e = CHR ''b'' then ParseString_body (out @ [CHR 0x08]) s'
             else if e = CHR ''f'' then ParseString_body (out @ [CHR 0x0C]) s'
             else if e = CHR ''n'' then ParseString_body (out @ [CHR 0x0A]) s'
             else if e = CHR ''r'' then ParseString_body (out @ [CHR 0x0D]) s'
             else if e = CHR ''t'' then ParseString_body (out @ [CHR 0x09]) s'
             else if e = CHR ''u'' then
               (if length s' < 4 then parse_fail ''invalid unicode escape'' s'
                else (case strtoul16 (take 4 s') of
                        None \<Rightarrow> parse_fail ''invalid unicode escape'' (drop 4 s')
                      | Some code \<Rightarrow> ParseString_body (out @ AppendUtf8 (u32 code)) (drop 4 s')))
             else parse_fail ''invalid escape'' s')
      else ParseString_body (out @ [c]) s)"

definition ParseString :: "string \<Rightarrow> string parse" where
  "ParseString s = bind_result (Consume [CHR 0x22] s) (\<lambda>(_, s1). ParseString_body [] s1)"

text \<open>The loops of \<open>ParseArray\<close> and \<open>ParseObject\<close>, over the value parser of the next depth. Every
  round reads at least the separator, so as many rounds as bytes are enough; running out of
  rounds is the error \<open>out of fuel\<close>, which never shows (\<open>ParseArray_items_fuel\<close>).\<close>

fun ParseArray_items :: "(string \<Rightarrow> json parse) \<Rightarrow> nat \<Rightarrow> json list \<Rightarrow> string \<Rightarrow> json parse" where
  "ParseArray_items p 0 items s = parse_fail ''out of fuel'' s"
| "ParseArray_items p (Suc fuel) items s =
     bind_result (p s) (\<lambda>(item, s1).
       let s2 = SkipWhitespace s1 in
       case s2 of
         [] \<Rightarrow> parse_fail ''unterminated array'' s2
       | c # s3 \<Rightarrow>
           if c = CHR '','' then ParseArray_items p fuel (items @ [item]) s3
           else if c = CHR '']'' then Inr (JArr (items @ [item]), s3)
           else parse_fail (''expected '' @ quoted '','' @ '' or '' @ quoted '']'') s2)"

fun ParseObject_members ::
  "(string \<Rightarrow> json parse) \<Rightarrow> nat \<Rightarrow> (string \<times> json) list \<Rightarrow> string \<Rightarrow> json parse" where
  "ParseObject_members p 0 members s = parse_fail ''out of fuel'' s"
| "ParseObject_members p (Suc fuel) members s =
     (let s0 = SkipWhitespace s in
      if s0 = [] \<or> hd s0 \<noteq> CHR 0x22 then parse_fail ''expected string key'' s0
      else bind_result (ParseString s0) (\<lambda>(key, s1).
        bind_result (Consume '':'' (SkipWhitespace s1)) (\<lambda>(_, s2).
        bind_result (p s2) (\<lambda>(v, s3).
          if map_of members key \<noteq> None then parse_fail ''duplicate key'' s3
          else
            let members' = om_put key v members; s4 = SkipWhitespace s3 in
            case s4 of
              [] \<Rightarrow> parse_fail ''unterminated object'' s4
            | c # s5 \<Rightarrow>
                if c = CHR '','' then ParseObject_members p fuel members' s5
                else if c = CHR ''}'' then Inr (JObj members', s5)
                else parse_fail (''expected '' @ quoted '','' @ '' or '' @ quoted ''}'') s4))))"

definition ParseArray :: "(string \<Rightarrow> json parse) \<Rightarrow> string \<Rightarrow> json parse" where
  "ParseArray p s =
     bind_result (Consume ''['' s) (\<lambda>(_, s1).
       let s2 = SkipWhitespace s1 in
       if s2 \<noteq> [] \<and> hd s2 = CHR '']'' then Inr (JArr [], tl s2)
       else ParseArray_items p (Suc (length s2)) [] s2)"

definition ParseObject :: "(string \<Rightarrow> json parse) \<Rightarrow> string \<Rightarrow> json parse" where
  "ParseObject p s =
     bind_result (Consume ''{'' s) (\<lambda>(_, s1).
       let s2 = SkipWhitespace s1 in
       if s2 \<noteq> [] \<and> hd s2 = CHR ''}'' then Inr (JObj [], tl s2)
       else ParseObject_members p (Suc (length s2)) [] s2)"

definition ParseValueInner :: "fp_ops \<Rightarrow> (string \<Rightarrow> json parse) \<Rightarrow> string \<Rightarrow> json parse" where
  "ParseValueInner fp p s =
     (let s0 = SkipWhitespace s in
      case s0 of
        [] \<Rightarrow> parse_fail ''unexpected end of input'' s0
      | c # _ \<Rightarrow>
          if c = CHR ''{'' then ParseObject p s0
          else if c = CHR ''['' then ParseArray p s0
          else if c = CHR 0x22 then
            bind_result (ParseString s0) (\<lambda>(t, r). Inr (JStr t, r))
          else if c = CHR ''t'' then bind_result (Consume ''true'' s0) (\<lambda>(_, r). Inr (JBool True, r))
          else if c = CHR ''f'' then bind_result (Consume ''false'' s0) (\<lambda>(_, r). Inr (JBool False, r))
          else if c = CHR ''n'' then bind_result (Consume ''null'' s0) (\<lambda>(_, r). Inr (JNull, r))
          else ParseNumber fp s0)"

primrec ParseValue :: "fp_ops \<Rightarrow> nat \<Rightarrow> string \<Rightarrow> json parse" where
  "ParseValue fp 0 s = parse_fail ''nesting too deep'' s"
| "ParseValue fp (Suc d) s = ParseValueInner fp (ParseValue fp d) s"

definition kMaxDepth :: nat where
  "kMaxDepth = 256"

definition ParseJson :: "fp_ops \<Rightarrow> string \<Rightarrow> json_error + json" where
  "ParseJson fp text =
     bind_result (ParseValue fp kMaxDepth text) (\<lambda>(v, r).
       let r' = SkipWhitespace r in
       if r' \<noteq> [] then Inl (''trailing characters'', length r') else Inr v)"

text \<open>The error text of a \<open>JsonParseResult\<close>.\<close>

definition json_error_text :: "string \<Rightarrow> json_error \<Rightarrow> string" where
  "json_error_text t e = fst e @ '' at offset '' @ nat_to_string (length t - snd e)"

subsection \<open>Numbers\<close>

lemma digit_char_of_nat: "n < 10 \<Longrightarrow> of_char (digit_char n) = 48 + n"
  by (simp add: digit_char_def)

lemma is_digit_iff: "is_digit c \<longleftrightarrow> 48 \<le> (of_char c :: nat) \<and> of_char c \<le> (57 :: nat)"
  by (simp add: is_digit_def less_eq_char_def)

lemma is_digit_digit_char [simp]: "n < 10 \<Longrightarrow> is_digit (digit_char n)"
  by (simp add: is_digit_iff digit_char_of_nat)

lemma nat_to_string_digits: "c \<in> set (nat_to_string n) \<Longrightarrow> is_digit c"
proof (induction n rule: nat_to_string.induct)
  case (1 n)
  then show ?case
    by (subst (asm) nat_to_string.simps) (auto split: if_splits)
qed

lemma nat_to_string_nonempty [simp]: "nat_to_string n \<noteq> []"
  by (subst nat_to_string.simps) simp

lemma digits_value_snoc: "digits_value (ds @ [c]) = 10 * digits_value ds + (of_char c - 48)"
  by (simp add: digits_value_def)

lemma digits_value_nat_to_string [simp]: "digits_value (nat_to_string n) = n"
proof (induction n rule: nat_to_string.induct)
  case (1 n)
  show ?case
  proof (cases "n < 10")
    case True
    then show ?thesis
      by (subst nat_to_string.simps) (simp add: digits_value_def digit_char_of_nat)
  next
    case False
    with 1 show ?thesis
      by (subst nat_to_string.simps) (simp add: digits_value_snoc digit_char_of_nat)
  qed
qed

definition value_end :: "string \<Rightarrow> bool" where
  "value_end rest \<longleftrightarrow> rest = [] \<or> hd rest \<in> set '',]}''"

lemma value_end_takeWhile:
  "value_end rest \<Longrightarrow> list_all is_number_char ds \<Longrightarrow>
     takeWhile is_number_char (ds @ rest) = ds \<and> dropWhile is_number_char (ds @ rest) = rest"
  by (cases rest) (auto simp: value_end_def takeWhile_append list_all_iff dropWhile_append
      is_number_char_def is_digit_iff)

lemma is_digit_not_minus: "is_digit c \<Longrightarrow> c \<noteq> CHR ''-''"
  by (auto simp: is_digit_iff)

lemma ParseNumber_nat:
  assumes "value_end rest" "ds \<noteq> []" "list_all is_digit ds"
  shows "ParseNumber fp (ds @ rest) = Inr (JInt (clamp_int64 (int (digits_value ds))), rest)"
proof -
  obtain c cs where ds: "ds = c # cs" using assms(2) by (cases ds) auto
  have c: "c \<noteq> CHR ''-''" using assms(3) by (auto simp: ds is_digit_not_minus)
  have "list_all is_number_char ds"
    using assms(3) by (auto simp: list_all_iff is_number_char_def)
  note tw = value_end_takeWhile [OF assms(1) this]
  have "strtoll10 ds = Some (clamp_int64 (int (digits_value ds)))"
    using c by (simp add: ds strtoll10_def)
  moreover have "hd (ds @ rest) \<noteq> CHR ''-''" using c by (simp add: ds)
  ultimately show ?thesis
    using tw assms(2,3) by (simp add: ParseNumber_def)
qed

lemma ParseNumber_neg:
  assumes "value_end rest" "ds \<noteq> []" "list_all is_digit ds"
  shows "ParseNumber fp (CHR ''-'' # ds @ rest) = Inr (JInt (clamp_int64 (- int (digits_value ds))), rest)"
proof -
  have "list_all is_number_char ds"
    using assms(3) by (auto simp: list_all_iff is_number_char_def)
  note tw = value_end_takeWhile [OF assms(1) this]
  show ?thesis
    using tw assms(2,3) by (simp add: ParseNumber_def strtoll10_def)
qed

lemma ParseNumber_int_to_string:
  assumes "value_end rest" "- (2 ^ 63) \<le> i" "i < 2 ^ 63"
  shows "ParseNumber fp (int_to_string i @ rest) = Inr (JInt i, rest)"
proof -
  have dg: "list_all is_digit (nat_to_string n)" for n
    by (auto simp: list_all_iff dest: nat_to_string_digits)
  have cl: "clamp_int64 i = i" using assms(2,3) by (simp add: clamp_int64_def)
  show ?thesis
  proof (cases "i < 0")
    case True
    then show ?thesis
      using ParseNumber_neg [OF assms(1) nat_to_string_nonempty dg, of fp "nat (- i)"] cl
      by (simp add: int_to_string_def)
  next
    case False
    then show ?thesis
      using ParseNumber_nat [OF assms(1) nat_to_string_nonempty dg, of fp "nat i"] cl
      by (simp add: int_to_string_def)
  qed
qed

lemma int_to_string_hd: "\<exists>c s. int_to_string i = c # s \<and> (is_digit c \<or> c = CHR ''-'')"
proof -
  have "\<exists>c s. nat_to_string n = c # s \<and> is_digit c" for n
    using nat_to_string_digits [of _ n] by (cases "nat_to_string n") auto
  then show ?thesis unfolding int_to_string_def by (cases "i < 0") (simp, metis)
qed

subsection \<open>Strings\<close>

lemma hex_value_hex_char [simp]: "n < 16 \<Longrightarrow> hex_value (hex_char n) = Some n"
  by (auto simp: hex_value_def hex_char_def Let_def)

lemma hex_char_zero [simp]: "hex_char 0 = CHR ''0''"
  by code_simp

lemma hex_char_plain:
  assumes "n < 16"
  shows "hex_char n \<noteq> CHR 0x00" "hex_char n \<noteq> CHR ''x''" "hex_char n \<noteq> CHR ''X''"
  using hex_value_hex_char [OF assms] by (auto simp: hex_value_def)

lemma strtoul16_control:
  assumes "n < 32"
  shows "strtoul16 (hex4 n) = Some n"
proof -
  have h: "hex4 n = [CHR ''0'', CHR ''0'', hex_char (n div 16), hex_char (n mod 16)]"
    using assms by (simp add: hex4_def)
  have "n div 16 < 16" "n mod 16 < 16" using assms by auto
  note pl = hex_char_plain [OF this(1)] hex_char_plain [OF this(2)]
  have z: "hex_value CHR ''0'' = Some 0" by (simp add: hex_value_def)
  have "16 * (n div 16) + n mod 16 = n" by simp
  then show ?thesis
    using pl \<open>n div 16 < 16\<close> \<open>n mod 16 < 16\<close>
    by (simp add: h strtoul16_def is_c_space_def less_eq_char_def z Let_def)
qed

lemma ParseString_body_quote_char:
  "ParseString_body out (quote_char c @ s) = ParseString_body (out @ [c]) s"
proof (cases "c \<in> {CHR 0x22, CHR 0x5C, CHR 0x08, CHR 0x0C, CHR 0x0A, CHR 0x0D, CHR 0x09}")
  case True
  then show ?thesis by (auto simp: quote_char_def)
next
  case False
  show ?thesis
  proof (cases "(of_char c :: nat) < 32")
    case True
    have "u32 (of_char c) = (of_char c :: nat)" using True by simp
    moreover have "AppendUtf8 (of_char c) = [c]"
      using True by (simp add: AppendUtf8_def low_char_def)
    moreover have "length (hex4 (of_char c)) = 4" by (simp add: hex4_def)
    ultimately show ?thesis
      using False True strtoul16_control [OF True] by (simp add: quote_char_def)
  next
    case big: False
    with False show ?thesis by (simp add: quote_char_def)
  qed
qed

lemma ParseString_body_quoted:
  "ParseString_body out (concat (map quote_char s) @ CHR 0x22 # rest) = Inr (out @ s, rest)"
  by (induction s arbitrary: out) (simp_all add: ParseString_body_quote_char)

lemma ParseString_AppendQuoted [simp]: "ParseString (AppendQuoted s @ rest) = Inr (s, rest)"
  by (simp add: ParseString_def AppendQuoted_def Consume_def ParseString_body_quoted)

subsection \<open>Round trip\<close>

text \<open>What the round trip covers at a nesting budget: no floating-point number, integers in the
  range of \<open>int64_t\<close>, objects with sorted distinct keys (as \<open>std::map\<close> keeps them).\<close>

fun json_ok :: "nat \<Rightarrow> json \<Rightarrow> bool" where
  "json_ok 0 v = False"
| "json_ok (Suc d) (JNum _) = False"
| "json_ok (Suc d) (JInt i) = (- (2 ^ 63) \<le> i \<and> i < 2 ^ 63)"
| "json_ok (Suc d) (JArr vs) = list_all (json_ok d) vs"
| "json_ok (Suc d) (JObj m) = (om_wf m \<and> list_all (\<lambda>(k, v). json_ok d v) m)"
| "json_ok (Suc d) _ = True"

lemma SkipWhitespace_Cons [simp]: "\<not> is_json_space c \<Longrightarrow> SkipWhitespace (c # s) = c # s"
  by (simp add: SkipWhitespace_def)

lemma is_json_space_digit: "is_digit c \<Longrightarrow> \<not> is_json_space c"
  by (auto simp: is_digit_iff is_json_space_def)

lemma value_end_simps [simp]:
  "value_end []" "value_end (CHR '','' # s)" "value_end (CHR '']'' # s)" "value_end (CHR ''}'' # s)"
  by (simp_all add: value_end_def)

lemma json_space_consts [simp]:
  "\<not> is_json_space CHR '',''" "\<not> is_json_space CHR '']''" "\<not> is_json_space CHR ''}''"
  "\<not> is_json_space CHR ''[''" "\<not> is_json_space CHR ''{''" "\<not> is_json_space CHR 0x22"
  "\<not> is_json_space CHR '':''" "\<not> is_json_space CHR ''-''"
  "\<not> is_json_space CHR ''t''" "\<not> is_json_space CHR ''f''" "\<not> is_json_space CHR ''n''"
  by (simp_all add: is_json_space_def)

text \<open>A value parser that reads back what was written for every element of a list reads the list.\<close>

lemma sep_concat_Cons: "ss \<noteq> [] \<Longrightarrow> sep_concat (s # ss) = s @ CHR '','' # sep_concat ss"
  by (cases ss) simp_all

lemma ParseArray_items_round_trip:
  assumes "\<And>v rest. v \<in> set vs \<Longrightarrow> value_end rest \<Longrightarrow> p (ser v @ rest) = Inr (v, rest)"
    and "vs \<noteq> []" and "length vs \<le> fuel"
  shows "ParseArray_items p fuel acc (sep_concat (map ser vs) @ CHR '']'' # rest) =
           Inr (JArr (acc @ vs), rest)"
  using assms
proof (induction vs arbitrary: fuel acc)
  case (Cons v vs)
  then obtain f where f: "fuel = Suc f" by (cases fuel) auto
  have p: "p (ser v @ r) = Inr (v, r)" if "value_end r" for r
    using Cons.prems(1) that by simp
  show ?case
  proof (cases "vs = []")
    case True
    then show ?thesis by (simp add: f p)
  next
    case False
    then show ?thesis
      using Cons.IH [of f "acc @ [v]"] Cons.prems by (simp add: f p sep_concat_Cons)
  qed
qed simp

lemma AppendQuoted_front [simp]:
  "SkipWhitespace (AppendQuoted k @ r) = AppendQuoted k @ r"
  "AppendQuoted k \<noteq> []" "hd (AppendQuoted k @ r) = CHR 0x22"
  by (simp_all add: AppendQuoted_def)

lemma Consume_single [simp]: "Consume [c] (c # s) = Inr ((), s)"
  by (simp add: Consume_def)

lemma ParseObject_members_round_trip:
  assumes "\<And>k v rest. (k, v) \<in> set m \<Longrightarrow> value_end rest \<Longrightarrow> p (ser v @ rest) = Inr (v, rest)"
    and "m \<noteq> []" and "length m \<le> fuel" and "om_wf (acc @ m)"
  shows "ParseObject_members p fuel acc
           (sep_concat (map (\<lambda>(k, v). AppendQuoted k @ CHR '':'' # ser v) m) @ CHR ''}'' # rest) =
           Inr (JObj (acc @ m), rest)"
  using assms
proof (induction m arbitrary: fuel acc)
  case (Cons kv m)
  obtain k v where kv: "kv = (k, v)" by force
  from Cons.prems obtain f where f: "fuel = Suc f" by (cases fuel) auto
  have p: "p (ser v @ r) = Inr (v, r)" if "value_end r" for r
    using Cons.prems(1) [of k v] that by (simp add: kv)
  have fresh: "map_of acc k = None"
    using om_wf_distinct [OF Cons.prems(4)] by (auto simp: kv map_of_eq_None_iff)
  have put: "om_put k v acc = acc @ [(k, v)]"
    using Cons.prems(4) by (simp add: kv om_put_last)
  have wf: "om_wf ((acc @ [(k, v)]) @ m)" using Cons.prems(4) by (simp add: kv)
  show ?case
  proof (cases "m = []")
    case True
    then show ?thesis by (simp add: f kv p fresh put)
  next
    case False
    have "ParseObject_members p f (acc @ [(k, v)])
           (sep_concat (map (\<lambda>(k, v). AppendQuoted k @ CHR '':'' # ser v) m) @ CHR ''}'' # rest) =
           Inr (JObj ((acc @ [(k, v)]) @ m), rest)"
      using False Cons.prems(1,3) wf by (intro Cons.IH) (auto simp: f)
    then show ?thesis
      using False by (simp add: f kv p fresh put sep_concat_Cons)
  qed
qed simp

lemma sep_concat_length: "list_all (\<lambda>s. s \<noteq> []) ss \<Longrightarrow> length ss \<le> length (sep_concat ss)"
proof (induction ss)
  case (Cons s ss)
  then show ?case by (cases "ss = []") (auto simp: sep_concat_Cons Suc_le_eq)
qed simp

text \<open>The first byte of a serialised value is never blank and never closes a bracket.\<close>

definition starts_value :: "char \<Rightarrow> bool" where
  "starts_value c \<longleftrightarrow> is_digit c \<or> c \<in> {CHR ''-'', CHR 0x22, CHR ''['', CHR ''{'', CHR ''t'', CHR ''f'', CHR ''n''}"

lemma starts_valueD [simp]:
  assumes "starts_value c"
  shows "\<not> is_json_space c" "c \<noteq> CHR '']''" "c \<noteq> CHR ''}''"
  using assms by (auto simp: starts_value_def is_digit_iff is_json_space_def)

lemma Serialize_front:
  assumes "json_ok d v"
  obtains c t where "Serialize fp v = c # t" "starts_value c"
proof (cases v)
  case (JInt i)
  then show ?thesis using int_to_string_hd [of i] that by (auto simp: starts_value_def)
next
  case (JNum x)
  then show ?thesis using assms by (cases d) auto
next
  case (JBool b)
  then show ?thesis using that by (cases b) (auto simp: starts_value_def)
qed (auto simp: AppendQuoted_def starts_value_def intro: that)

lemma Serialize_nonempty: "json_ok d v \<Longrightarrow> Serialize fp v \<noteq> []"
  by (metis Serialize_front list.distinct(1))

lemma ParseArray_Serialize:
  assumes "list_all (json_ok d) vs"
    and "\<And>v rest. json_ok d v \<Longrightarrow> value_end rest \<Longrightarrow> p (Serialize fp v @ rest) = Inr (v, rest)"
  shows "ParseArray p (Serialize fp (JArr vs) @ rest) = Inr (JArr vs, rest)"
proof (cases vs)
  case Nil
  then show ?thesis by (simp add: ParseArray_def)
next
  case (Cons v ws)
  define body where "body = sep_concat (map (Serialize fp) vs)"
  from assms(1) Cons have "json_ok d v" by simp
  then obtain c t where c: "Serialize fp v = c # t" "starts_value c" by (rule Serialize_front)
  then obtain t' where b: "body = c # t'"
    by (cases ws) (simp_all add: body_def Cons)
  have "length vs \<le> length body"
    using sep_concat_length [of "map (Serialize fp) vs"] assms(1) Serialize_nonempty
    by (auto simp: body_def list_all_iff)
  then have "ParseArray_items p (Suc (length (body @ CHR '']'' # rest))) [] (body @ CHR '']'' # rest) =
      Inr (JArr ([] @ vs), rest)"
    unfolding body_def using assms Cons
    by (intro ParseArray_items_round_trip) (auto simp: list_all_iff)
  then show ?thesis
    using c(2) by (simp add: ParseArray_def b Let_def flip: body_def)
qed

lemma ParseObject_Serialize:
  assumes "list_all (\<lambda>(k, v). json_ok d v) m" and "om_wf m"
    and "\<And>v rest. json_ok d v \<Longrightarrow> value_end rest \<Longrightarrow> p (Serialize fp v @ rest) = Inr (v, rest)"
  shows "ParseObject p (Serialize fp (JObj m) @ rest) = Inr (JObj m, rest)"
proof (cases m)
  case Nil
  then show ?thesis by (simp add: ParseObject_def)
next
  case (Cons kv ws)
  define body where
    "body = sep_concat (map (\<lambda>(k, v). AppendQuoted k @ CHR '':'' # Serialize fp v) m)"
  obtain t' where b: "body = CHR 0x22 # t'"
    by (cases ws; cases kv) (simp_all add: body_def Cons AppendQuoted_def)
  have "length m \<le> length body"
    using sep_concat_length [of "map (\<lambda>(k, v). AppendQuoted k @ CHR '':'' # Serialize fp v) m"]
    by (auto simp: body_def list_all_iff split: prod.splits)
  then have "ParseObject_members p (Suc (length (body @ CHR ''}'' # rest))) [] (body @ CHR ''}'' # rest) =
      Inr (JObj ([] @ m), rest)"
    unfolding body_def using assms Cons
    by (intro ParseObject_members_round_trip) (auto simp: list_all_iff)
  then show ?thesis
    by (simp add: ParseObject_def b Let_def flip: body_def)
qed

lemma ParseValue_Serialize:
  "json_ok d v \<Longrightarrow> value_end rest \<Longrightarrow> ParseValue fp d (Serialize fp v @ rest) = Inr (v, rest)"
proof (induction d arbitrary: v rest)
  case (Suc d)
  show ?case
  proof (cases v)
    case (JInt i)
    then obtain c t where c: "int_to_string i = c # t" "is_digit c \<or> c = CHR ''-''"
      using int_to_string_hd [of i] by blast
    moreover have "c \<notin> {CHR 0x22, CHR ''['', CHR ''{'', CHR ''t'', CHR ''f'', CHR ''n''}" "\<not> is_json_space c"
      using c(2) by (auto simp: is_digit_iff is_json_space_def)
    moreover have "ParseNumber fp (int_to_string i @ rest) = Inr (JInt i, rest)"
      using Suc.prems JInt by (intro ParseNumber_int_to_string) auto
    ultimately show ?thesis by (simp add: JInt ParseValueInner_def Let_def)
  next
    case (JStr s)
    obtain t where "AppendQuoted s = CHR 0x22 # t" by (simp add: AppendQuoted_def)
    then show ?thesis
      using ParseString_AppendQuoted [of s rest] by (simp add: JStr ParseValueInner_def Let_def)
  next
    case (JArr vs)
    then show ?thesis
      using Suc ParseArray_Serialize [of d vs "ParseValue fp d" fp rest]
      by (simp add: ParseValueInner_def Let_def)
  next
    case (JObj m)
    then show ?thesis
      using Suc ParseObject_Serialize [of d m "ParseValue fp d" fp rest]
      by (simp add: ParseValueInner_def Let_def)
  qed (use Suc.prems in \<open>auto simp: ParseValueInner_def Let_def Consume_def\<close>)
qed simp

subsection \<open>The fuel of the loops is enough\<close>

text \<open>No parser returns more text than it was given.\<close>

definition shrinks :: "(string \<Rightarrow> 'a parse) \<Rightarrow> bool" where
  "shrinks p \<longleftrightarrow> (\<forall>s v r. p s = Inr (v, r) \<longrightarrow> length r \<le> length s)"

lemma shrinksD: "shrinks p \<Longrightarrow> p s = Inr (v, r) \<Longrightarrow> length r \<le> length s"
  by (auto simp: shrinks_def)

lemma SkipWhitespace_length: "length (SkipWhitespace s) \<le> length s"
  by (simp add: SkipWhitespace_def length_dropWhile_le)

lemma Consume_InrD: "Consume lit s = Inr (u, r) \<Longrightarrow> length r \<le> length s"
  by (auto simp: Consume_def parse_fail_def split: if_splits)

lemma ParseString_body_step:
  "ParseString_body out (c # s) = Inr (v, r) \<Longrightarrow>
     r = s \<or> (\<exists>out' s'. length s' \<le> length s \<and> ParseString_body out' s' = Inr (v, r))"
  unfolding ParseString_body.simps(2)
  by (auto simp: parse_fail_def simp del: ParseString_body.simps
      split: if_split_asm option.split_asm list.split_asm intro: exI le_SucI)

lemma ParseString_body_shrinks: "ParseString_body out s = Inr (v, r) \<Longrightarrow> length r \<le> length s"
proof (induction s arbitrary: out rule: length_induct)
  case (1 s)
  show ?case
  proof (cases s)
    case (Cons c t)
    with 1(2) consider "r = t" | out' s' where "length s' \<le> length t" "ParseString_body out' s' = Inr (v, r)"
      using ParseString_body_step [of out c t v r] by blast
    then show ?thesis
    proof cases
      case 2
      then have "length s' < length s" using Cons by simp
      then have "length r \<le> length s'" using 1(1) 2(2) by blast
      then show ?thesis using 2(1) Cons by simp
    qed (simp add: Cons)
  qed (use 1 in \<open>simp add: parse_fail_def\<close>)
qed

lemma ParseString_shrinks: "ParseString s = Inr (v, r) \<Longrightarrow> length r \<le> length s"
  by (auto simp: ParseString_def bind_result_Inr dest!: Consume_InrD ParseString_body_shrinks)

lemma ParseArray_items_fuel:
  assumes "shrinks p" "length s < f" "length s < g"
  shows "ParseArray_items p f acc s = ParseArray_items p g acc s"
  using assms(2,3)
proof (induction f arbitrary: g acc s)
  case (Suc f)
  then obtain g' where g: "g = Suc g'" by (cases g) auto
  have "ParseArray_items p f a s3 = ParseArray_items p g' a s3"
    if "p s = Inr (v, s1)" "SkipWhitespace s1 = c # s3" for v s1 c s3 a
  proof -
    have "length s3 < length s"
      using shrinksD [OF assms(1) that(1)] SkipWhitespace_length [of s1] that(2) by simp
    then show ?thesis using Suc.prems by (intro Suc.IH) (auto simp: g)
  qed
  then show ?case
    by (auto simp: g Let_def intro!: bind_result_cong split: list.split)
qed simp

lemma ParseObject_members_fuel:
  assumes "shrinks p" "length s < f" "length s < g"
  shows "ParseObject_members p f acc s = ParseObject_members p g acc s"
  using assms(2,3)
proof (induction f arbitrary: g acc s)
  case (Suc f)
  then obtain g' where g: "g = Suc g'" by (cases g) auto
  have "ParseObject_members p f a s5 = ParseObject_members p g' a s5"
    if "ParseString (SkipWhitespace s) = Inr (k, s1)"
      "Consume '':'' (SkipWhitespace s1) = Inr (u, s2)" "p s2 = Inr (v, s3)"
      "SkipWhitespace s3 = c # s5" for k s1 u s2 v s3 c s5 a
  proof -
    have "length s5 < length s"
      using ParseString_shrinks [OF that(1)] Consume_InrD [OF that(2)] shrinksD [OF assms(1) that(3)]
        SkipWhitespace_length [of s] SkipWhitespace_length [of s1] SkipWhitespace_length [of s3] that(4)
      by simp
    then show ?thesis using Suc.prems by (intro Suc.IH) (auto simp: g)
  qed
  then show ?case
    by (auto simp: g Let_def intro!: bind_result_cong split: list.split)
qed simp

lemma ParseArray_items_shrinks:
  "shrinks p \<Longrightarrow> ParseArray_items p f acc s = Inr (v, r) \<Longrightarrow> length r \<le> length s"
proof (induction f arbitrary: acc s)
  case (Suc f)
  from Suc.prems(2) obtain x s1 where p1: "p s = Inr (x, s1)"
    by (auto simp: bind_result_Inr)
  with Suc.prems(2) obtain c s3 where p: "p s = Inr (x, s1)" "SkipWhitespace s1 = c # s3"
    by (cases "SkipWhitespace s1") (simp_all add: parse_fail_def)
  with Suc.prems(2) have r: "r = s3 \<or> ParseArray_items p f (acc @ [x]) s3 = Inr (v, r)"
    by (simp add: parse_fail_def split: if_splits)
  have "length s3 \<le> length s"
    using shrinksD [OF Suc.prems(1) p(1)] SkipWhitespace_length [of s1] p(2) by simp
  with r Suc.IH [OF Suc.prems(1)] show ?case by fastforce
qed (simp add: parse_fail_def)

lemma ParseObject_members_shrinks:
  "shrinks p \<Longrightarrow> ParseObject_members p f acc s = Inr (v, r) \<Longrightarrow> length r \<le> length s"
proof (induction f arbitrary: acc s)
  case (Suc f)
  from Suc.prems(2) obtain k s1 u s2 x s3 where
    p': "ParseString (SkipWhitespace s) = Inr (k, s1)"
      "Consume '':'' (SkipWhitespace s1) = Inr (u, s2)" "p s2 = Inr (x, s3)"
    by (auto simp: bind_result_Inr parse_fail_def Let_def split: if_splits)
  with Suc.prems(2) obtain c s5 where p: "ParseString (SkipWhitespace s) = Inr (k, s1)"
      "Consume '':'' (SkipWhitespace s1) = Inr (u, s2)" "p s2 = Inr (x, s3)" "SkipWhitespace s3 = c # s5"
    by (cases "SkipWhitespace s3") (simp_all add: parse_fail_def Let_def split: if_splits)
  with Suc.prems(2) have r: "r = s5 \<or> ParseObject_members p f (om_put k x acc) s5 = Inr (v, r)"
    by (simp add: parse_fail_def Let_def split: if_splits)
  have "length s5 \<le> length s"
    using ParseString_shrinks [OF p(1)] Consume_InrD [OF p(2)] shrinksD [OF Suc.prems(1) p(3)]
        SkipWhitespace_length [of s] SkipWhitespace_length [of s1] SkipWhitespace_length [of s3] p(4)
    by simp
  with r Suc.IH [OF Suc.prems(1)] show ?case by fastforce
qed (simp add: parse_fail_def)

lemma ParseArray_shrinks:
  assumes "shrinks p" "ParseArray p s = Inr (v, r)"
  shows "length r \<le> length s"
proof -
  from assms(2) obtain u s1 where c: "Consume ''['' s = Inr (u, s1)"
    by (auto simp: ParseArray_def bind_result_Inr)
  with assms(2) have "r = tl (SkipWhitespace s1) \<or>
      ParseArray_items p (Suc (length (SkipWhitespace s1))) [] (SkipWhitespace s1) = Inr (v, r)"
    by (simp add: ParseArray_def Let_def del: ParseArray_items.simps split: if_splits)
  then have "length r \<le> length (SkipWhitespace s1)"
    using ParseArray_items_shrinks [OF assms(1)] by (auto simp del: ParseArray_items.simps)
  then show ?thesis using Consume_InrD [OF c] SkipWhitespace_length [of s1] by simp
qed

lemma ParseObject_shrinks:
  assumes "shrinks p" "ParseObject p s = Inr (v, r)"
  shows "length r \<le> length s"
proof -
  from assms(2) obtain u s1 where c: "Consume ''{'' s = Inr (u, s1)"
    by (auto simp: ParseObject_def bind_result_Inr)
  with assms(2) have "r = tl (SkipWhitespace s1) \<or>
      ParseObject_members p (Suc (length (SkipWhitespace s1))) [] (SkipWhitespace s1) = Inr (v, r)"
    by (simp add: ParseObject_def Let_def del: ParseObject_members.simps split: if_splits)
  then have "length r \<le> length (SkipWhitespace s1)"
    using ParseObject_members_shrinks [OF assms(1)] by (auto simp del: ParseObject_members.simps)
  then show ?thesis using Consume_InrD [OF c] SkipWhitespace_length [of s1] by simp
qed

lemma ParseNumber_shrinks: "ParseNumber fp s = Inr (v, r) \<Longrightarrow> length r \<le> length s"
proof -
  assume "ParseNumber fp s = Inr (v, r)"
  then obtain s1 where "r = dropWhile is_number_char s1" "length s1 \<le> length s"
    by (auto simp: ParseNumber_def parse_fail_def Let_def split: if_splits option.splits)
  then show ?thesis using length_dropWhile_le [of is_number_char s1] by simp
qed

theorem ParseValue_shrinks: "shrinks (ParseValue fp d)"
proof (induction d)
  case (Suc d)
  show ?case unfolding shrinks_def
  proof (intro allI impI)
    fix s v r assume "ParseValue fp (Suc d) s = Inr (v, r)"
    then have "length r \<le> length (SkipWhitespace s)"
      using ParseString_shrinks [of "SkipWhitespace s"] Consume_InrD [of _ "SkipWhitespace s"]
        ParseNumber_shrinks [of fp "SkipWhitespace s" v r]
        ParseArray_shrinks [OF Suc, of "SkipWhitespace s" v r]
        ParseObject_shrinks [OF Suc, of "SkipWhitespace s" v r]
      by (auto simp: ParseValueInner_def Let_def bind_result_Inr parse_fail_def
          split: list.splits if_splits)
    then show "length r \<le> length s" using SkipWhitespace_length [of s] by simp
  qed
qed (simp add: shrinks_def parse_fail_def)

subsection \<open>What the parser returns\<close>

text \<open>A parsed value nests at most as deep as the budget, its integers fit \<open>int64_t\<close>, and its objects
  have sorted distinct keys. A value without floating-point numbers is \<open>json_integral\<close>.\<close>

fun json_wf :: "nat \<Rightarrow> json \<Rightarrow> bool" where
  "json_wf 0 v = False"
| "json_wf (Suc d) (JInt i) = (- (2 ^ 63) \<le> i \<and> i < 2 ^ 63)"
| "json_wf (Suc d) (JArr vs) = list_all (json_wf d) vs"
| "json_wf (Suc d) (JObj m) = (om_wf m \<and> list_all (\<lambda>(k, v). json_wf d v) m)"
| "json_wf (Suc d) _ = True"

fun json_integral :: "json \<Rightarrow> bool" where
  "json_integral (JNum _) = False"
| "json_integral (JArr vs) = list_all json_integral vs"
| "json_integral (JObj m) = list_all (\<lambda>(k, v). json_integral v) m"
| "json_integral _ = True"

lemma json_wf_integral_ok: "json_wf d v \<Longrightarrow> json_integral v \<Longrightarrow> json_ok d v"
proof (induction d arbitrary: v)
  case (Suc d)
  then show ?case by (cases v) (fastforce simp: list_all_iff)+
qed simp

definition yields :: "(json \<Rightarrow> bool) \<Rightarrow> (string \<Rightarrow> json parse) \<Rightarrow> bool" where
  "yields P p \<longleftrightarrow> (\<forall>s v r. p s = Inr (v, r) \<longrightarrow> P v)"

lemma yieldsD: "yields P p \<Longrightarrow> p s = Inr (v, r) \<Longrightarrow> P v"
  by (auto simp: yields_def)

lemma list_all_om_put: "list_all (\<lambda>(k, v). P v) m \<Longrightarrow> P x \<Longrightarrow> list_all (\<lambda>(k, v). P v) (om_put k x m)"
  by (induction m) auto

lemma ParseArray_items_yields:
  assumes "yields P p" "ParseArray_items p f acc s = Inr (v, r)" "list_all P acc"
  shows "\<exists>vs. v = JArr vs \<and> list_all P vs"
  using assms(2,3)
proof (induction f arbitrary: acc s)
  case (Suc f)
  then obtain x s1 where p: "p s = Inr (x, s1)" by (auto simp: bind_result_Inr)
  then have acc: "list_all P (acc @ [x])" using yieldsD [OF assms(1) p] Suc.prems(2) by simp
  show ?case
    using Suc.prems(1) p acc Suc.IH [OF _ acc]
    by (auto simp: parse_fail_def Let_def split: list.splits if_splits)
qed (simp add: parse_fail_def)

lemma ParseObject_members_yields:
  assumes "yields P p" "ParseObject_members p f acc s = Inr (v, r)"
    "om_wf acc" "list_all (\<lambda>(k, v). P v) acc"
  shows "\<exists>m. v = JObj m \<and> om_wf m \<and> list_all (\<lambda>(k, v). P v) m"
  using assms(2-)
proof (induction f arbitrary: acc s)
  case (Suc f)
  from Suc.prems(1) obtain k s1 u s2 x s3 where
    p: "ParseString (SkipWhitespace s) = Inr (k, s1)"
      "Consume '':'' (SkipWhitespace s1) = Inr (u, s2)" "p s2 = Inr (x, s3)"
    by (auto simp: bind_result_Inr parse_fail_def Let_def split: if_splits)
  let ?acc = "om_put k x acc"
  have acc: "om_wf ?acc" "list_all (\<lambda>(k, v). P v) ?acc"
    using Suc.prems(2,3) yieldsD [OF assms(1) p(3)] by (auto simp: om_wf_put list_all_om_put)
  show ?case
    using Suc.prems(1) p acc Suc.IH [OF _ acc]
    by (auto simp: parse_fail_def Let_def split: list.splits if_splits)
qed (simp add: parse_fail_def)

lemma ParseNumber_yields: "ParseNumber fp s = Inr (v, r) \<Longrightarrow> json_wf (Suc d) v"
  by (auto simp: ParseNumber_def strtoll10_def clamp_int64_def parse_fail_def Let_def
      split: if_splits option.splits)

lemma ParseValue_yields: "yields (json_wf d) (ParseValue fp d)"
proof (induction d)
  case (Suc d)
  show ?case unfolding yields_def
  proof (intro allI impI)
    fix s v r assume "ParseValue fp (Suc d) s = Inr (v, r)"
    moreover have arr: "json_wf (Suc d) v"
      if "ParseArray_items (ParseValue fp d) f [] t = Inr (v, r)" for f t
      using ParseArray_items_yields [OF Suc that] by auto
    moreover have obj: "json_wf (Suc d) v"
      if "ParseObject_members (ParseValue fp d) f [] t = Inr (v, r)" for f t
      using ParseObject_members_yields [OF Suc that] by (auto simp: om_wf_def)
    moreover have "json_wf (Suc d) v" if "ParseArray (ParseValue fp d) t = Inr (v, r)" for t
      using that by (auto simp: ParseArray_def bind_result_Inr Let_def simp del: ParseArray_items.simps
          split: if_splits dest!: arr)
    moreover have "json_wf (Suc d) v" if "ParseObject (ParseValue fp d) t = Inr (v, r)" for t
      using that by (auto simp: ParseObject_def bind_result_Inr Let_def om_wf_def
          simp del: ParseObject_members.simps split: if_splits dest!: obj)
    ultimately show "json_wf (Suc d) v"
      using ParseNumber_yields [of fp _ v r d]
      by (auto simp: ParseValueInner_def Let_def bind_result_Inr parse_fail_def
          split: list.splits if_splits)
  qed
qed (simp add: yields_def parse_fail_def)

lemma ParseJson_Serialize: "json_ok kMaxDepth v \<Longrightarrow> ParseJson fp (Serialize fp v) = Inr v"
  using ParseValue_Serialize [of kMaxDepth v "[]" fp] by (simp add: ParseJson_def SkipWhitespace_def)

lemma ParseJson_wf: "ParseJson fp t = Inr v \<Longrightarrow> json_wf kMaxDepth v"
  using yieldsD [OF ParseValue_yields]
  by (auto simp: ParseJson_def bind_result_Inr Let_def split: if_splits)

text \<open>C16. Serialising a value without floating-point numbers (nested at most 256 deep, integers in the
  range of \<open>int64_t\<close>, object keys sorted) and parsing the text gives the value back, and the parser
  ends at the end of the text.\<close>

theorem json_round_trip: "json_ok kMaxDepth v \<Longrightarrow> ParseJson fp (Serialize fp v) = Inr v"
  by (rule ParseJson_Serialize)

definition no_fp :: fp_ops where
  "no_fp = \<lparr>fp_strtod = \<lambda>_. None, fp_print = \<lambda>_. [], fp_trunc = \<lambda>_. 0, fp_less = \<lambda>_ _. False, fp_eq = \<lambda>_ _. False,
     fp_of_int = \<lambda>_. 0\<rparr>"

theorem json_round_trip_witness:
  "ParseJson no_fp (Serialize no_fp (JObj [(''a'', JArr [JInt (- 12), JNull]), (''b'', JStr [CHR 0x0A])])) =
     Inr (JObj [(''a'', JArr [JInt (- 12), JNull]), (''b'', JStr [CHR 0x0A])])"
  by (rule json_round_trip) (simp add: kMaxDepth_def eval_nat_numeral om_wf_def)

text \<open>C27. Whatever text the parser accepts, the value it returns nests at most 256 deep, has its
  integers in the range of \<open>int64_t\<close> and its object keys sorted and distinct; and, when it has no
  floating-point number, its serialisation parses to the same value.\<close>

theorem json_reparse:
  "ParseJson fp t = Inr v \<Longrightarrow>
     json_wf kMaxDepth v \<and> (json_integral v \<longrightarrow> ParseJson fp (Serialize fp v) = Inr v)"
  using ParseJson_wf ParseJson_Serialize json_wf_integral_ok by blast

theorem json_reparse_witness:
  "ParseJson no_fp '' [1 , true]'' = Inr (JArr [JInt 1, JBool True]) \<and>
   json_wf kMaxDepth (JArr [JInt 1, JBool True]) \<and>
   ParseJson no_fp (Serialize no_fp (JArr [JInt 1, JBool True])) = Inr (JArr [JInt 1, JBool True])"
proof -
  have "ParseJson no_fp '' [1 , true]'' = Inr (JArr [JInt 1, JBool True])" by code_simp
  from this json_reparse [OF this] show ?thesis by simp
qed

end
