(* ===== verification/Ge_Types.thy ===== *)
theory Ge_Types
  imports Json
begin

section \<open>Status codes, results and operator keys\<close>

text \<open>
  Models \<open>include/ge/cpp/types.h\<close>: the status codes of the C ABI, \<open>Status\<close> with its named
  constructors, \<open>Result<T>\<close> (a sum with the status on the left) and \<open>OperatorKey\<close>. The field
  \<open>context_json\<close> is kept as the JSON document it is the text of; no context is \<open>None\<close>. The severity of
  an \<open>ErrorDetail\<close> is \<open>kError\<close> in every constructor and is left out.
\<close>

datatype status_code =
    GE_STATUS_OK
  | GE_STATUS_INVALID_ARGUMENT
  | GE_STATUS_NOT_FOUND
  | GE_STATUS_ALREADY_EXISTS
  | GE_STATUS_VERSION_CONFLICT
  | GE_STATUS_GRAPH_INVALID
  | GE_STATUS_CAPABILITY_CONFLICT
  | GE_STATUS_SHARED_DEPENDENCY
  | GE_STATUS_RESOURCE_EXHAUSTED
  | GE_STATUS_NODE_WARMUP_FAILED
  | GE_STATUS_PARAMETER_UNSUPPORTED
  | GE_STATUS_PARAMETER_APPLY_FAILED
  | GE_STATUS_PLUGIN_ABI_MISMATCH
  | GE_STATUS_PLUGIN_MANIFEST_INVALID
  | GE_STATUS_PLUGIN_RETIRED
  | GE_STATUS_PLUGIN_PHYSICAL_UNLOAD_UNSAFE
  | GE_STATUS_WOULD_BLOCK
  | GE_STATUS_CANCELLED
  | GE_STATUS_INTERNAL

record status =
  st_code :: status_code
  st_message :: string
  st_retryable :: bool
  st_context :: "json option"

definition Status :: "status_code \<Rightarrow> string \<Rightarrow> bool \<Rightarrow> json option \<Rightarrow> status" where
  "Status c m r ctx = \<lparr>st_code = c, st_message = m, st_retryable = r, st_context = ctx\<rparr>"

definition Status_Ok :: status where
  "Status_Ok = Status GE_STATUS_OK [] False None"

definition Status_InvalidArgument :: "string \<Rightarrow> status" where
  "Status_InvalidArgument m = Status GE_STATUS_INVALID_ARGUMENT m False None"

definition Status_NotFound :: "string \<Rightarrow> status" where
  "Status_NotFound m = Status GE_STATUS_NOT_FOUND m False None"

definition Status_AlreadyExists :: "string \<Rightarrow> status" where
  "Status_AlreadyExists m = Status GE_STATUS_ALREADY_EXISTS m False None"

definition Status_VersionConflict :: "string \<Rightarrow> status" where
  "Status_VersionConflict m = Status GE_STATUS_VERSION_CONFLICT m True None"

definition Status_GraphInvalid :: "string \<Rightarrow> json option \<Rightarrow> status" where
  "Status_GraphInvalid m ctx = Status GE_STATUS_GRAPH_INVALID m False ctx"

definition Status_CapabilityConflict :: "string \<Rightarrow> json option \<Rightarrow> status" where
  "Status_CapabilityConflict m ctx = Status GE_STATUS_CAPABILITY_CONFLICT m False ctx"

definition Status_SharedDependency :: "string \<Rightarrow> json option \<Rightarrow> status" where
  "Status_SharedDependency m ctx = Status GE_STATUS_SHARED_DEPENDENCY m False ctx"

definition Status_ResourceExhausted :: "string \<Rightarrow> json option \<Rightarrow> status" where
  "Status_ResourceExhausted m ctx = Status GE_STATUS_RESOURCE_EXHAUSTED m True ctx"

definition Status_NodeWarmupFailed :: "string \<Rightarrow> status" where
  "Status_NodeWarmupFailed m = Status GE_STATUS_NODE_WARMUP_FAILED m False None"

definition Status_ParameterUnsupported :: "string \<Rightarrow> status" where
  "Status_ParameterUnsupported m = Status GE_STATUS_PARAMETER_UNSUPPORTED m False None"

definition Status_ParameterApplyFailed :: "string \<Rightarrow> status" where
  "Status_ParameterApplyFailed m = Status GE_STATUS_PARAMETER_APPLY_FAILED m False None"

definition Status_PluginAbiMismatch :: "string \<Rightarrow> status" where
  "Status_PluginAbiMismatch m = Status GE_STATUS_PLUGIN_ABI_MISMATCH m False None"

definition Status_PluginManifestInvalid :: "string \<Rightarrow> status" where
  "Status_PluginManifestInvalid m = Status GE_STATUS_PLUGIN_MANIFEST_INVALID m False None"

definition Status_PluginRetired :: "string \<Rightarrow> status" where
  "Status_PluginRetired m = Status GE_STATUS_PLUGIN_RETIRED m False None"

definition Status_PluginPhysicalUnloadUnsafe :: "string \<Rightarrow> status" where
  "Status_PluginPhysicalUnloadUnsafe m = Status GE_STATUS_PLUGIN_PHYSICAL_UNLOAD_UNSAFE m True None"

definition Status_WouldBlock :: status where
  "Status_WouldBlock = Status GE_STATUS_WOULD_BLOCK ''would block'' True None"

definition Status_Cancelled :: "string \<Rightarrow> status" where
  "Status_Cancelled m = Status GE_STATUS_CANCELLED m False None"

definition Status_Internal :: "string \<Rightarrow> status" where
  "Status_Internal m = Status GE_STATUS_INTERNAL m False None"

lemmas status_defs = Status_def Status_Ok_def Status_InvalidArgument_def Status_NotFound_def
  Status_AlreadyExists_def Status_VersionConflict_def Status_GraphInvalid_def
  Status_CapabilityConflict_def Status_SharedDependency_def Status_ResourceExhausted_def
  Status_NodeWarmupFailed_def Status_ParameterUnsupported_def Status_ParameterApplyFailed_def
  Status_PluginAbiMismatch_def Status_PluginManifestInvalid_def Status_PluginRetired_def
  Status_PluginPhysicalUnloadUnsafe_def Status_WouldBlock_def Status_Cancelled_def
  Status_Internal_def

definition Status_ok :: "status \<Rightarrow> bool" where
  "Status_ok s \<longleftrightarrow> st_code s = GE_STATUS_OK"

fun CodeName :: "status_code \<Rightarrow> string" where
  "CodeName GE_STATUS_OK = ''OK''"
| "CodeName GE_STATUS_INVALID_ARGUMENT = ''INVALID_ARGUMENT''"
| "CodeName GE_STATUS_NOT_FOUND = ''NOT_FOUND''"
| "CodeName GE_STATUS_ALREADY_EXISTS = ''ALREADY_EXISTS''"
| "CodeName GE_STATUS_VERSION_CONFLICT = ''VERSION_CONFLICT''"
| "CodeName GE_STATUS_GRAPH_INVALID = ''GRAPH_INVALID''"
| "CodeName GE_STATUS_CAPABILITY_CONFLICT = ''CAPABILITY_CONFLICT''"
| "CodeName GE_STATUS_SHARED_DEPENDENCY = ''SHARED_DEPENDENCY''"
| "CodeName GE_STATUS_RESOURCE_EXHAUSTED = ''RESOURCE_EXHAUSTED''"
| "CodeName GE_STATUS_NODE_WARMUP_FAILED = ''NODE_WARMUP_FAILED''"
| "CodeName GE_STATUS_PARAMETER_UNSUPPORTED = ''PARAMETER_UNSUPPORTED''"
| "CodeName GE_STATUS_PARAMETER_APPLY_FAILED = ''PARAMETER_APPLY_FAILED''"
| "CodeName GE_STATUS_PLUGIN_ABI_MISMATCH = ''PLUGIN_ABI_MISMATCH''"
| "CodeName GE_STATUS_PLUGIN_MANIFEST_INVALID = ''PLUGIN_MANIFEST_INVALID''"
| "CodeName GE_STATUS_PLUGIN_RETIRED = ''PLUGIN_RETIRED''"
| "CodeName GE_STATUS_PLUGIN_PHYSICAL_UNLOAD_UNSAFE = ''PLUGIN_PHYSICAL_UNLOAD_UNSAFE''"
| "CodeName GE_STATUS_WOULD_BLOCK = ''WOULD_BLOCK''"
| "CodeName GE_STATUS_CANCELLED = ''CANCELLED''"
| "CodeName GE_STATUS_INTERNAL = ''INTERNAL''"

definition Status_ToString :: "status \<Rightarrow> string" where
  "Status_ToString s =
     CodeName (st_code s) @ (if st_message s = [] then [] else '': '' @ st_message s)"

type_synonym 'a result = "status + 'a"

text \<open>\<open>Result<T>\<close> built from a status: an OK status without a value is an internal error.\<close>

definition Result_of_status :: "status \<Rightarrow> 'a result" where
  "Result_of_status s =
     (if Status_ok s then Inl (Status_Internal ''Result constructed from OK status without value'')
      else Inl s)"

lemma Status_ok_simps [simp]:
  "Status_ok Status_Ok"
  "\<not> Status_ok (Status_InvalidArgument m)" "\<not> Status_ok (Status_NotFound m)"
  "\<not> Status_ok (Status_AlreadyExists m)" "\<not> Status_ok (Status_VersionConflict m)"
  "\<not> Status_ok (Status_GraphInvalid m c)" "\<not> Status_ok (Status_CapabilityConflict m c)"
  "\<not> Status_ok (Status_SharedDependency m c)" "\<not> Status_ok (Status_ResourceExhausted m c)"
  "\<not> Status_ok (Status_NodeWarmupFailed m)" "\<not> Status_ok (Status_ParameterUnsupported m)"
  "\<not> Status_ok (Status_ParameterApplyFailed m)" "\<not> Status_ok (Status_PluginAbiMismatch m)"
  "\<not> Status_ok (Status_PluginManifestInvalid m)" "\<not> Status_ok (Status_PluginRetired m)"
  "\<not> Status_ok (Status_PluginPhysicalUnloadUnsafe m)" "\<not> Status_ok Status_WouldBlock"
  "\<not> Status_ok (Status_Cancelled m)" "\<not> Status_ok (Status_Internal m)"
  by (simp_all add: Status_ok_def status_defs)

subsection \<open>Text helpers\<close>

text \<open>\<open>std::string_view::find\<close> of one character.\<close>

fun str_find :: "char \<Rightarrow> string \<Rightarrow> nat option" where
  "str_find c [] = None"
| "str_find c (x # xs) = (if x = c then Some 0 else map_option Suc (str_find c xs))"

lemma str_find_Some:
  "str_find c s = Some n \<Longrightarrow> s = take n s @ c # drop (Suc n) s \<and> c \<notin> set (take n s) \<and> n < length s"
  by (induction s arbitrary: n) (auto split: if_splits)

lemma str_find_append: "c \<notin> set a \<Longrightarrow> str_find c (a @ c # b) = Some (length a)"
  by (induction a) auto

lemma str_find_None: "str_find c s = None \<longleftrightarrow> c \<notin> set s"
  by (induction s) auto

subsection \<open>Operator keys\<close>

record operator_key =
  ok_type_name :: string
  ok_semantic_version :: string

definition OperatorKey_ToString :: "operator_key \<Rightarrow> string" where
  "OperatorKey_ToString k = ok_type_name k @ ''@'' @ ok_semantic_version k"

definition OperatorKey_Parse :: "string \<Rightarrow> operator_key option" where
  "OperatorKey_Parse t =
     (case str_find CHR ''@'' t of
        None \<Rightarrow> None
      | Some at \<Rightarrow>
          if at = 0 \<or> at + 1 \<ge> length t then None
          else Some \<lparr>ok_type_name = take at t, ok_semantic_version = drop (at + 1) t\<rparr>)"

lemma OperatorKey_Parse_iff:
  "OperatorKey_Parse t = Some k \<longleftrightarrow>
     t = OperatorKey_ToString k \<and> ok_type_name k \<noteq> [] \<and> CHR ''@'' \<notin> set (ok_type_name k) \<and>
     ok_semantic_version k \<noteq> []"
proof
  assume "OperatorKey_Parse t = Some k"
  then obtain n where n: "str_find CHR ''@'' t = Some n" "n \<noteq> 0" "n + 1 < length t"
    "k = \<lparr>ok_type_name = take n t, ok_semantic_version = drop (n + 1) t\<rparr>"
    by (auto simp: OperatorKey_Parse_def split: option.splits if_splits)
  then show "t = OperatorKey_ToString k \<and> ok_type_name k \<noteq> [] \<and> CHR ''@'' \<notin> set (ok_type_name k) \<and>
     ok_semantic_version k \<noteq> []"
    using str_find_Some [OF n(1)] by (auto simp: OperatorKey_ToString_def)
qed (auto simp: OperatorKey_Parse_def OperatorKey_ToString_def str_find_append)

text \<open>A key whose text can be read back.\<close>

definition key_ok :: "operator_key \<Rightarrow> bool" where
  "key_ok k \<longleftrightarrow> ok_type_name k \<noteq> [] \<and> CHR ''@'' \<notin> set (ok_type_name k) \<and> ok_semantic_version k \<noteq> []"

lemma OperatorKey_text [simp]: "key_ok k \<Longrightarrow> OperatorKey_Parse (OperatorKey_ToString k) = Some k"
  by (simp add: OperatorKey_Parse_iff key_ok_def)

text \<open>C37. \<open>OperatorKey::Parse\<close> accepts exactly the texts \<open>ToString\<close> writes for a key with a non-empty
  type name that has no at sign and a non-empty version, and returns that key.\<close>

theorem OperatorKey_round_trip:
  "OperatorKey_Parse t = Some k \<longleftrightarrow>
     t = OperatorKey_ToString k \<and> ok_type_name k \<noteq> [] \<and> CHR ''@'' \<notin> set (ok_type_name k) \<and>
     ok_semantic_version k \<noteq> []"
  by (rule OperatorKey_Parse_iff)

end
