(* ===== verification/Packet.thy ===== *)
theory Packet
  imports Ge_Types
begin

section \<open>Buffers, type tags, metadata and packets\<close>

text \<open>
  Models \<open>include/ge/cpp/packet.h\<close> and \<open>src/packet.cpp\<close>. Buffers live in an explicit heap (a map from
  addresses to buffers), because the buffer pool's contract is about aliasing: a buffer that is
  handed out is on no free list. \<open>std::aligned_alloc\<close> is the argument \<open>alloc\<close>. Packets are values
  behind a shared pointer: a \<open>PacketRef\<close> is a \<open>packet option\<close>.
\<close>

unbundle bit_operations_syntax

subsection \<open>The host buffer pool\<close>

type_synonym addr = nat

record pooled_buffer =
  pb_size :: nat
  pb_capacity :: nat
  pb_size_class :: nat
  pb_refs :: nat

record pool =
  pool_max_cached_bytes :: nat
  pool_alignment :: nat
  pool_free_lists :: "addr list list"
  pool_cached_bytes :: nat
  pool_allocations :: nat
  pool_hits :: nat
  pool_live :: nat
  pool_closed :: bool
  pool_heap :: "addr \<Rightarrow> pooled_buffer option"

definition kMinClass :: nat where "kMinClass = 256"
definition kClassCount :: nat where "kClassCount = 24"

text \<open>\<open>std::bit_ceil\<close>: the first power of two from \<open>p\<close> on that is not below \<open>n\<close>.\<close>

function bit_ceil_from :: "nat \<Rightarrow> nat \<Rightarrow> nat" where
  "bit_ceil_from p n = (if n \<le> p \<or> p = 0 then p else bit_ceil_from (2 * p) n)"
  by auto
termination by (relation "measure (\<lambda>(p, n). n - p)") auto

declare bit_ceil_from.simps [simp del]

definition has_single_bit :: "nat \<Rightarrow> bool" where
  "has_single_bit n \<longleftrightarrow> n \<noteq> 0 \<and> bit_ceil_from 1 n = n"

definition HostBufferPool_new :: "nat \<Rightarrow> nat \<Rightarrow> pool" where
  "HostBufferPool_new max_cached alignment =
     (let a = (if alignment < 16 then 16 else alignment);
          a' = (if has_single_bit a then a else bit_ceil_from 1 a)
      in \<lparr>pool_max_cached_bytes = max_cached, pool_alignment = a',
          pool_free_lists = replicate kClassCount [], pool_cached_bytes = 0, pool_allocations = 0,
          pool_hits = 0, pool_live = 0, pool_closed = False, pool_heap = Map.empty\<rparr>)"

function SizeClass_loop :: "nat \<Rightarrow> nat \<Rightarrow> nat \<Rightarrow> nat" where
  "SizeClass_loop sz cap cls =
     (if cap < sz \<and> cls + 1 < kClassCount then SizeClass_loop sz (cap * 2) (cls + 1) else cls)"
  by auto
termination by (relation "measure (\<lambda>(sz, cap, cls). kClassCount - cls)") auto

declare SizeClass_loop.simps [simp del]

definition SizeClass :: "nat \<Rightarrow> nat" where
  "SizeClass sz = SizeClass_loop sz kMinClass 0"

definition class_capacity :: "nat \<Rightarrow> nat" where
  "class_capacity cls = kMinClass * 2 ^ cls"

definition pool_Allocate :: "(nat \<Rightarrow> nat \<Rightarrow> addr option) \<Rightarrow> nat \<Rightarrow> pool \<Rightarrow> addr option \<times> pool" where
  "pool_Allocate alloc sz st =
     (let cls = SizeClass sz; cap = class_capacity cls in
      if cap < sz then (None, st)
      else
        let st1 = st\<lparr>pool_allocations := u64 (pool_allocations st + 1)\<rparr>;
            free = pool_free_lists st1 ! cls in
        if free \<noteq> [] then
          let b = last free;
              st2 = st1\<lparr>pool_free_lists := (pool_free_lists st1)[cls := butlast free],
                        pool_cached_bytes := sub64 (pool_cached_bytes st1) cap,
                        pool_hits := u64 (pool_hits st1 + 1)\<rparr>
          in (Some b,
              st2\<lparr>pool_heap := (pool_heap st2)(b := map_option (\<lambda>pb. pb\<lparr>pb_size := sz, pb_refs := 1\<rparr>)
                                                  (pool_heap st2 b)),
                  pool_live := u64 (pool_live st2 + 1)\<rparr>)
        else
          let al = pool_alignment st1 in
          (case alloc al ((cap + al - 1) div al * al) of
             None \<Rightarrow> (None, st1)
           | Some b \<Rightarrow>
               (Some b,
                st1\<lparr>pool_heap := (pool_heap st1)(b \<mapsto> \<lparr>pb_size = sz, pb_capacity = cap,
                                                      pb_size_class = cls, pb_refs = 1\<rparr>),
                    pool_live := u64 (pool_live st1 + 1)\<rparr>)))"

definition pool_Recycle :: "addr \<Rightarrow> pool \<Rightarrow> pool" where
  "pool_Recycle b st =
     (case pool_heap st b of
        None \<Rightarrow> st
      | Some pb \<Rightarrow>
          let st1 = st\<lparr>pool_live := sub64 (pool_live st) 1\<rparr>;
              cls = pb_size_class pb; cap = class_capacity cls in
          if \<not> pool_closed st1 \<and> u64 (pool_cached_bytes st1 + cap) \<le> pool_max_cached_bytes st1 then
            st1\<lparr>pool_free_lists := (pool_free_lists st1)[cls := pool_free_lists st1 ! cls @ [b]],
                pool_cached_bytes := u64 (pool_cached_bytes st1 + cap)\<rparr>
          else st1\<lparr>pool_heap := (pool_heap st1)(b := None)\<rparr>)"

definition BufferRef_Retain :: "addr \<Rightarrow> pool \<Rightarrow> pool" where
  "BufferRef_Retain b st =
     st\<lparr>pool_heap := (pool_heap st)(b := map_option (\<lambda>pb. pb\<lparr>pb_refs := u32 (pb_refs pb + 1)\<rparr>)
                                        (pool_heap st b))\<rparr>"

definition BufferRef_Reset :: "addr \<Rightarrow> pool \<Rightarrow> pool" where
  "BufferRef_Reset b st =
     (case pool_heap st b of
        None \<Rightarrow> st
      | Some pb \<Rightarrow>
          let st1 = st\<lparr>pool_heap := (pool_heap st)(b \<mapsto> pb\<lparr>pb_refs := u32 (pb_refs pb + 2 ^ 32 - 1)\<rparr>)\<rparr>
          in if pb_refs pb = 1 then pool_Recycle b st1 else st1)"

subsection \<open>Type tags\<close>

type_synonym type_tags = "string list"

definition kInvalidTypeTag :: nat where "kInvalidTypeTag = 0"

definition TypeTagRegistry_new :: type_tags where
  "TypeTagRegistry_new = [[], ''VideoFrame'', ''AudioFrame'', ''Tensor'', ''Bytes'', ''Json'',
                          ''EncodedVideo'', ''EncodedAudio'']"

definition builtin_count :: nat where "builtin_count = length TypeTagRegistry_new"

definition tag_index :: "type_tags \<Rightarrow> string \<Rightarrow> nat option" where
  "tag_index names tag = find (\<lambda>i. names ! i = tag) [1..<length names]"

definition TypeTag_Intern :: "string \<Rightarrow> type_tags \<Rightarrow> nat \<times> type_tags" where
  "TypeTag_Intern tag names =
     (if tag = [] then (kInvalidTypeTag, names)
      else case tag_index names tag of
             Some i \<Rightarrow> (u32 i, names)
           | None \<Rightarrow> (u32 (length (names @ [tag]) - 1), names @ [tag]))"

definition TypeTag_Find :: "string \<Rightarrow> type_tags \<Rightarrow> nat" where
  "TypeTag_Find tag names = (case tag_index names tag of Some i \<Rightarrow> u32 i | None \<Rightarrow> kInvalidTypeTag)"

definition TypeTag_Name :: "nat \<Rightarrow> type_tags \<Rightarrow> string" where
  "TypeTag_Name i names = (if i < length names then names ! i else [])"

definition TypeTag_IsBuiltin :: "nat \<Rightarrow> bool" where
  "TypeTag_IsBuiltin i \<longleftrightarrow> i \<noteq> kInvalidTypeTag \<and> i < builtin_count"

subsection \<open>Metadata\<close>

text \<open>\<open>std::lower_bound\<close> on a vector that the key order partitions: the first entry not below.\<close>

type_synonym metadata = "(string \<times> string) list"

definition lower_bound :: "(string \<times> 'v) list \<Rightarrow> string \<Rightarrow> nat" where
  "lower_bound es key = length (takeWhile (\<lambda>e. fst e < key) es)"

definition Metadata_Set :: "string \<Rightarrow> string \<Rightarrow> metadata \<Rightarrow> metadata" where
  "Metadata_Set key v es =
     (let i = lower_bound es key in
      if i < length es \<and> fst (es ! i) = key then es[i := (fst (es ! i), v)]
      else take i es @ (key, v) # drop i es)"

definition Metadata_Get :: "string \<Rightarrow> metadata \<Rightarrow> string option" where
  "Metadata_Get key es =
     (let i = lower_bound es key in
      if i < length es \<and> fst (es ! i) = key then Some (snd (es ! i)) else None)"

definition Metadata_Has :: "string \<Rightarrow> metadata \<Rightarrow> bool" where
  "Metadata_Has key es \<longleftrightarrow> Metadata_Get key es \<noteq> None"

definition Metadata_ToJson :: "fp_ops \<Rightarrow> metadata \<Rightarrow> string" where
  "Metadata_ToJson fp es = Serialize fp (JObj (fold (\<lambda>(k, v). om_emplace k (JStr v)) es []))"

definition Metadata_FromJson :: "fp_ops \<Rightarrow> string \<Rightarrow> metadata result" where
  "Metadata_FromJson fp t =
     (if t = [] then Inr []
      else case ParseJson fp t of
             Inl e \<Rightarrow> Inl (Status_InvalidArgument (''invalid metadata JSON: '' @ json_error_text t e))
           | Inr v \<Rightarrow>
               if \<not> is_object v then Inl (Status_InvalidArgument ''metadata must be a JSON object'')
               else Inr (fold (\<lambda>(k, x). Metadata_Set k (case x of JStr s \<Rightarrow> s | _ \<Rightarrow> Serialize fp x))
                           (as_object v) []))"

subsection \<open>Packets\<close>

definition GE_PACKET_FLAG_KEYFRAME :: "32 word" where "GE_PACKET_FLAG_KEYFRAME = 0x1"
definition GE_PACKET_FLAG_EOS :: "32 word" where "GE_PACKET_FLAG_EOS = 0x2"
definition GE_PACKET_FLAG_EVENT :: "32 word" where "GE_PACKET_FLAG_EVENT = 0x4"
definition GE_PACKET_FLAG_DROPPED :: "32 word" where "GE_PACKET_FLAG_DROPPED = 0x8"

record packet_header =
  ph_seq :: nat
  ph_pts_ns :: int
  ph_dts_ns :: int
  ph_flags :: "32 word"
  ph_topology_version :: nat
  ph_parameter_version :: nat
  ph_type_tag :: nat

record packet =
  pkt_header :: packet_header
  pkt_metadata :: "metadata option"
  pkt_payload :: "addr option"
  pkt_ingress_ns :: int

type_synonym packet_ref = "packet option"

definition PacketHeader_init :: packet_header where
  "PacketHeader_init = \<lparr>ph_seq = 0, ph_pts_ns = 0, ph_dts_ns = 0, ph_flags = 0,
     ph_topology_version = 0, ph_parameter_version = 0, ph_type_tag = kInvalidTypeTag\<rparr>"

definition Packet_init :: packet where
  "Packet_init = \<lparr>pkt_header = PacketHeader_init, pkt_metadata = None, pkt_payload = None,
     pkt_ingress_ns = 0\<rparr>"

definition is_eos :: "packet \<Rightarrow> bool" where
  "is_eos p \<longleftrightarrow> ph_flags (pkt_header p) AND GE_PACKET_FLAG_EOS \<noteq> 0"

definition is_event :: "packet \<Rightarrow> bool" where
  "is_event p \<longleftrightarrow> ph_flags (pkt_header p) AND GE_PACKET_FLAG_EVENT \<noteq> 0"

definition is_dropped :: "packet \<Rightarrow> bool" where
  "is_dropped p \<longleftrightarrow> ph_flags (pkt_header p) AND GE_PACKET_FLAG_DROPPED \<noteq> 0"

definition Packet_meta :: "packet \<Rightarrow> metadata" where
  "Packet_meta p = (case pkt_metadata p of Some m \<Rightarrow> m | None \<Rightarrow> [])"

definition Packet_Eos :: "nat \<Rightarrow> nat \<Rightarrow> nat \<Rightarrow> nat \<Rightarrow> packet" where
  "Packet_Eos tag tv pv sq =
     Packet_init\<lparr>pkt_header := PacketHeader_init\<lparr>ph_seq := sq, ph_flags := GE_PACKET_FLAG_EOS,
       ph_topology_version := tv, ph_parameter_version := pv, ph_type_tag := tag\<rparr>\<rparr>"

text \<open>The test \<open>packet && packet->is_eos()\<close> the queues make on a reference.\<close>

definition eos_ref :: "packet_ref \<Rightarrow> bool" where
  "eos_ref r = (case r of Some p \<Rightarrow> is_eos p | None \<Rightarrow> False)"

lemma is_eos_Eos [simp]: "is_eos (Packet_Eos tag tv pv sq)"
  by (simp add: is_eos_def Packet_Eos_def GE_PACKET_FLAG_EOS_def)

subsection \<open>Size classes\<close>

lemma class_capacity_Suc [simp]: "class_capacity (Suc c) = class_capacity c * 2"
  by (simp add: class_capacity_def)

lemma class_capacity_bounds:
  assumes "c < kClassCount"
  shows "0 < class_capacity c" "class_capacity c \<le> 2147483648"
proof -
  have "(2::nat) ^ c \<le> 2 ^ 23" using assms by (intro power_increasing) (auto simp: kClassCount_def)
  then show "class_capacity c \<le> 2147483648" by (simp add: class_capacity_def kMinClass_def)
qed (simp add: class_capacity_def kMinClass_def)

lemma SizeClass_loop_spec:
  "c < kClassCount \<Longrightarrow> r = SizeClass_loop sz (class_capacity c) c \<Longrightarrow>
     c \<le> r \<and> r < kClassCount \<and> (r + 1 = kClassCount \<or> sz \<le> class_capacity r) \<and>
     (\<forall>d. c \<le> d \<longrightarrow> d < r \<longrightarrow> class_capacity d < sz)"
proof (induction "kClassCount - c" arbitrary: c rule: less_induct)
  case less
  show ?case
  proof (cases "class_capacity c < sz \<and> c + 1 < kClassCount")
    case True
    then have "r = SizeClass_loop sz (class_capacity (c + 1)) (c + 1)"
      using less.prems(2) by (simp add: SizeClass_loop.simps [of sz _ c])
    then have ih: "c + 1 \<le> r \<and> r < kClassCount \<and> (r + 1 = kClassCount \<or> sz \<le> class_capacity r) \<and>
        (\<forall>d. c + 1 \<le> d \<longrightarrow> d < r \<longrightarrow> class_capacity d < sz)"
      using True by (intro less.hyps) auto
    have "class_capacity d < sz" if "c \<le> d" "d < r" for d
      using that ih True by (cases "d = c") auto
    with ih show ?thesis by simp
  next
    case False
    then show ?thesis using less.prems by (auto simp: SizeClass_loop.simps [of sz _ c])
  qed
qed

lemma SizeClass_bound: "SizeClass sz < kClassCount"
  using SizeClass_loop_spec [of 0 "SizeClass sz" sz]
  by (simp add: SizeClass_def class_capacity_def kClassCount_def)

text \<open>The size class is the smallest of the 24 whose capacity holds the request, and the last one when
  none does.\<close>

lemma SizeClass_fits: "sz \<le> class_capacity (kClassCount - 1) \<Longrightarrow> sz \<le> class_capacity (SizeClass sz)"
proof -
  assume "sz \<le> class_capacity (kClassCount - 1)"
  then show ?thesis using SizeClass_loop_spec [of 0 "SizeClass sz" sz]
    by (auto simp: SizeClass_def class_capacity_def kClassCount_def)
qed

lemma SizeClass_least: "d < SizeClass sz \<Longrightarrow> class_capacity d < sz"
  using SizeClass_loop_spec [of 0 "SizeClass sz" sz]
  by (simp add: SizeClass_def class_capacity_def kClassCount_def)

subsection \<open>The pool never hands out a buffer twice\<close>

text \<open>The clients' references are a multiset of addresses. The invariant relates it to the heap: the
  buffers of the heap are those on the free lists, with no reference, and those the clients hold,
  with as many references as the clients have; the cached bytes are the capacities of the free
  buffers and stay within the budget.\<close>

definition free_bytes :: "addr list list \<Rightarrow> nat" where
  "free_bytes fl = (\<Sum>c<length fl. length (fl ! c) * class_capacity c)"

definition buffer_ok :: "pooled_buffer \<Rightarrow> bool" where
  "buffer_ok pb \<longleftrightarrow> pb_size_class pb < kClassCount \<and> pb_capacity pb = class_capacity (pb_size_class pb) \<and>
     pb_size pb \<le> pb_capacity pb"

definition pool_lists_ok :: "pool \<times> addr multiset \<Rightarrow> bool" where
  "pool_lists_ok = (\<lambda>(st, held). length (pool_free_lists st) = kClassCount \<and>
     (\<forall>c<kClassCount. distinct (pool_free_lists st ! c) \<and>
        (\<forall>b\<in>set (pool_free_lists st ! c). b \<notin># held \<and>
           (\<exists>pb. pool_heap st b = Some pb \<and> pb_size_class pb = c))))"

definition pool_heap_ok :: "pool \<times> addr multiset \<Rightarrow> bool" where
  "pool_heap_ok = (\<lambda>(st, held). (\<forall>b\<in>#held. pool_heap st b \<noteq> None) \<and>
     (\<forall>b pb. pool_heap st b = Some pb \<longrightarrow> buffer_ok pb \<and> pb_refs pb = count held b \<and>
        (b \<in># held \<or> b \<in> set (pool_free_lists st ! pb_size_class pb))))"

definition pool_counts_ok :: "pool \<times> addr multiset \<Rightarrow> bool" where
  "pool_counts_ok = (\<lambda>(st, held). pool_cached_bytes st = free_bytes (pool_free_lists st) \<and>
     pool_cached_bytes st \<le> pool_max_cached_bytes st \<and> pool_max_cached_bytes st < 9223372036854775808 \<and>
     pool_live st = u64 (card (set_mset held)))"

definition pool_inv :: "pool \<times> addr multiset \<Rightarrow> bool" where
  "pool_inv s \<longleftrightarrow> pool_lists_ok s \<and> pool_heap_ok s \<and> pool_counts_ok s"

lemmas pool_inv_defs = pool_inv_def pool_lists_ok_def pool_heap_ok_def pool_counts_ok_def

text \<open>The C library returns memory that no live buffer occupies.\<close>

definition fresh_alloc :: "(nat \<Rightarrow> nat \<Rightarrow> addr option) \<Rightarrow> pool \<Rightarrow> bool" where
  "fresh_alloc al st \<longleftrightarrow> (\<forall>a n x. al a n = Some x \<longrightarrow> pool_heap st x = None)"

inductive pool_step :: "pool \<times> addr multiset \<Rightarrow> pool \<times> addr multiset \<Rightarrow> bool" where
  alloc: "pool_Allocate al sz st = (Some b, st') \<Longrightarrow>
      fresh_alloc al st \<Longrightarrow>
      pool_step (st, held) (st', add_mset b held)"
| alloc_fail: "pool_Allocate al sz st = (None, st') \<Longrightarrow> pool_step (st, held) (st', held)"
| retain: "b \<in># held \<Longrightarrow> count held b < 2 ^ 32 - 1 \<Longrightarrow>
      pool_step (st, held) (BufferRef_Retain b st, add_mset b held)"
| reset: "b \<in># held \<Longrightarrow> count held b < 2 ^ 32 \<Longrightarrow>
      pool_step (st, held) (BufferRef_Reset b st, held - {#b#})"

lemma free_bytes_update:
  assumes "c < length fl"
  shows "free_bytes (fl[c := xs]) + length (fl ! c) * class_capacity c =
    free_bytes fl + length xs * class_capacity c"
proof -
  have "free_bytes (fl[c := ys]) =
      length ys * class_capacity c + (\<Sum>d\<in>{..<length fl} - {c}. length (fl ! d) * class_capacity d)" for ys
    using assms by (simp add: free_bytes_def sum.remove [of "{..<length fl}" c])
  from this [of xs] this [of "fl ! c"] show ?thesis by simp
qed

lemma u64_add1: "u64 (u64 n + 1) = u64 (n + 1)"
  by (simp add: u64_def mod_simps)

lemma sub64_u64: "0 < n \<Longrightarrow> sub64 (u64 n) 1 = u64 (n - 1)"
proof -
  assume "0 < n"
  have k: "x + 2 ^ 64 - 1 = x + (2 ^ 64 - 1)" for x :: nat by simp
  have "(n mod 2 ^ 64 + (2 ^ 64 - 1)) mod 2 ^ 64 = (n + (2 ^ 64 - 1)) mod (2 ^ 64 :: nat)"
    by (simp only: mod_add_left_eq)
  also have "n + (2 ^ 64 - 1) = (n - 1) + 2 ^ 64" using \<open>0 < n\<close> by simp
  finally show ?thesis by (simp only: sub64_def u64_def mod_add_self2 k)
qed

lemma pool_inv_new: "m < 2 ^ 63 \<Longrightarrow> pool_inv (HostBufferPool_new m a, {#})"
  by (simp add: pool_inv_defs HostBufferPool_new_def Let_def free_bytes_def u64_def)

lemma buffer_ok_refs [simp]: "buffer_ok (pb\<lparr>pb_refs := n\<rparr>) = buffer_ok pb"
  by (simp add: buffer_ok_def)

lemma pool_inv_held:
  assumes "pool_inv (st, held)" "b \<in># held"
  obtains pb where "pool_heap st b = Some pb" "pb_refs pb = count held b" "buffer_ok pb"
  using assms by (auto simp: pool_inv_defs)

lemma pool_inv_retain:
  assumes "pool_inv (st, held)" "b \<in># held" "count held b < 2 ^ 32 - 1"
  shows "pool_inv (BufferRef_Retain b st, add_mset b held)"
proof -
  obtain pb where pb: "pool_heap st b = Some pb" "pb_refs pb = count held b"
    using assms(1,2) by (rule pool_inv_held)
  have "pool_lists_ok (BufferRef_Retain b st, add_mset b held)"
    using assms(1,2) pb by (auto simp: pool_inv_defs BufferRef_Retain_def)
  moreover have "pool_heap_ok (BufferRef_Retain b st, add_mset b held)"
    using assms pb by (auto simp: pool_inv_defs BufferRef_Retain_def)
  moreover have "pool_counts_ok (BufferRef_Retain b st, add_mset b held)"
    using assms(1,2) by (auto simp: pool_inv_defs BufferRef_Retain_def insert_absorb)
  ultimately show ?thesis by (simp add: pool_inv_def)
qed

lemma pool_inv_reset_more:
  assumes inv: "pool_inv (st, held)" and pb: "pool_heap st b = Some pb" and n: "1 < count held b"
  shows "pool_inv (st\<lparr>pool_heap := (pool_heap st)(b \<mapsto> pb\<lparr>pb_refs := count held b - 1\<rparr>)\<rparr>, held - {#b#})"
proof -
  have in': "x \<in># held - {#b#} \<longleftrightarrow> x \<in># held" for x
    using n by (auto simp: in_diff_count simp flip: count_greater_zero_iff)
  then have sm: "set_mset (held - {#b#}) = set_mset held" by blast
  have "b \<in># held" using n by (simp flip: count_greater_zero_iff)
  then show ?thesis
    using inv pb n in' by (auto simp: pool_inv_defs sm)
qed

lemma pool_inv_recycle:
  assumes inv: "pool_inv (st, held)" and pb: "pool_heap st b = Some pb" and n: "count held b = 1"
  shows "pool_inv (pool_Recycle b (st\<lparr>pool_heap := (pool_heap st)(b \<mapsto> pb\<lparr>pb_refs := 0\<rparr>)\<rparr>), held - {#b#})"
proof -
  have in': "x \<in># held - {#b#} \<longleftrightarrow> x \<in># held \<and> x \<noteq> b" for x
    using n by (auto simp: in_diff_count simp flip: count_greater_zero_iff)
  then have sm: "set_mset (held - {#b#}) = set_mset held - {b}" by blast
  have held: "b \<in># held" using n by (simp flip: count_greater_zero_iff)
  let ?c = "pb_size_class pb" and ?fl = "pool_free_lists st"
  have bok: "buffer_ok pb" using inv pb by (auto simp: pool_inv_defs)
  then have c: "?c < kClassCount" "?c < length ?fl"
    using inv by (auto simp: pool_inv_defs buffer_ok_def)
  have notin: "b \<notin> set (?fl ! d)" if "d < kClassCount" for d
    using inv held that by (auto simp: pool_inv_defs)
  have "0 < card (set_mset held)" using held by (auto simp: card_gt_0_iff)
  note sub64_u64 [OF this]
  then have live: "sub64 (pool_live st) 1 = u64 (card (set_mset held - {b}))"
    using inv held by (simp add: pool_inv_defs card_Diff_singleton)
  let ?cap = "class_capacity ?c"
  have cap: "0 < ?cap" "?cap \<le> 2147483648" using class_capacity_bounds [OF c(1)] by auto
  have small: "pool_cached_bytes st + ?cap < 18446744073709551616"
    using inv cap by (auto simp: pool_inv_defs)
  show ?thesis
  proof (cases "\<not> pool_closed st \<and> pool_cached_bytes st + ?cap \<le> pool_max_cached_bytes st")
    case True
    let ?st = "st\<lparr>pool_heap := (pool_heap st)(b \<mapsto> pb\<lparr>pb_refs := 0\<rparr>), pool_live := sub64 (pool_live st) 1,
        pool_free_lists := ?fl[?c := ?fl ! ?c @ [b]], pool_cached_bytes := pool_cached_bytes st + ?cap\<rparr>"
    have "free_bytes (?fl[?c := ?fl ! ?c @ [b]]) = free_bytes ?fl + ?cap"
      using free_bytes_update [OF c(2), of "?fl ! ?c @ [b]"] by simp
    then have "pool_counts_ok (?st, held - {#b#})"
      using inv True live by (simp add: pool_inv_defs sm)
    moreover have "pool_lists_ok (?st, held - {#b#})"
      using inv c notin in' pb held by (auto simp: pool_inv_defs nth_list_update)
    moreover have "pool_heap_ok (?st, held - {#b#})"
      using inv c bok in' n by (auto simp: pool_inv_defs nth_list_update)
    ultimately show ?thesis
      using True pb small by (simp add: pool_Recycle_def Let_def pool_inv_def)
  next
    case False
    let ?st = "st\<lparr>pool_live := sub64 (pool_live st) 1, pool_heap := (pool_heap st)(b := None)\<rparr>"
    have "pool_counts_ok (?st, held - {#b#})"
      using inv live by (simp add: pool_inv_defs sm)
    moreover have "pool_lists_ok (?st, held - {#b#})"
      using inv notin in' held by (auto simp: pool_inv_defs)
    moreover have "pool_heap_ok (?st, held - {#b#})"
      using inv in' n by (auto simp: pool_inv_defs)
    ultimately show ?thesis
      using False pb small by (auto simp: pool_Recycle_def Let_def pool_inv_def)
  qed
qed

lemma pool_inv_reset:
  assumes inv: "pool_inv (st, held)" and b: "b \<in># held" and small: "count held b < 2 ^ 32"
  shows "pool_inv (BufferRef_Reset b st, held - {#b#})"
proof -
  obtain pb where pb: "pool_heap st b = Some pb" "pb_refs pb = count held b"
    using inv b by (rule pool_inv_held)
  have "count held b + 2 ^ 32 - 1 = (count held b - 1) + 2 ^ 32" using b by simp
  then have dec: "u32 (count held b + 2 ^ 32 - 1) = count held b - 1"
    using small by (simp only: u32_def mod_add_self2) simp
  show ?thesis
  proof (cases "count held b = 1")
    case True
    then show ?thesis using pool_inv_recycle [OF inv pb(1)] pb dec by (simp add: BufferRef_Reset_def)
  next
    case False
    then have "1 < count held b" using b by (simp flip: count_greater_zero_iff)
    then show ?thesis using pool_inv_reset_more [OF inv pb(1)] pb dec by (simp add: BufferRef_Reset_def)
  qed
qed

lemma pool_inv_alloc_hit:
  assumes inv: "pool_inv (st, held)" and free: "pool_free_lists st ! c \<noteq> []" and c: "c < kClassCount"
    and sz: "sz \<le> class_capacity c" and b: "b = last (pool_free_lists st ! c)"
  shows "b \<notin># held" and "pool_inv (st\<lparr>pool_allocations := a,
      pool_free_lists := (pool_free_lists st)[c := butlast (pool_free_lists st ! c)],
      pool_cached_bytes := sub64 (pool_cached_bytes st) (class_capacity c), pool_hits := h,
      pool_heap := (pool_heap st)(b := map_option (\<lambda>pb. pb\<lparr>pb_size := sz, pb_refs := 1\<rparr>) (pool_heap st b)),
      pool_live := u64 (pool_live st + 1)\<rparr>, add_mset b held)"
proof -
  let ?fl = "pool_free_lists st"
  have bin: "b \<in> set (?fl ! c)" using free b by simp
  then show nh: "b \<notin># held" using inv c by (auto simp: pool_inv_defs)
  obtain pb where pb: "pool_heap st b = Some pb" "pb_size_class pb = c"
    using inv bin c by (auto simp: pool_inv_defs)
  have bok: "buffer_ok pb" "pb_refs pb = 0" using inv pb nh by (auto simp: pool_inv_defs count_eq_zero_iff)
  have other: "d = c" if "b \<in> set (?fl ! d)" "d < kClassCount" for d
    using inv pb that by (fastforce simp: pool_inv_defs)
  have split: "?fl ! c = butlast (?fl ! c) @ [b]" using free b by simp
  then have setc: "set (?fl ! c) = insert b (set (butlast (?fl ! c)))"
    by (metis list.simps(15) rotate1.simps(2) set_rotate1)
  have keep: "x \<in># held \<or> x \<in> set (butlast (?fl ! c))"
    if "pool_heap st x = Some px" "pb_size_class px = c" "x \<noteq> b" for x px
  proof -
    have "x \<in># held \<or> x \<in> set (?fl ! c)" using inv that by (auto simp: pool_inv_defs)
    then show ?thesis using setc that(3) by auto
  qed
  have bok2: "buffer_ok (pb\<lparr>pb_size := sz, pb_refs := 1\<rparr>)" using bok sz pb by (simp add: buffer_ok_def)
  have "distinct (butlast (?fl ! c) @ [b])" using inv c by (simp add: pool_inv_defs flip: split)
  then have but: "distinct (butlast (?fl ! c))" "b \<notin> set (butlast (?fl ! c))" by auto
  have c': "c < length ?fl" using inv c by (simp add: pool_inv_defs)
  have "length (?fl ! c) * class_capacity c = length (butlast (?fl ! c)) * class_capacity c + class_capacity c"
    by (subst split) simp
  then have fb: "free_bytes (?fl[c := butlast (?fl ! c)]) + class_capacity c = free_bytes ?fl"
    using free_bytes_update [OF c', of "butlast (?fl ! c)"] by simp
  show "pool_inv (st\<lparr>pool_allocations := a, pool_free_lists := ?fl[c := butlast (?fl ! c)],
      pool_cached_bytes := sub64 (pool_cached_bytes st) (class_capacity c), pool_hits := h,
      pool_heap := (pool_heap st)(b := map_option (\<lambda>pb. pb\<lparr>pb_size := sz, pb_refs := 1\<rparr>) (pool_heap st b)),
      pool_live := u64 (pool_live st + 1)\<rparr>, add_mset b held)" (is "pool_inv (?st, _)")
  proof -
    have "pool_counts_ok (?st, add_mset b held)"
      using inv fb nh by (auto simp: pool_inv_defs u64_add1 [unfolded One_nat_def])
    moreover have "pool_lists_ok (?st, add_mset b held)"
      using inv c but nh pb other by (auto simp: pool_inv_defs nth_list_update dest: in_set_butlastD)
    moreover have "pool_heap_ok (?st, add_mset b held)"
      using inv c c' pb nh bok2
      by (auto simp: pool_inv_defs nth_list_update count_eq_zero_iff dest: keep)
    ultimately show ?thesis by (simp add: pool_inv_def)
  qed
qed

lemma pool_inv_alloc_new:
  assumes inv: "pool_inv (st, held)" and new: "pool_heap st b = None" and c: "c < kClassCount"
    and sz: "sz \<le> class_capacity c"
  shows "b \<notin># held" and "pool_inv (st\<lparr>pool_allocations := a,
      pool_heap := (pool_heap st)(b \<mapsto> \<lparr>pb_size = sz, pb_capacity = class_capacity c, pb_size_class = c,
        pb_refs = 1\<rparr>), pool_live := u64 (pool_live st + 1)\<rparr>, add_mset b held)"
proof -
  show nh: "b \<notin># held" using inv new by (auto simp: pool_inv_defs)
  have bok: "buffer_ok \<lparr>pb_size = sz, pb_capacity = class_capacity c, pb_size_class = c, pb_refs = 1\<rparr>"
    using c sz by (simp add: buffer_ok_def)
  have other: "b \<notin> set (pool_free_lists st ! d)" if "d < kClassCount" for d
    using inv new that by (fastforce simp: pool_inv_defs)
  show "pool_inv (st\<lparr>pool_allocations := a,
      pool_heap := (pool_heap st)(b \<mapsto> \<lparr>pb_size = sz, pb_capacity = class_capacity c, pb_size_class = c,
        pb_refs = 1\<rparr>), pool_live := u64 (pool_live st + 1)\<rparr>, add_mset b held)" (is "pool_inv (?st, _)")
  proof -
    have "pool_counts_ok (?st, add_mset b held)"
      using inv nh by (auto simp: pool_inv_defs u64_add1 [unfolded One_nat_def])
    moreover have "pool_lists_ok (?st, add_mset b held)"
      using inv other by (auto simp: pool_inv_defs)
    moreover have "pool_heap_ok (?st, add_mset b held)"
      using inv nh bok by (auto simp: pool_inv_defs count_eq_zero_iff)
    ultimately show ?thesis by (simp add: pool_inv_def)
  qed
qed

lemma pool_Allocate_inv:
  assumes inv: "pool_inv (st, held)" and new: "fresh_alloc al st"
    and res: "pool_Allocate al sz st = (Some b, st')"
  shows "b \<notin># held" and "pool_inv (st', add_mset b held)"
    and "\<exists>pb. pool_heap st' b = Some pb \<and> pb_size pb = sz \<and> sz \<le> pb_capacity pb \<and> pb_refs pb = 1"
proof -
  let ?c = "SizeClass sz"
  have fits: "sz \<le> class_capacity ?c" using res by (auto simp: pool_Allocate_def Let_def split: if_splits)
  have "b \<notin># held \<and> pool_inv (st', add_mset b held)"
  proof (cases "pool_free_lists st ! ?c = []")
    case True
    then obtain x where x: "al (pool_alignment st) ((class_capacity ?c + pool_alignment st - 1) div
        pool_alignment st * pool_alignment st) = Some x"
      using res fits by (auto simp: pool_Allocate_def Let_def split: option.splits)
    then have "pool_heap st x = None" using new by (auto simp: fresh_alloc_def)
    then show ?thesis
      using pool_inv_alloc_new [OF inv _ SizeClass_bound fits, of x] x True res fits
      by (auto simp: pool_Allocate_def Let_def)
  next
    case False
    then show ?thesis
      using pool_inv_alloc_hit [OF inv False SizeClass_bound fits refl] res fits
      by (auto simp: pool_Allocate_def Let_def)
  qed
  then show "b \<notin># held" "pool_inv (st', add_mset b held)" by auto
  then obtain pb where "pool_heap st' b = Some pb" "pb_refs pb = count (add_mset b held) b" "buffer_ok pb"
    using pool_inv_held [of st' "add_mset b held" b] by auto
  moreover have "pb_size pb = sz"
    using res fits calculation(1)
    by (auto simp: pool_Allocate_def Let_def split: if_splits option.splits)
  ultimately show "\<exists>pb. pool_heap st' b = Some pb \<and> pb_size pb = sz \<and> sz \<le> pb_capacity pb \<and> pb_refs pb = 1"
    using \<open>b \<notin># held\<close> by (auto simp: buffer_ok_def count_eq_zero_iff)
qed

lemma pool_inv_allocations [simp]: "pool_inv (st\<lparr>pool_allocations := n\<rparr>, held) = pool_inv (st, held)"
  by (simp add: pool_inv_defs)

lemma pool_Allocate_fail: "pool_Allocate al sz st = (None, st') \<Longrightarrow> pool_inv (st, held) \<Longrightarrow> pool_inv (st', held)"
  by (auto simp: pool_Allocate_def Let_def split: if_splits option.splits)

lemma pool_step_inv: "pool_step s s' \<Longrightarrow> pool_inv s \<Longrightarrow> pool_inv s'"
  by (induction rule: pool_step.induct)
    (auto intro: pool_Allocate_inv(2) pool_Allocate_fail pool_inv_retain pool_inv_reset)

definition pool_init :: "pool \<times> addr multiset \<Rightarrow> bool" where
  "pool_init s \<longleftrightarrow> (\<exists>m a. m < 2 ^ 63 \<and> s = (HostBufferPool_new m a, {#}))"

interpretation pool_sys: invariant_system pool_init pool_step pool_inv
  by unfold_locales (auto simp: pool_init_def intro: pool_inv_new pool_step_inv)

text \<open>C10. Whatever the clients do with their references (allocations, copies, releases in any order, up
  to \<open>2^32 - 1\<close> references to one buffer), a buffer returned by \<open>Allocate\<close> is not held by anyone
  else, has room for the request, and starts with one reference.\<close>

theorem pool_Allocate_exclusive:
  assumes "reachable pool_init pool_step (st, held)"
    and "fresh_alloc al st"
    and "pool_Allocate al sz st = (Some b, st')"
  shows "b \<notin># held \<and>
    (\<exists>pb. pool_heap st' b = Some pb \<and> pb_size pb = sz \<and> sz \<le> pb_capacity pb \<and> pb_refs pb = 1)"
  using pool_Allocate_inv [OF pool_sys.reachable_inv [OF assms(1)] assms(2,3)] by blast

theorem pool_Allocate_exclusive_witness:
  "fst (pool_Allocate (\<lambda>_ _. Some 7) 300 (HostBufferPool_new 1024 64)) = Some 7 \<and>
   (\<exists>pb. pool_heap (snd (pool_Allocate (\<lambda>_ _. Some 7) 300 (HostBufferPool_new 1024 64))) 7 = Some pb \<and>
     pb_size pb = 300 \<and> 300 \<le> pb_capacity pb \<and> pb_refs pb = 1)"
proof -
  let ?st = "HostBufferPool_new 1024 64" and ?al = "\<lambda>_ _. Some 7"
  have r: "reachable pool_init pool_step (?st, {#})"
    unfolding pool_init_def by (intro reach_init exI [of _ 1024] exI [of _ 64]) simp
  have f: "fst (pool_Allocate ?al 300 ?st) = Some 7"
    by (simp add: pool_Allocate_def HostBufferPool_new_def SizeClass_def SizeClass_loop.simps
        class_capacity_def kMinClass_def kClassCount_def Let_def)
  have h: "fresh_alloc ?al ?st" by (simp add: fresh_alloc_def HostBufferPool_new_def Let_def)
  show ?thesis
    using pool_Allocate_exclusive [OF r, of ?al 300 7 "snd (pool_Allocate ?al 300 ?st)"] h f
    by (metis prod.collapse)
qed

subsection \<open>Interned type tags\<close>

definition tags_wf :: "type_tags \<Rightarrow> bool" where
  "tags_wf names \<longleftrightarrow> names \<noteq> [] \<and> hd names = [] \<and> distinct names \<and> length names < 2 ^ 32 \<and>
     take builtin_count names = TypeTagRegistry_new"

lemma tags_wf_new: "tags_wf TypeTagRegistry_new"
  by (simp add: tags_wf_def TypeTagRegistry_new_def builtin_count_def)

lemma find_Some_first: "find P xs = Some x \<Longrightarrow> x \<in> set xs \<and> P x"
  by (induction xs) (auto split: if_splits)

lemma tag_index_Some:
  "tag_index names tag = Some i \<Longrightarrow> 0 < i \<and> i < length names \<and> names ! i = tag"
  unfolding tag_index_def by (drule find_Some_first) auto

lemma tag_index_None: "tag_index names tag = None \<longleftrightarrow> (\<forall>i. 0 < i \<longrightarrow> i < length names \<longrightarrow> names ! i \<noteq> tag)"
  by (auto simp: tag_index_def find_None_iff Suc_le_eq)

lemma tag_index_nth:
  assumes "tags_wf names" "0 < i" "i < length names"
  shows "tag_index names (names ! i) = Some i"
proof -
  obtain j where j: "tag_index names (names ! i) = Some j"
    using assms by (metis option.exhaust tag_index_None)
  then have "j = i" using tag_index_Some [OF j] assms
    by (auto simp: tags_wf_def nth_eq_iff_index_eq)
  then show ?thesis using j by simp
qed

lemma Intern_wf:
  assumes "tags_wf names" "length names + 1 < 2 ^ 32" "TypeTag_Intern tag names = (i, names')"
  shows "tags_wf names'"
proof (cases "tag = [] \<or> tag_index names tag \<noteq> None")
  case True
  then show ?thesis using assms by (auto simp: TypeTag_Intern_def split: if_splits)
next
  case False
  then have "tag \<notin> set names"
    using assms(1) by (auto simp: tag_index_None in_set_conv_nth tags_wf_def hd_conv_nth)
  moreover have "length (take builtin_count names) = builtin_count"
    using assms(1) by (simp add: tags_wf_def builtin_count_def)
  then have "builtin_count \<le> length names" by simp
  moreover have "names' = names @ [tag]" using False assms(3) by (simp add: TypeTag_Intern_def)
  ultimately show ?thesis using assms(1,2) by (simp add: tags_wf_def)
qed

text \<open>C35. Interning a non-empty tag returns a valid id that names the tag, a second interning returns the
  same id and changes nothing, \<open>Find\<close> agrees, and every id given out before still names its tag.\<close>

theorem Intern_spec:
  assumes "tags_wf names" "length names + 1 < 2 ^ 32" "tag \<noteq> []" "TypeTag_Intern tag names = (i, names')"
  shows "TypeTag_Name i names' = tag \<and> i \<noteq> kInvalidTypeTag \<and> TypeTag_Intern tag names' = (i, names') \<and>
     TypeTag_Find tag names' = i \<and> (\<forall>j < length names. TypeTag_Name j names' = TypeTag_Name j names)"
proof -
  have wf: "tags_wf names'" using assms(1,2,4) by (rule Intern_wf)
  have small: "length names' < 2 ^ 32" using wf by (simp add: tags_wf_def)
  have i: "0 < i" "i < length names'" "names' ! i = tag"
    using assms tag_index_Some [of names tag]
    by (auto simp: TypeTag_Intern_def tags_wf_def split: option.splits)
  then have idx: "tag_index names' tag = Some i" using tag_index_nth [OF wf] by metis
  have keep: "\<forall>j < length names. TypeTag_Name j names' = TypeTag_Name j names"
    using assms(4) by (auto simp: TypeTag_Intern_def TypeTag_Name_def nth_append split: if_splits option.splits)
  show ?thesis
    using i idx keep small assms(3)
    by (simp add: TypeTag_Name_def TypeTag_Intern_def TypeTag_Find_def kInvalidTypeTag_def)
qed

theorem Intern_spec_witness:
  "TypeTag_Intern ''Mask'' TypeTagRegistry_new = (8, TypeTagRegistry_new @ [''Mask'']) \<and>
   TypeTag_Name 8 (TypeTagRegistry_new @ [''Mask'']) = ''Mask'' \<and>
   TypeTag_Find ''Mask'' (TypeTagRegistry_new @ [''Mask'']) = 8"
proof -
  have "TypeTag_Intern ''Mask'' TypeTagRegistry_new = (8, TypeTagRegistry_new @ [''Mask''])"
    by (simp add: TypeTag_Intern_def tag_index_def TypeTagRegistry_new_def upt_rec)
  with Intern_spec [OF tags_wf_new _ _ this] show ?thesis by (simp add: TypeTagRegistry_new_def)
qed

subsection \<open>Metadata is an ordered map\<close>

lemma lower_bound_Cons: "lower_bound (e # es) k = (if fst e < k then Suc (lower_bound es k) else 0)"
  by (simp add: lower_bound_def)

lemma Metadata_Set_eq: "om_wf es \<Longrightarrow> Metadata_Set k v es = om_put k v es"
proof (induction es)
  case (Cons e es)
  then show ?case
    by (cases e) (auto simp: Metadata_Set_def Let_def lower_bound_Cons om_wf_Cons)
qed (simp add: Metadata_Set_def lower_bound_def)

lemma Metadata_Get_eq: "om_wf es \<Longrightarrow> Metadata_Get k es = map_of es k"
proof (induction es)
  case (Cons e es)
  obtain a b where e: "e = (a, b)" by force
  have "map_of es k = None" if "\<not> a < k"
    using Cons.prems that by (auto simp: e om_wf_Cons map_of_eq_None_iff)
  then show ?case
    using Cons by (auto simp: e Metadata_Get_def Let_def lower_bound_Cons om_wf_Cons)
qed (simp add: Metadata_Get_def lower_bound_def)

lemma Metadata_ToJson_eq:
  "om_wf es \<Longrightarrow> Metadata_ToJson fp es = Serialize fp (JObj (map (\<lambda>(k, v). (k, JStr v)) es))"
  unfolding Metadata_ToJson_def by (subst fold_om_put_sorted [where g = JStr]) (auto simp: om_emplace_def)

text \<open>C36. \<open>Metadata\<close> is a map ordered by key: \<open>Set\<close> and \<open>Get\<close> through \<open>std::lower_bound\<close> are
  insertion and lookup, and reading back the JSON text of a metadata object gives the object.\<close>

theorem Metadata_ordered_map:
  assumes "om_wf es"
  shows "om_wf (Metadata_Set k v es) \<and>
    Metadata_Get k' (Metadata_Set k v es) = (if k' = k then Some v else Metadata_Get k' es) \<and>
    Metadata_FromJson fp (Metadata_ToJson fp es) = Inr es"
proof -
  let ?o = "map (\<lambda>(k, v). (k, JStr v)) es"
  have "json_ok kMaxDepth (JObj ?o)"
    using assms by (simp add: kMaxDepth_def eval_nat_numeral om_wf_def comp_def case_prod_beta list_all_iff)
  then have p: "ParseJson fp (Serialize fp (JObj ?o)) = Inr (JObj ?o)" by (rule ParseJson_Serialize)
  have "fold (\<lambda>(k, x). Metadata_Set k (case x of JStr s \<Rightarrow> s | _ \<Rightarrow> Serialize fp x)) ?o [] =
      map (\<lambda>(k, x). (k, case x of JStr s \<Rightarrow> s | _ \<Rightarrow> Serialize fp x)) ?o"
    using assms by (intro fold_om_put_sorted) (auto simp: Metadata_Set_eq om_wf_def comp_def case_prod_beta)
  moreover have "map (\<lambda>(k, x). (k, case x of JStr s \<Rightarrow> s | _ \<Rightarrow> Serialize fp x)) ?o = es"
    by (induction es) auto
  ultimately have "Metadata_FromJson fp (Metadata_ToJson fp es) = Inr es"
    using assms p by (simp add: Metadata_FromJson_def Metadata_ToJson_eq del: fold_map Serialize.simps)
      (simp)
  then show ?thesis using assms by (simp add: Metadata_Set_eq Metadata_Get_eq)
qed

theorem Metadata_ordered_map_witness:
  "Metadata_Get ''a'' (Metadata_Set ''b'' ''1'' [(''a'', ''x'')]) = Some ''x'' \<and>
   Metadata_FromJson no_fp (Metadata_ToJson no_fp [(''a'', ''x'')]) = Inr [(''a'', ''x'')]"
proof -
  have wf: "om_wf [(''a'', ''x'')]" by (simp add: om_wf_def)
  have "Metadata_Get ''a'' [(''a'', ''x'')] = Some ''x''" by code_simp
  with Metadata_ordered_map [OF wf, of "''b''" "''1''" "''a''" no_fp] show ?thesis by simp
qed

end
