(* ===== verification/Graph_Spec.thy ===== *)
theory Graph_Spec
  imports Ge_Types
begin

section \<open>Graph specifications, mutation patches and their builders\<close>

text \<open>
  Models \<open>include/ge/cpp/graph_spec.h\<close> and \<open>src/graph_spec.cpp\<close>: the intermediate representation of a
  graph (nodes, edges, options), the operations of \<open>GraphSpec\<close> with every guard and error text, the
  data of a mutation patch, and the two fluent builders. An operation that returns \<open>Status\<close> and
  changes the object is a function to \<open>graph_spec result\<close>: on an error the object is unchanged.
\<close>

subsection \<open>Enumerations and their text\<close>

datatype ExecutorKind = Executor_Auto | Executor_Cpu | Executor_Gpu
datatype DropPolicy = kBlock | kDropOldest | kDropNewest
datatype SyncPolicy = kAligned | kLatest | kAny
datatype RemovePolicy = kDrain | kFast
datatype RemoveMode = kDisconnect | kBypass

fun ExecutorKind_ToString :: "ExecutorKind \<Rightarrow> string" where
  "ExecutorKind_ToString Executor_Auto = ''auto''"
| "ExecutorKind_ToString Executor_Cpu = ''cpu''"
| "ExecutorKind_ToString Executor_Gpu = ''gpu''"

fun DropPolicy_ToString :: "DropPolicy \<Rightarrow> string" where
  "DropPolicy_ToString kBlock = ''block''"
| "DropPolicy_ToString kDropOldest = ''drop_oldest''"
| "DropPolicy_ToString kDropNewest = ''drop_newest''"

fun SyncPolicy_ToString :: "SyncPolicy \<Rightarrow> string" where
  "SyncPolicy_ToString kAligned = ''aligned''"
| "SyncPolicy_ToString kLatest = ''latest''"
| "SyncPolicy_ToString kAny = ''any''"

definition RemovePolicy_ToString :: "RemovePolicy \<Rightarrow> string" where
  "RemovePolicy_ToString p = (if p = kFast then ''fast'' else ''drain'')"

definition RemoveMode_ToString :: "RemoveMode \<Rightarrow> string" where
  "RemoveMode_ToString m = (if m = kBypass then ''bypass'' else ''disconnect'')"

definition ParseExecutorKind :: "string \<Rightarrow> ExecutorKind option" where
  "ParseExecutorKind s =
     (if s = ''auto'' then Some Executor_Auto
      else if s = ''cpu'' then Some Executor_Cpu
      else if s = ''gpu'' then Some Executor_Gpu
      else None)"

definition ParseDropPolicy :: "string \<Rightarrow> DropPolicy option" where
  "ParseDropPolicy s =
     (if s = ''block'' then Some kBlock
      else if s = ''drop_oldest'' then Some kDropOldest
      else if s = ''drop_newest'' then Some kDropNewest
      else None)"

definition ParseSyncPolicy :: "string \<Rightarrow> SyncPolicy option" where
  "ParseSyncPolicy s =
     (if s = ''aligned'' then Some kAligned
      else if s = ''latest'' then Some kLatest
      else if s = ''any'' then Some kAny
      else None)"

definition ParseRemovePolicy :: "string \<Rightarrow> RemovePolicy option" where
  "ParseRemovePolicy s = (if s = ''drain'' then Some kDrain else if s = ''fast'' then Some kFast else None)"

definition ParseRemoveMode :: "string \<Rightarrow> RemoveMode option" where
  "ParseRemoveMode s =
     (if s = ''disconnect'' then Some kDisconnect else if s = ''bypass'' then Some kBypass else None)"

subsection \<open>Stable ids and port references\<close>

definition is_alpha :: "char \<Rightarrow> bool" where
  "is_alpha c \<longleftrightarrow> CHR ''A'' \<le> c \<and> c \<le> CHR ''Z'' \<or> CHR ''a'' \<le> c \<and> c \<le> CHR ''z''"

definition IsValidStableId :: "string \<Rightarrow> bool" where
  "IsValidStableId s \<longleftrightarrow>
     s \<noteq> [] \<and> length s \<le> 128 \<and> is_alpha (hd s) \<and>
     list_all (\<lambda>c. is_alpha c \<or> is_digit c \<or> c = CHR ''_'' \<or> c = CHR ''.'' \<or> c = CHR ''-'') (tl s)"

record port_ref =
  pr_node_id :: string
  pr_port :: string

definition PortRef_ToString :: "port_ref \<Rightarrow> string" where
  "PortRef_ToString r = pr_node_id r @ ''.'' @ pr_port r"

definition PortRef_Parse :: "string \<Rightarrow> port_ref option" where
  "PortRef_Parse t =
     (case str_find CHR ''.'' t of
        None \<Rightarrow> None
      | Some dot \<Rightarrow>
          if dot = 0 \<or> dot + 1 \<ge> length t then None
          else
            let r = \<lparr>pr_node_id = take dot t, pr_port = drop (dot + 1) t\<rparr> in
            if \<not> IsValidStableId (pr_node_id r) \<or> pr_port r = [] then None else Some r)"

subsection \<open>Nodes, edges and the graph\<close>

record executor_spec =
  ex_kind :: ExecutorKind
  ex_device_id :: "int option"

record node_spec =
  ns_id :: string
  ns_op :: operator_key
  ns_executor :: executor_spec
  ns_parallelism :: nat
  ns_options :: json
  ns_labels :: "(string \<times> string) list"

record queue_spec =
  qs_capacity :: nat
  qs_policy :: DropPolicy
  qs_max_packet_bytes :: "nat option"

record edge_spec =
  es_id :: string
  es_from :: port_ref
  es_to :: port_ref
  es_queue :: queue_spec
  es_sync :: "SyncPolicy option"
  es_feedback :: bool

record graph_options =
  go_default_device_id :: "int option"
  go_allow_default_operator_version :: bool
  go_extra :: json

record graph_spec =
  gs_name :: string
  gs_description :: string
  gs_options :: graph_options
  gs_allow_unknown_fields :: bool
  gs_nodes :: "node_spec list"
  gs_edges :: "edge_spec list"

definition GraphSpec_new :: "string \<Rightarrow> graph_spec" where
  "GraphSpec_new n = \<lparr>gs_name = n, gs_description = [],
     gs_options = \<lparr>go_default_device_id = None, go_allow_default_operator_version = False,
                   go_extra = JObj []\<rparr>,
     gs_allow_unknown_fields = False, gs_nodes = [], gs_edges = []\<rparr>"

fun find_node :: "string \<Rightarrow> node_spec list \<Rightarrow> node_spec option" where
  "find_node i [] = None"
| "find_node i (n # ns) = (if ns_id n = i then Some n else find_node i ns)"

fun find_edge :: "string \<Rightarrow> edge_spec list \<Rightarrow> edge_spec option" where
  "find_edge i [] = None"
| "find_edge i (e # es) = (if es_id e = i then Some e else find_edge i es)"

definition FindNode :: "graph_spec \<Rightarrow> string \<Rightarrow> node_spec option" where
  "FindNode g i = find_node i (gs_nodes g)"

definition FindEdge :: "graph_spec \<Rightarrow> string \<Rightarrow> edge_spec option" where
  "FindEdge g i = find_edge i (gs_edges g)"

definition DeriveEdgeId :: "port_ref \<Rightarrow> port_ref \<Rightarrow> string" where
  "DeriveEdgeId f t = pr_node_id f @ ''.'' @ pr_port f @ ''->'' @ pr_node_id t @ ''.'' @ pr_port t"

definition AddNode :: "node_spec \<Rightarrow> graph_spec \<Rightarrow> graph_spec result" where
  "AddNode n g =
     (if \<not> IsValidStableId (ns_id n) then
        Inl (Status_GraphInvalid (''invalid node id '' @ quoted (ns_id n)) None)
      else if FindNode g (ns_id n) \<noteq> None then
        Inl (Status_AlreadyExists (''duplicate node id '' @ quoted (ns_id n)))
      else if ok_type_name (ns_op n) = [] then
        Inl (Status_GraphInvalid (''node '' @ quoted (ns_id n) @ '' has empty operator'') None)
      else if ns_parallelism n = 0 then
        Inl (Status_GraphInvalid (''node '' @ quoted (ns_id n) @ '' parallelism must be >= 1'') None)
      else if ex_kind (ns_executor n) \<noteq> Executor_Gpu \<and> ex_device_id (ns_executor n) \<noteq> None then
        Inl (Status_GraphInvalid
          (''node '' @ quoted (ns_id n) @ '' device_id only allowed for gpu executor'') None)
      else Inr (g\<lparr>gs_nodes := gs_nodes g @ [n]\<rparr>))"

definition AddEdge :: "edge_spec \<Rightarrow> graph_spec \<Rightarrow> graph_spec result" where
  "AddEdge e0 g =
     (let e = (if es_id e0 = [] then e0\<lparr>es_id := DeriveEdgeId (es_from e0) (es_to e0)\<rparr> else e0);
          q = quoted (es_id e) in
      if \<not> IsValidStableId (es_id e) \<and> es_id e \<noteq> DeriveEdgeId (es_from e) (es_to e) then
        Inl (Status_GraphInvalid (''invalid edge id '' @ q) None)
      else if FindEdge g (es_id e) \<noteq> None then
        Inl (Status_AlreadyExists (''duplicate edge id '' @ q))
      else if FindNode g (pr_node_id (es_from e)) = None then
        Inl (Status_GraphInvalid
          (''edge '' @ q @ '' from unknown node '' @ quoted (pr_node_id (es_from e))) None)
      else if FindNode g (pr_node_id (es_to e)) = None then
        Inl (Status_GraphInvalid
          (''edge '' @ q @ '' to unknown node '' @ quoted (pr_node_id (es_to e))) None)
      else if pr_port (es_from e) = [] \<or> pr_port (es_to e) = [] then
        Inl (Status_GraphInvalid (''edge '' @ q @ '' has empty port'') None)
      else if qs_capacity (es_queue e) = 0 then
        Inl (Status_GraphInvalid (''edge '' @ q @ '' capacity must be >= 1'') None)
      else if qs_max_packet_bytes (es_queue e) = Some 0 then
        Inl (Status_GraphInvalid (''edge '' @ q @ '' max_packet_bytes must be > 0'') None)
      else if list_ex (\<lambda>x. es_from x = es_from e \<and> es_to x = es_to e) (gs_edges g) then
        Inl (Status_AlreadyExists (''edge '' @ PortRef_ToString (es_from e) @ ''->'' @
          PortRef_ToString (es_to e) @ '' already exists''))
      else Inr (g\<lparr>gs_edges := gs_edges g @ [e]\<rparr>))"

definition RemoveNode :: "string \<Rightarrow> graph_spec \<Rightarrow> graph_spec result" where
  "RemoveNode i g =
     (if FindNode g i = None then Inl (Status_NotFound (''node '' @ quoted i @ '' not found''))
      else Inr (g\<lparr>gs_nodes := remove_first (\<lambda>n. ns_id n = i) (gs_nodes g),
                  gs_edges := filter (\<lambda>e. \<not> (pr_node_id (es_from e) = i \<or> pr_node_id (es_to e) = i))
                                (gs_edges g)\<rparr>))"

definition RemoveEdge :: "string \<Rightarrow> graph_spec \<Rightarrow> graph_spec result" where
  "RemoveEdge i g =
     (if FindEdge g i = None then Inl (Status_NotFound (''edge '' @ quoted i @ '' not found''))
      else Inr (g\<lparr>gs_edges := remove_first (\<lambda>e. es_id e = i) (gs_edges g)\<rparr>))"

definition EdgesFrom :: "graph_spec \<Rightarrow> string \<Rightarrow> edge_spec list" where
  "EdgesFrom g n = filter (\<lambda>e. pr_node_id (es_from e) = n) (gs_edges g)"

definition EdgesTo :: "graph_spec \<Rightarrow> string \<Rightarrow> edge_spec list" where
  "EdgesTo g n = filter (\<lambda>e. pr_node_id (es_to e) = n) (gs_edges g)"

definition EdgesFromPort :: "graph_spec \<Rightarrow> port_ref \<Rightarrow> edge_spec list" where
  "EdgesFromPort g p = filter (\<lambda>e. es_from e = p) (gs_edges g)"

definition EdgesToPort :: "graph_spec \<Rightarrow> port_ref \<Rightarrow> edge_spec list" where
  "EdgesToPort g p = filter (\<lambda>e. es_to e = p) (gs_edges g)"

subsection \<open>Mutation actions\<close>

record chain_ports =
  cp_chain_input :: "string option"
  cp_chain_output :: "string option"

record port_mapping =
  pm_inputs :: "(string \<times> string) list"
  pm_outputs :: "(string \<times> string) list"

datatype MutationAction =
    AddNodeAction node_spec
  | RemoveNodeAction string RemoveMode "RemovePolicy option"
  | InsertChainAction string "node_spec list" chain_ports
  | RemoveChainAction "string list" RemoveMode "RemovePolicy option"
  | ReplaceNodeAction string operator_key json "port_mapping option" "RemovePolicy option"
  | RemoveBranchAction string "string list" "RemovePolicy option" "string list"
  | AddEdgeAction edge_spec
  | RemoveEdgeAction string
  | SetNodeOptionsAction string json

fun ActionTypeName :: "MutationAction \<Rightarrow> string" where
  "ActionTypeName (AddNodeAction _) = ''add_node''"
| "ActionTypeName (RemoveNodeAction _ _ _) = ''remove_node''"
| "ActionTypeName (InsertChainAction _ _ _) = ''insert_chain''"
| "ActionTypeName (RemoveChainAction _ _ _) = ''remove_chain''"
| "ActionTypeName (ReplaceNodeAction _ _ _ _ _) = ''replace_node''"
| "ActionTypeName (RemoveBranchAction _ _ _ _) = ''remove_branch''"
| "ActionTypeName (AddEdgeAction _) = ''add_edge''"
| "ActionTypeName (RemoveEdgeAction _) = ''remove_edge''"
| "ActionTypeName (SetNodeOptionsAction _ _) = ''set_node_options''"

text \<open>\<open>RemoveBranchAction::EntryEdges\<close>: the list of entry edges wins over the single one.\<close>

definition EntryEdges :: "string \<Rightarrow> string list \<Rightarrow> string list" where
  "EntryEdges entry_edge entry_edges = (if entry_edges = [] then [entry_edge] else entry_edges)"

record mutation_patch =
  mp_base_topology_version :: "nat option"
  mp_remove_policy :: RemovePolicy
  mp_actions :: "MutationAction list"
  mp_allow_unknown_fields :: bool

definition MutationPatch_new :: mutation_patch where
  "MutationPatch_new = \<lparr>mp_base_topology_version = None, mp_remove_policy = kDrain, mp_actions = [],
     mp_allow_unknown_fields = False\<rparr>"

subsection \<open>The graph builder\<close>

record edge_options =
  eo_id :: "string option"
  eo_queue :: queue_spec
  eo_sync :: "SyncPolicy option"
  eo_feedback :: bool

record graph_builder =
  gb_spec :: graph_spec
  gb_errors :: "status list"

definition GraphBuilder_new :: "string \<Rightarrow> graph_builder" where
  "GraphBuilder_new n = \<lparr>gb_spec = GraphSpec_new n, gb_errors = []\<rparr>"

definition edge_of_options :: "port_ref \<Rightarrow> port_ref \<Rightarrow> edge_options \<Rightarrow> edge_spec" where
  "edge_of_options f t o' = \<lparr>es_id = (case eo_id o' of Some i \<Rightarrow> i | None \<Rightarrow> []), es_from = f, es_to = t,
     es_queue = eo_queue o', es_sync = eo_sync o', es_feedback = eo_feedback o'\<rparr>"

definition GraphBuilder_AddNode :: "node_spec \<Rightarrow> graph_builder \<Rightarrow> string \<times> graph_builder" where
  "GraphBuilder_AddNode n b =
     (ns_id n,
      case AddNode n (gb_spec b) of
        Inl s \<Rightarrow> b\<lparr>gb_errors := gb_errors b @ [s]\<rparr>
      | Inr g \<Rightarrow> b\<lparr>gb_spec := g\<rparr>)"

definition GraphBuilder_AddNode_key ::
  "operator_key \<Rightarrow> string \<Rightarrow> json \<Rightarrow> graph_builder \<Rightarrow> string \<times> graph_builder" where
  "GraphBuilder_AddNode_key key i opts b =
     GraphBuilder_AddNode \<lparr>ns_id = i, ns_op = key,
       ns_executor = \<lparr>ex_kind = Executor_Auto, ex_device_id = None\<rparr>, ns_parallelism = 1,
       ns_options = opts, ns_labels = []\<rparr> b"

definition GraphBuilder_Connect ::
  "port_ref \<Rightarrow> port_ref \<Rightarrow> edge_options \<Rightarrow> graph_builder \<Rightarrow> graph_builder" where
  "GraphBuilder_Connect f t o' b =
     (case AddEdge (edge_of_options f t o') (gb_spec b) of
        Inl s \<Rightarrow> b\<lparr>gb_errors := gb_errors b @ [s]\<rparr>
      | Inr g \<Rightarrow> b\<lparr>gb_spec := g\<rparr>)"

definition GraphBuilder_SetDescription :: "string \<Rightarrow> graph_builder \<Rightarrow> graph_builder" where
  "GraphBuilder_SetDescription d b = b\<lparr>gb_spec := (gb_spec b)\<lparr>gs_description := d\<rparr>\<rparr>"

definition GraphBuilder_SetOptions :: "graph_options \<Rightarrow> graph_builder \<Rightarrow> graph_builder" where
  "GraphBuilder_SetOptions o' b = b\<lparr>gb_spec := (gb_spec b)\<lparr>gs_options := o'\<rparr>\<rparr>"

definition GraphBuilder_Build :: "graph_builder \<Rightarrow> graph_spec result" where
  "GraphBuilder_Build b =
     (if gb_errors b \<noteq> [] then Result_of_status (hd (gb_errors b))
      else if gs_nodes (gb_spec b) = [] then
        Inl (Status_GraphInvalid (''graph '' @ quoted (gs_name (gb_spec b)) @ '' has no nodes'') None)
      else Inr (gb_spec b))"

subsection \<open>The mutation builder\<close>

definition push_action :: "MutationAction \<Rightarrow> mutation_patch \<Rightarrow> mutation_patch" where
  "push_action a p = p\<lparr>mp_actions := mp_actions p @ [a]\<rparr>"

definition Mutation_SetBaseVersion :: "nat \<Rightarrow> mutation_patch \<Rightarrow> mutation_patch" where
  "Mutation_SetBaseVersion v p = p\<lparr>mp_base_topology_version := Some v\<rparr>"

definition Mutation_SetRemovePolicy :: "RemovePolicy \<Rightarrow> mutation_patch \<Rightarrow> mutation_patch" where
  "Mutation_SetRemovePolicy r p = p\<lparr>mp_remove_policy := r\<rparr>"

definition Mutation_AddNode :: "node_spec \<Rightarrow> mutation_patch \<Rightarrow> mutation_patch" where
  "Mutation_AddNode n = push_action (AddNodeAction n)"

definition Mutation_InsertChain ::
  "string \<Rightarrow> node_spec list \<Rightarrow> chain_ports \<Rightarrow> mutation_patch \<Rightarrow> mutation_patch" where
  "Mutation_InsertChain e ns ps = push_action (InsertChainAction e ns ps)"

definition Mutation_RemoveNode :: "string \<Rightarrow> RemovePolicy option \<Rightarrow> mutation_patch \<Rightarrow> mutation_patch" where
  "Mutation_RemoveNode n r = push_action (RemoveNodeAction n kDisconnect r)"

definition Mutation_RemoveChain ::
  "string list \<Rightarrow> bool \<Rightarrow> RemovePolicy option \<Rightarrow> mutation_patch \<Rightarrow> mutation_patch" where
  "Mutation_RemoveChain ns bypass r =
     push_action (RemoveChainAction ns (if bypass then kBypass else kDisconnect) r)"

definition Mutation_ReplaceNode ::
  "string \<Rightarrow> operator_key \<Rightarrow> json \<Rightarrow> port_mapping option \<Rightarrow> RemovePolicy option \<Rightarrow>
   mutation_patch \<Rightarrow> mutation_patch" where
  "Mutation_ReplaceNode n k opts m r = push_action (ReplaceNodeAction n k opts m r)"

definition Mutation_RemoveBranch ::
  "string \<Rightarrow> string list \<Rightarrow> RemovePolicy option \<Rightarrow> mutation_patch \<Rightarrow> mutation_patch" where
  "Mutation_RemoveBranch entry ns r = push_action (RemoveBranchAction entry ns r [])"

definition Mutation_RemoveBranches ::
  "string list \<Rightarrow> string list \<Rightarrow> RemovePolicy option \<Rightarrow> mutation_patch \<Rightarrow> mutation_patch" where
  "Mutation_RemoveBranches entries ns r =
     push_action (RemoveBranchAction (if entries = [] then [] else hd entries) ns r entries)"

definition Mutation_AddEdge :: "port_ref \<Rightarrow> port_ref \<Rightarrow> edge_options \<Rightarrow> mutation_patch \<Rightarrow> mutation_patch" where
  "Mutation_AddEdge f t o' = push_action (AddEdgeAction (edge_of_options f t o'))"

definition Mutation_RemoveEdge :: "string \<Rightarrow> mutation_patch \<Rightarrow> mutation_patch" where
  "Mutation_RemoveEdge e = push_action (RemoveEdgeAction e)"

definition Mutation_SetNodeOptions :: "string \<Rightarrow> json \<Rightarrow> mutation_patch \<Rightarrow> mutation_patch" where
  "Mutation_SetNodeOptions n ps = push_action (SetNodeOptionsAction n ps)"

subsection \<open>Well-formed graphs\<close>

interpretation nt: id_table ns_id find_node
proof unfold_locales
  show "find_node k xs = find (\<lambda>x. ns_id x = k) xs" for k xs by (induction xs) auto
qed

interpretation et: id_table es_id find_edge
proof unfold_locales
  show "find_edge k xs = find (\<lambda>x. es_id x = k) xs" for k xs by (induction xs) auto
qed

definition node_ids :: "graph_spec \<Rightarrow> string set" where
  "node_ids g = ns_id ` set (gs_nodes g)"

definition edge_ids :: "graph_spec \<Rightarrow> string set" where
  "edge_ids g = es_id ` set (gs_edges g)"

definition node_ok :: "node_spec \<Rightarrow> bool" where
  "node_ok n \<longleftrightarrow> IsValidStableId (ns_id n) \<and> ok_type_name (ns_op n) \<noteq> [] \<and> 1 \<le> ns_parallelism n \<and>
     (ex_device_id (ns_executor n) \<noteq> None \<longrightarrow> ex_kind (ns_executor n) = Executor_Gpu)"

definition edge_ok :: "string set \<Rightarrow> edge_spec \<Rightarrow> bool" where
  "edge_ok ids e \<longleftrightarrow> es_id e \<noteq> [] \<and>
     (IsValidStableId (es_id e) \<or> es_id e = DeriveEdgeId (es_from e) (es_to e)) \<and>
     pr_node_id (es_from e) \<in> ids \<and> pr_node_id (es_to e) \<in> ids \<and>
     pr_port (es_from e) \<noteq> [] \<and> pr_port (es_to e) \<noteq> [] \<and>
     1 \<le> qs_capacity (es_queue e) \<and> qs_max_packet_bytes (es_queue e) \<noteq> Some 0"

text \<open>The well-formedness invariant of \<open>GraphSpec\<close>: unique ids, valid nodes, no dangling edge, at most
  one edge between two ports.\<close>

definition gs_wf :: "graph_spec \<Rightarrow> bool" where
  "gs_wf g \<longleftrightarrow> distinct (map ns_id (gs_nodes g)) \<and> (\<forall>n\<in>set (gs_nodes g). node_ok n) \<and>
     distinct (map es_id (gs_edges g)) \<and> (\<forall>e\<in>set (gs_edges g). edge_ok (node_ids g) e) \<and>
     distinct (map (\<lambda>e. (es_from e, es_to e)) (gs_edges g))"

lemma FindNode_None [simp]: "FindNode g i = None \<longleftrightarrow> i \<notin> node_ids g"
  by (simp add: FindNode_def node_ids_def nt.lookup_None_iff)

lemma FindEdge_None [simp]: "FindEdge g i = None \<longleftrightarrow> i \<notin> edge_ids g"
  by (simp add: FindEdge_def edge_ids_def et.lookup_None_iff)

lemma DeriveEdgeId_nonempty [simp]: "DeriveEdgeId f t \<noteq> []"
  by (simp add: DeriveEdgeId_def)

lemma gs_wf_new [simp]: "gs_wf (GraphSpec_new n)"
  by (simp add: gs_wf_def GraphSpec_new_def)

text \<open>The exact effect of a successful operation.\<close>

lemma AddNode_Inr:
  "AddNode n g = Inr g' \<longleftrightarrow> node_ok n \<and> ns_id n \<notin> node_ids g \<and> g' = g\<lparr>gs_nodes := gs_nodes g @ [n]\<rparr>"
  by (auto simp: AddNode_def node_ok_def Suc_le_eq)

definition edge_named :: "edge_spec \<Rightarrow> edge_spec" where
  "edge_named e = (if es_id e = [] then e\<lparr>es_id := DeriveEdgeId (es_from e) (es_to e)\<rparr> else e)"

lemma edge_named_simps [simp]:
  "es_from (edge_named e) = es_from e" "es_to (edge_named e) = es_to e"
  "es_queue (edge_named e) = es_queue e" "es_sync (edge_named e) = es_sync e"
  "es_feedback (edge_named e) = es_feedback e" "es_id (edge_named e) \<noteq> []"
  by (simp_all add: edge_named_def)

lemma edge_between:
  "list_ex (\<lambda>x. es_from x = f \<and> es_to x = t) es \<longleftrightarrow> (f, t) \<in> (\<lambda>x. (es_from x, es_to x)) ` set es"
  by (auto simp: list_ex_iff image_iff)

lemma AddEdge_Inr:
  "AddEdge e g = Inr g' \<longleftrightarrow> edge_ok (node_ids g) (edge_named e) \<and> es_id (edge_named e) \<notin> edge_ids g \<and>
     (es_from e, es_to e) \<notin> (\<lambda>x. (es_from x, es_to x)) ` set (gs_edges g) \<and>
     g' = g\<lparr>gs_edges := gs_edges g @ [edge_named e]\<rparr>"
  unfolding AddEdge_def edge_named_def [symmetric] Let_def edge_between
  by (auto simp: edge_ok_def Suc_le_eq)

lemma RemoveNode_Inr:
  "RemoveNode i g = Inr g' \<longleftrightarrow> i \<in> node_ids g \<and>
     g' = g\<lparr>gs_nodes := remove_first (\<lambda>n. ns_id n = i) (gs_nodes g),
            gs_edges := filter (\<lambda>e. pr_node_id (es_from e) \<noteq> i \<and> pr_node_id (es_to e) \<noteq> i) (gs_edges g)\<rparr>"
  by (auto simp: RemoveNode_def)

lemma RemoveEdge_Inr:
  "RemoveEdge i g = Inr g' \<longleftrightarrow> i \<in> edge_ids g \<and>
     g' = g\<lparr>gs_edges := remove_first (\<lambda>e. es_id e = i) (gs_edges g)\<rparr>"
  by (auto simp: RemoveEdge_def)

lemmas graph_ops_Inr = AddNode_Inr AddEdge_Inr RemoveNode_Inr RemoveEdge_Inr

lemma edge_ok_mono: "edge_ok A e \<Longrightarrow> A \<subseteq> B \<Longrightarrow> edge_ok B e"
  by (auto simp: edge_ok_def)

lemma AddNode_wf [ge_inv]: "AddNode n g = Inr g' \<Longrightarrow> gs_wf g \<Longrightarrow> gs_wf g'"
  by (auto simp: AddNode_Inr gs_wf_def node_ids_def intro: edge_ok_mono)

lemma AddEdge_wf [ge_inv]: "AddEdge e g = Inr g' \<Longrightarrow> gs_wf g \<Longrightarrow> gs_wf g'"
  by (auto simp: AddEdge_Inr gs_wf_def node_ids_def edge_ids_def)

lemma distinct_map_remove_first: "distinct (map f xs) \<Longrightarrow> distinct (map f (remove_first P xs))"
  by (induction xs) (use set_remove_first_subset in \<open>fastforce+\<close>)

lemma RemoveNode_wf [ge_inv]: "RemoveNode i g = Inr g' \<Longrightarrow> gs_wf g \<Longrightarrow> gs_wf g'"
  by (auto simp: RemoveNode_Inr gs_wf_def node_ids_def nt.ident_remove_first edge_ok_def
      intro!: distinct_map_filter nt.distinct_remove_first dest: set_remove_first_subset [THEN subsetD])

lemma RemoveEdge_wf [ge_inv]: "RemoveEdge i g = Inr g' \<Longrightarrow> gs_wf g \<Longrightarrow> gs_wf g'"
  by (auto simp: RemoveEdge_Inr gs_wf_def node_ids_def
      intro!: distinct_map_remove_first dest: set_remove_first_subset [THEN subsetD])

subsection \<open>What the builder builds\<close>

datatype builder_call =
    Call_AddNode node_spec
  | Call_Connect port_ref port_ref edge_options
  | Call_SetDescription string
  | Call_SetOptions graph_options

fun builder_do :: "builder_call \<Rightarrow> graph_builder \<Rightarrow> graph_builder" where
  "builder_do (Call_AddNode n) b = snd (GraphBuilder_AddNode n b)"
| "builder_do (Call_Connect f t o') b = GraphBuilder_Connect f t o' b"
| "builder_do (Call_SetDescription d) b = GraphBuilder_SetDescription d b"
| "builder_do (Call_SetOptions o') b = GraphBuilder_SetOptions o' b"

fun call_nodes :: "builder_call list \<Rightarrow> node_spec list" where
  "call_nodes [] = []"
| "call_nodes (Call_AddNode n # cs) = n # call_nodes cs"
| "call_nodes (_ # cs) = call_nodes cs"

fun call_edges :: "builder_call list \<Rightarrow> edge_spec list" where
  "call_edges [] = []"
| "call_edges (Call_Connect f t o' # cs) = edge_named (edge_of_options f t o') # call_edges cs"
| "call_edges (_ # cs) = call_edges cs"

lemma builder_do_errors: "gb_errors (builder_do c b) = [] \<Longrightarrow> gb_errors b = []"
  by (cases c) (auto simp: GraphBuilder_AddNode_def GraphBuilder_Connect_def
      GraphBuilder_SetDescription_def GraphBuilder_SetOptions_def split: sum.splits)

lemma gs_wf_frame [simp]:
  "gs_wf (g\<lparr>gs_description := d\<rparr>) = gs_wf g" "gs_wf (g\<lparr>gs_options := o'\<rparr>) = gs_wf g"
  by (simp_all add: gs_wf_def node_ids_def)

lemma builder_do_step:
  assumes "gb_errors (builder_do c b) = []" "gs_wf (gb_spec b)"
  shows "gs_wf (gb_spec (builder_do c b))"
    and "gs_nodes (gb_spec (builder_do c b)) = gs_nodes (gb_spec b) @ call_nodes [c]"
    and "gs_edges (gb_spec (builder_do c b)) = gs_edges (gb_spec b) @ call_edges [c]"
  using assms
  by (cases c; auto simp: GraphBuilder_AddNode_def GraphBuilder_Connect_def
      GraphBuilder_SetDescription_def GraphBuilder_SetOptions_def AddNode_Inr AddEdge_Inr
      split: sum.splits intro: AddNode_wf AddEdge_wf)+

lemma call_nodes_Cons: "call_nodes (c # cs) = call_nodes [c] @ call_nodes cs"
  by (cases c) auto

lemma call_edges_Cons: "call_edges (c # cs) = call_edges [c] @ call_edges cs"
  by (cases c) auto

lemma builder_fold:
  assumes "gb_errors (fold builder_do cs b) = []" "gs_wf (gb_spec b)"
  shows "gb_errors b = [] \<and> gs_wf (gb_spec (fold builder_do cs b)) \<and>
    gs_nodes (gb_spec (fold builder_do cs b)) = gs_nodes (gb_spec b) @ call_nodes cs \<and>
    gs_edges (gb_spec (fold builder_do cs b)) = gs_edges (gb_spec b) @ call_edges cs"
  using assms
proof (induction cs arbitrary: b)
  case (Cons c cs)
  let ?b = "builder_do c b"
  have "gb_errors ?b = []"
    using Cons.prems(1) by (induction cs arbitrary: c b) (auto dest: builder_do_errors)
  then show ?case
    using Cons.IH [of ?b] Cons.prems builder_do_step [of c b] builder_do_errors [of c b]
    by (simp add: call_nodes_Cons [of c cs] call_edges_Cons [of c cs])
qed simp

text \<open>C33. When \<open>GraphBuilder::Build\<close> returns a graph, no call on the builder was dropped: the graph has
  exactly the nodes and edges of the calls, in their order, and it is well formed.\<close>

theorem GraphBuilder_Build_complete:
  assumes "GraphBuilder_Build (fold builder_do cs (GraphBuilder_new nm)) = Inr g"
  shows "gs_wf g \<and> gs_nodes g = call_nodes cs \<and> gs_edges g = call_edges cs \<and> call_nodes cs \<noteq> []"
proof -
  let ?b = "fold builder_do cs (GraphBuilder_new nm)"
  have e: "gb_errors ?b = []" "gs_nodes (gb_spec ?b) \<noteq> []" "g = gb_spec ?b"
    using assms by (auto simp: GraphBuilder_Build_def Result_of_status_def split: if_splits)
  then show ?thesis
    using builder_fold [OF e(1)] by (auto simp: GraphBuilder_new_def GraphSpec_new_def gs_wf_def)
qed

definition sample_node :: "string \<Rightarrow> node_spec" where
  "sample_node i = \<lparr>ns_id = i, ns_op = \<lparr>ok_type_name = ''Op'', ok_semantic_version = ''1''\<rparr>,
     ns_executor = \<lparr>ex_kind = Executor_Auto, ex_device_id = None\<rparr>, ns_parallelism = 1,
     ns_options = JObj [], ns_labels = []\<rparr>"

definition sample_queue :: queue_spec where
  "sample_queue = \<lparr>qs_capacity = 2, qs_policy = kBlock, qs_max_packet_bytes = None\<rparr>"

definition sample_calls :: "builder_call list" where
  "sample_calls = [Call_AddNode (sample_node ''a''), Call_AddNode (sample_node ''b''),
     Call_Connect \<lparr>pr_node_id = ''a'', pr_port = ''out''\<rparr> \<lparr>pr_node_id = ''b'', pr_port = ''in''\<rparr>
       \<lparr>eo_id = None, eo_queue = sample_queue, eo_sync = None, eo_feedback = False\<rparr>]"

theorem GraphBuilder_Build_complete_witness:
  "\<exists>g. GraphBuilder_Build (fold builder_do sample_calls (GraphBuilder_new ''g'')) = Inr g \<and> gs_wf g \<and>
     map ns_id (gs_nodes g) = [''a'', ''b''] \<and> map es_id (gs_edges g) = [''a.out->b.in'']"
proof -
  have "\<not> isl (GraphBuilder_Build (fold builder_do sample_calls (GraphBuilder_new ''g'')))" by code_simp
  then obtain g where g: "GraphBuilder_Build (fold builder_do sample_calls (GraphBuilder_new ''g'')) = Inr g"
    by (metis sum.collapse(2))
  moreover have "map ns_id (call_nodes sample_calls) = [''a'', ''b'']"
    "map es_id (call_edges sample_calls) = [''a.out->b.in'']" by code_simp+
  ultimately show ?thesis using GraphBuilder_Build_complete [OF g] by simp
qed

lemma PortRef_Parse_iff:
  "PortRef_Parse t = Some r \<longleftrightarrow>
     t = PortRef_ToString r \<and> IsValidStableId (pr_node_id r) \<and> CHR ''.'' \<notin> set (pr_node_id r) \<and>
     pr_port r \<noteq> []"
proof
  assume "PortRef_Parse t = Some r"
  then obtain n where n: "str_find CHR ''.'' t = Some n" "n \<noteq> 0" "n + 1 < length t"
    "r = \<lparr>pr_node_id = take n t, pr_port = drop (n + 1) t\<rparr>" "IsValidStableId (take n t)"
    by (auto simp: PortRef_Parse_def Let_def split: option.splits if_splits)
  then show "t = PortRef_ToString r \<and> IsValidStableId (pr_node_id r) \<and>
      CHR ''.'' \<notin> set (pr_node_id r) \<and> pr_port r \<noteq> []"
    using str_find_Some [OF n(1)] by (auto simp: PortRef_ToString_def)
next
  assume a: "t = PortRef_ToString r \<and> IsValidStableId (pr_node_id r) \<and>
      CHR ''.'' \<notin> set (pr_node_id r) \<and> pr_port r \<noteq> []"
  moreover then have "pr_node_id r \<noteq> []" by (auto simp: IsValidStableId_def)
  ultimately show "PortRef_Parse t = Some r"
    by (auto simp: PortRef_Parse_def PortRef_ToString_def str_find_append Let_def)
qed

text \<open>C34. \<open>PortRef::Parse\<close> accepts exactly the texts \<open>ToString\<close> writes for a reference whose node id is
  a valid stable id without a dot and whose port is not empty. (A dot is legal in a stable id: the
  reference of such a node is read back as another reference or refused.)\<close>

theorem PortRef_round_trip:
  "PortRef_Parse t = Some r \<longleftrightarrow>
     t = PortRef_ToString r \<and> IsValidStableId (pr_node_id r) \<and> CHR ''.'' \<notin> set (pr_node_id r) \<and>
     pr_port r \<noteq> []"
  by (rule PortRef_Parse_iff)

lemma PortRef_dotted_node:
  "IsValidStableId ''a.b''" "PortRef_Parse (PortRef_ToString \<lparr>pr_node_id = ''a.b'', pr_port = ''out''\<rparr>) =
     Some \<lparr>pr_node_id = ''a'', pr_port = ''b.out''\<rparr>"
  by code_simp+

lemma DeriveEdgeId_collision:
  "DeriveEdgeId \<lparr>pr_node_id = ''a.b'', pr_port = ''c''\<rparr> t = DeriveEdgeId \<lparr>pr_node_id = ''a'', pr_port = ''b.c''\<rparr> t"
  by (simp add: DeriveEdgeId_def)

lemma ExecutorKind_text [simp]: "ParseExecutorKind (ExecutorKind_ToString k) = Some k"
  by (cases k) (simp_all add: ParseExecutorKind_def)

lemma DropPolicy_text [simp]: "ParseDropPolicy (DropPolicy_ToString d) = Some d"
  by (cases d) (simp_all add: ParseDropPolicy_def)

lemma SyncPolicy_text [simp]: "ParseSyncPolicy (SyncPolicy_ToString s) = Some s"
  by (cases s) (simp_all add: ParseSyncPolicy_def)

lemma RemovePolicy_text [simp]: "ParseRemovePolicy (RemovePolicy_ToString r) = Some r"
  by (cases r) (simp_all add: ParseRemovePolicy_def RemovePolicy_ToString_def)

lemma RemoveMode_text [simp]: "ParseRemoveMode (RemoveMode_ToString m) = Some m"
  by (cases m) (simp_all add: ParseRemoveMode_def RemoveMode_ToString_def)

end
