(* ===== verification/Json_Reader.thy ===== *)
theory Json_Reader
  imports Ge_Types
begin

section \<open>Reading and building JSON objects field by field\<close>

text \<open>
  Models \<open>src/json_reader.h\<close>: \<open>ObjectReader\<close>, which reads the fields of one object, remembers which
  keys were asked for and refuses the others in \<open>Finish\<close>; the rules for document headers; and the
  FNV-1a hash. A method that fills an out-parameter returns the value it leaves there. A parser is a
  chain of such methods on one reader (\<open>rbind\<close>), with the code's early returns as the left results.
  The other direction, a \<open>JsonObject\<close> filled by \<open>emplace\<close> calls, is \<open>json_members\<close>; the lemmas at the
  end say what a reader finds in an object that was built this way, which the codec round trips use.
\<close>

unbundle bit_operations_syntax

subsection \<open>The object reader\<close>

record object_reader =
  or_value :: json
  or_path :: string
  or_allow_unknown :: bool
  or_error_code :: status_code
  or_seen :: "string set"

definition ObjectReader :: "json \<Rightarrow> string \<Rightarrow> bool \<Rightarrow> status_code \<Rightarrow> object_reader" where
  "ObjectReader v path allow code =
     \<lparr>or_value = v, or_path = path, or_allow_unknown = allow, or_error_code = code, or_seen = {}\<rparr>"

type_synonym 'a reader = "object_reader \<Rightarrow> ('a \<times> object_reader) result"

definition rbind :: "'a reader \<Rightarrow> ('a \<Rightarrow> 'b reader) \<Rightarrow> 'b reader" where
  "rbind m f r = bind_result (m r) (\<lambda>(a, r'). f a r')"

definition rreturn :: "'a \<Rightarrow> 'a reader" where
  "rreturn a r = Inr (a, r)"

text \<open>A step that does not touch the reader.\<close>

definition rlift :: "'a result \<Rightarrow> 'a reader" where
  "rlift x r = bind_result x (\<lambda>a. Inr (a, r))"

definition Reader_Error :: "object_reader \<Rightarrow> string \<Rightarrow> status" where
  "Reader_Error r m = Status (or_error_code r) m False None"

definition Reader_Missing :: "object_reader \<Rightarrow> string \<Rightarrow> status" where
  "Reader_Missing r key = Reader_Error r (''missing field '' @ quoted key @ '' in '' @ or_path r)"

definition Reader_WrongType :: "object_reader \<Rightarrow> string \<Rightarrow> string \<Rightarrow> status" where
  "Reader_WrongType r key expected =
     Reader_Error r (''field '' @ quoted key @ '' in '' @ or_path r @ '' must be '' @ expected)"

definition Reader_Get :: "string \<Rightarrow> json option reader" where
  "Reader_Get key r = Inr (json_Find (or_value r) key, r\<lparr>or_seen := insert key (or_seen r)\<rparr>)"

definition RequireString :: "string \<Rightarrow> string reader" where
  "RequireString key = rbind (Reader_Get key) (\<lambda>v r.
     case v of None \<Rightarrow> Inl (Reader_Missing r key)
     | Some (JStr s) \<Rightarrow> Inr (s, r) | Some _ \<Rightarrow> Inl (Reader_WrongType r key ''string''))"

definition OptionalString :: "string \<Rightarrow> string \<Rightarrow> string reader" where
  "OptionalString key dflt = rbind (Reader_Get key) (\<lambda>v r.
     case v of None \<Rightarrow> Inr (dflt, r)
     | Some (JStr s) \<Rightarrow> Inr (s, r) | Some _ \<Rightarrow> Inl (Reader_WrongType r key ''string''))"

definition OptionalInteger :: "string \<Rightarrow> int option reader" where
  "OptionalInteger key = rbind (Reader_Get key) (\<lambda>v r.
     case v of None \<Rightarrow> Inr (None, r)
     | Some (JInt i) \<Rightarrow> Inr (Some i, r) | Some _ \<Rightarrow> Inl (Reader_WrongType r key ''integer''))"

definition RequireInteger :: "string \<Rightarrow> int reader" where
  "RequireInteger key = rbind (Reader_Get key) (\<lambda>v r.
     case v of None \<Rightarrow> Inl (Reader_Missing r key)
     | Some (JInt i) \<Rightarrow> Inr (i, r) | Some _ \<Rightarrow> Inl (Reader_WrongType r key ''integer''))"

definition OptionalNumber :: "fp_ops \<Rightarrow> string \<Rightarrow> double option reader" where
  "OptionalNumber fp key = rbind (Reader_Get key) (\<lambda>v r.
     case v of None \<Rightarrow> Inr (None, r)
     | Some (JInt i) \<Rightarrow> Inr (Some (fp_of_int fp i), r)
     | Some (JNum d) \<Rightarrow> Inr (Some d, r)
     | Some _ \<Rightarrow> Inl (Reader_WrongType r key ''number''))"

definition OptionalBool :: "string \<Rightarrow> bool \<Rightarrow> bool reader" where
  "OptionalBool key dflt = rbind (Reader_Get key) (\<lambda>v r.
     case v of None \<Rightarrow> Inr (dflt, r)
     | Some (JBool b) \<Rightarrow> Inr (b, r) | Some _ \<Rightarrow> Inl (Reader_WrongType r key ''boolean''))"

definition RequireBool :: "string \<Rightarrow> bool reader" where
  "RequireBool key = rbind (Reader_Get key) (\<lambda>v r.
     case v of None \<Rightarrow> Inl (Reader_Missing r key)
     | Some (JBool b) \<Rightarrow> Inr (b, r) | Some _ \<Rightarrow> Inl (Reader_WrongType r key ''boolean''))"

definition OptionalObject :: "string \<Rightarrow> json \<Rightarrow> json reader" where
  "OptionalObject key dflt = rbind (Reader_Get key) (\<lambda>v r.
     case v of None \<Rightarrow> Inr (dflt, r)
     | Some (JObj m) \<Rightarrow> Inr (JObj m, r) | Some _ \<Rightarrow> Inl (Reader_WrongType r key ''object''))"

text \<open>The loop over the elements of a string array.\<close>

fun string_items :: "status \<Rightarrow> json list \<Rightarrow> string list result" where
  "string_items bad [] = Inr []"
| "string_items bad (JStr s # vs) = bind_result (string_items bad vs) (\<lambda>ss. Inr (s # ss))"
| "string_items bad (_ # vs) = Inl bad"

definition OptionalStringArray :: "string \<Rightarrow> string list option reader" where
  "OptionalStringArray key = rbind (Reader_Get key) (\<lambda>v r.
     case v of None \<Rightarrow> Inr (None, r)
     | Some (JArr vs) \<Rightarrow>
         bind_result (string_items (Reader_Error r
           (''elements of '' @ quoted key @ '' in '' @ or_path r @ '' must be strings'')) vs)
           (\<lambda>ss. Inr (Some ss, r))
     | Some _ \<Rightarrow> Inl (Reader_WrongType r key ''array''))"

definition StringArray :: "string \<Rightarrow> bool \<Rightarrow> string list \<Rightarrow> string list reader" where
  "StringArray key required dflt = rbind (OptionalStringArray key) (\<lambda>v r.
     case v of None \<Rightarrow> if required then Inl (Reader_Missing r key) else Inr (dflt, r)
     | Some ss \<Rightarrow> Inr (ss, r))"

definition Reader_Finish :: "object_reader \<Rightarrow> unit result" where
  "Reader_Finish r =
     (if or_allow_unknown r then Inr ()
      else case find (\<lambda>(k, _). k \<notin> or_seen r) (as_object (or_value r)) of
             Some (k, _) \<Rightarrow> Inl (Reader_Error r (''unknown field '' @ quoted k @ '' in '' @ or_path r))
           | None \<Rightarrow> Inr ())"

text \<open>The frame of every object parser: a fresh reader, the error when the value is no object, the
  fields, and \<open>Finish\<close>.\<close>

definition read_object :: "json \<Rightarrow> string \<Rightarrow> bool \<Rightarrow> status_code \<Rightarrow> status \<Rightarrow> 'a reader \<Rightarrow> 'a result" where
  "read_object v path allow code bad body =
     (if \<not> is_object v then Inl bad
      else bind_result (body (ObjectReader v path allow code)) (\<lambda>(a, r).
        bind_result (Reader_Finish r) (\<lambda>_. Inr a)))"

definition require_array :: "string \<Rightarrow> json list reader" where
  "require_array key = rbind (Reader_Get key) (\<lambda>v r.
     case v of None \<Rightarrow> Inl (Reader_Missing r key)
     | Some (JArr vs) \<Rightarrow> Inr (vs, r) | Some _ \<Rightarrow> Inl (Reader_WrongType r key ''array''))"

definition require_member :: "string \<Rightarrow> json reader" where
  "require_member key = rbind (Reader_Get key) (\<lambda>v r.
     case v of None \<Rightarrow> Inl (Reader_Missing r key) | Some x \<Rightarrow> Inr (x, r))"

text \<open>A field that may be absent: its value otherwise is parsed, or refused.\<close>

definition optional_field :: "'a \<Rightarrow> ('b \<Rightarrow> 'a result) \<Rightarrow> 'b option \<Rightarrow> 'a result" where
  "optional_field dflt f v = (case v of None \<Rightarrow> Inr dflt | Some x \<Rightarrow> f x)"

text \<open>A text field: empty keeps the default.\<close>

definition enum_field :: "'a \<Rightarrow> (string \<Rightarrow> 'b option) \<Rightarrow> ('b \<Rightarrow> 'a) \<Rightarrow> status \<Rightarrow> string \<Rightarrow> 'a result" where
  "enum_field dflt parse f bad t =
     (if t = [] then Inr dflt else case parse t of None \<Rightarrow> Inl bad | Some x \<Rightarrow> Inr (f x))"

subsection \<open>Document headers\<close>

definition CheckDocumentHeader ::
  "json \<Rightarrow> string \<Rightarrow> int \<Rightarrow> string \<Rightarrow> status_code \<Rightarrow> bool result" where
  "CheckDocumentHeader doc kind schema_version schema_id code =
     (let fail = (\<lambda>m. Inl (Status code m False None)) in
      if \<not> is_object doc then fail ''document must be a JSON object''
      else case json_GetString doc ''kind'' of
        None \<Rightarrow> fail (''missing document '' @ quoted ''kind'')
      | Some k \<Rightarrow>
        if k \<noteq> kind then fail (''expected kind '' @ quoted kind @ '', got '' @ quoted k)
        else case json_Find doc ''schema_version'' of
          Some (JInt sv) \<Rightarrow>
            if sv \<noteq> schema_version then
              Inl (Status code
                (''unsupported schema_version '' @ int_to_string sv @ '' (expected '' @
                 int_to_string schema_version @ '')'') False
                (Some (JObj [(''expected'', JInt schema_version), (''received'', JInt sv)])))
            else
              let allow = (case json_Find doc ''allow_unknown_fields'' of
                             None \<Rightarrow> Inr False
                           | Some (JBool b) \<Rightarrow> Inr b
                           | Some _ \<Rightarrow> fail (quoted ''allow_unknown_fields'' @ '' must be boolean'')) in
              (case json_Find doc ''$id'' of
                 None \<Rightarrow> allow
               | Some (JStr i) \<Rightarrow>
                   if i \<noteq> schema_id then
                     fail (quoted ''$id'' @ '' '' @ quoted i @ '' does not match schema_version'')
                   else allow
               | Some _ \<Rightarrow> fail (quoted ''$id'' @ '' must be a string''))
        | _ \<Rightarrow> fail (''missing or non-integer '' @ quoted ''schema_version''))"

definition MarkHeaderSeen :: "unit reader" where
  "MarkHeaderSeen =
     rbind (Reader_Get ''kind'') (\<lambda>_. rbind (Reader_Get ''schema_version'') (\<lambda>_.
     rbind (Reader_Get ''$id'') (\<lambda>_. rbind (Reader_Get ''allow_unknown_fields'') (\<lambda>_. rreturn ()))))"

text \<open>FNV-1a on 64 bits.\<close>

definition Fnv1a :: "string \<Rightarrow> 64 word \<Rightarrow> 64 word" where
  "Fnv1a s seed = fold (\<lambda>c h. (h XOR of_nat (of_char c)) * 0x100000001b3) s seed"

definition fnv_seed :: "64 word" where
  "fnv_seed = 0xcbf29ce484222325"

subsection \<open>Building objects\<close>

definition StringsJson :: "string list \<Rightarrow> json" where
  "StringsJson v = JArr (map JStr v)"

text \<open>\<open>o.emplace(k, v)\<close> for every member that is present, into an empty \<open>JsonObject\<close>.\<close>

type_synonym member = "(string \<times> json) option"

definition emplace_all :: "member list \<Rightarrow> (string \<times> json) list \<Rightarrow> (string \<times> json) list" where
  "emplace_all ms o' = fold (\<lambda>m o'. case m of Some (k, v) \<Rightarrow> om_emplace k v o' | None \<Rightarrow> o') ms o'"

definition json_members :: "member list \<Rightarrow> json" where
  "json_members ms = JObj (emplace_all ms [])"

subsection \<open>What a reader finds in a built object\<close>

fun member_at :: "member list \<Rightarrow> string \<Rightarrow> json option" where
  "member_at [] k = None"
| "member_at (m # ms) k =
     (case m of Some (k', v) \<Rightarrow> if k' = k then Some v else member_at ms k | None \<Rightarrow> member_at ms k)"

declare member_at.simps(2) [simp del]

lemma member_at_simps [simp]:
  "member_at (Some (k', v) # ms) k = (if k' = k then Some v else member_at ms k)"
  "member_at (None # ms) k = member_at ms k"
  "member_at ((if c then Some (k', v) else None) # ms) k = (if k' = k \<and> c then Some v else member_at ms k)"
  "member_at (map_option (\<lambda>x. (k', f x)) o' # ms) k =
     (if k' = k then (case o' of Some x \<Rightarrow> Some (f x) | None \<Rightarrow> member_at ms k) else member_at ms k)"
  by (auto simp: member_at.simps split: option.splits)

lemma om_wf_emplace_all [simp]: "om_wf o' \<Longrightarrow> om_wf (emplace_all ms o')"
  unfolding emplace_all_def by (induction ms arbitrary: o') (auto split: option.splits prod.splits)

lemma map_of_emplace_all:
  "om_wf o' \<Longrightarrow> map_of (emplace_all ms o') k = (case map_of o' k of Some v \<Rightarrow> Some v | None \<Rightarrow> member_at ms k)"
proof (induction ms arbitrary: o')
  case (Cons m ms)
  have s: "emplace_all (m # ms) o' =
      emplace_all ms (case m of Some (k, v) \<Rightarrow> om_emplace k v o' | None \<Rightarrow> o')"
    by (simp add: emplace_all_def)
  show ?case
    unfolding s using Cons
    by (auto simp: member_at.simps map_of_om_emplace split: option.splits prod.splits)
qed (auto simp: emplace_all_def split: option.splits)

lemma json_Find_members [simp]: "json_Find (json_members ms) k = member_at ms k"
  by (simp add: json_Find_def json_members_def map_of_emplace_all)

lemma is_object_members [simp]: "is_object (json_members ms)"
  by (simp add: json_members_def)

lemma member_at_key: "member_at ms k \<noteq> None \<Longrightarrow> k \<in> {k'. \<exists>v. Some (k', v) \<in> set ms}"
  by (induction ms) (auto simp: member_at.simps split: option.splits if_splits)

lemma members_key: "(k, v) \<in> set (as_object (json_members ms)) \<Longrightarrow> \<exists>v. Some (k, v) \<in> set ms"
  using member_at_key [of ms k] om_wf_map_of_iff [of "emplace_all ms []" k v] map_of_emplace_all [of "[]" ms k]
  by (auto simp: json_members_def)

text \<open>Every key of a built object was asked for.\<close>

fun keys_seen :: "member list \<Rightarrow> string set \<Rightarrow> bool" where
  "keys_seen [] S = True"
| "keys_seen (m # ms) S = ((case m of Some (k, _) \<Rightarrow> k \<in> S | None \<Rightarrow> True) \<and> keys_seen ms S)"

lemma keys_seen_simps [simp]:
  "(case (if c then Some (k, v) else None) of Some (k, _) \<Rightarrow> k \<in> S | None \<Rightarrow> True) \<longleftrightarrow> (c \<longrightarrow> k \<in> S)"
  "(case (map_option (\<lambda>x. (k, f x)) o') of Some (k, _) \<Rightarrow> k \<in> S | None \<Rightarrow> True) \<longleftrightarrow> (o' \<noteq> None \<longrightarrow> k \<in> S)"
  by (auto split: option.splits)

lemma keys_seen_map_option [simp]:
  "case_option True ((\<lambda>(k, _). k \<in> S) \<circ> (\<lambda>x. (k, f x))) o' \<longleftrightarrow> (o' \<noteq> None \<longrightarrow> k \<in> S)"
  by (cases o') auto

lemma keys_seenD: "keys_seen ms S \<Longrightarrow> Some (k, v) \<in> set ms \<Longrightarrow> k \<in> S"
  by (induction ms) auto

lemma Reader_Finish_members:
  assumes "keys_seen ms (or_seen r)" "or_value r = json_members ms"
  shows "Reader_Finish r = Inr ()"
proof -
  have "find (\<lambda>(k, _). k \<notin> or_seen r) (as_object (or_value r)) = None"
    unfolding find_None_D using assms by (auto dest!: members_key keys_seenD)
  then show ?thesis by (simp add: Reader_Finish_def)
qed

lemma Reader_Finish_built [simp]:
  "keys_seen ms S \<Longrightarrow>
     Reader_Finish \<lparr>or_value = json_members ms, or_path = p, or_allow_unknown = a, or_error_code = c, or_seen = S\<rparr> = Inr ()"
  by (rule Reader_Finish_members) simp_all

lemma emplace_all_sorted: "om_wf m \<Longrightarrow> emplace_all (map Some m) [] = m"
proof (rule om_eqI)
  have "member_at (map Some m) k = map_of m k" for k by (induction m) auto
  then show "map_of (emplace_all (map Some m) []) = map_of m" by (simp add: map_of_emplace_all fun_eq_iff)
qed simp_all

lemma string_items_map [simp]: "string_items bad (map JStr ss) = Inr ss"
  by (induction ss) simp_all

lemma string_items_Inr: "string_items bad vs = Inr ss \<longleftrightarrow> vs = map JStr ss"
proof
  show "string_items bad vs = Inr ss \<Longrightarrow> vs = map JStr ss"
    by (induction bad vs arbitrary: ss rule: string_items.induct) (auto simp: bind_result_Inr)
qed simp

lemmas reader_defs = rbind_def rreturn_def rlift_def Reader_Get_def RequireString_def OptionalString_def
  OptionalInteger_def RequireInteger_def OptionalBool_def RequireBool_def OptionalObject_def
  OptionalStringArray_def StringArray_def ObjectReader_def StringsJson_def

lemma rbind_Inr: "rbind m f r = Inr (b, r'') \<longleftrightarrow> (\<exists>a r'. m r = Inr (a, r') \<and> f a r' = Inr (b, r''))"
  by (auto simp: rbind_def bind_result_Inr)

lemma rlift_Inr [simp]: "rlift x r = Inr (a, r') \<longleftrightarrow> x = Inr a \<and> r' = r"
  by (auto simp: rlift_def bind_result_Inr)

lemma read_object_Inr:
  "read_object v path allow code bad body = Inr a \<longleftrightarrow>
     is_object v \<and> (\<exists>r. body (ObjectReader v path allow code) = Inr (a, r) \<and> Reader_Finish r = Inr ())"
  by (auto simp: read_object_def bind_result_Inr)

lemma field_simps [simp]:
  "optional_field d f None = Inr d" "optional_field d f (Some x) = f x"
  by (simp_all add: optional_field_def)

lemma optional_field_Inr:
  "optional_field d f v = Inr x \<longleftrightarrow> v = None \<and> x = d \<or> (\<exists>y. v = Some y \<and> f y = Inr x)"
  by (cases v) auto

lemma enum_field_Inr:
  "enum_field d p f bad t = Inr x \<longleftrightarrow> t = [] \<and> x = d \<or> t \<noteq> [] \<and> (\<exists>y. p t = Some y \<and> x = f y)"
  by (auto simp: enum_field_def split: option.splits)

text \<open>Inversion of the reader's methods.\<close>

abbreviation mark :: "string \<Rightarrow> object_reader \<Rightarrow> object_reader" where
  "mark key r \<equiv> r\<lparr>or_seen := insert key (or_seen r)\<rparr>"

lemma reader_Inr [simp]:
  "Reader_Get key r = Inr (ov, r') \<longleftrightarrow> ov = json_Find (or_value r) key \<and> r' = mark key r"
  "RequireString key r = Inr (s, r') \<longleftrightarrow> json_Find (or_value r) key = Some (JStr s) \<and> r' = mark key r"
  "RequireInteger key r = Inr (i, r') \<longleftrightarrow> json_Find (or_value r) key = Some (JInt i) \<and> r' = mark key r"
  "OptionalString key dflt r = Inr (s, r') \<longleftrightarrow>
     (json_Find (or_value r) key = None \<and> s = dflt \<or> json_Find (or_value r) key = Some (JStr s)) \<and> r' = mark key r"
  "OptionalBool key b0 r = Inr (b, r') \<longleftrightarrow>
     (json_Find (or_value r) key = None \<and> b = b0 \<or> json_Find (or_value r) key = Some (JBool b)) \<and> r' = mark key r"
  "OptionalObject key d r = Inr (v, r') \<longleftrightarrow>
     (json_Find (or_value r) key = None \<and> v = d \<or> json_Find (or_value r) key = Some v \<and> is_object v) \<and> r' = mark key r"
  "rreturn a r = Inr (x, r') \<longleftrightarrow> x = a \<and> r' = r"
  by (auto simp: reader_defs bind_result_Inr string_items_Inr split: option.splits json.splits)

lemma OptionalInteger_Inr [simp]:
  "OptionalInteger key r = Inr (oi, r') \<longleftrightarrow> json_Find (or_value r) key = map_option JInt oi \<and> r' = mark key r"
  by (cases oi) (auto simp: reader_defs bind_result_Inr split: option.splits json.splits)

lemma OptionalStringArray_Inr [simp]:
  "OptionalStringArray key r = Inr (oss, r') \<longleftrightarrow> json_Find (or_value r) key = map_option StringsJson oss \<and> r' = mark key r"
  by (cases oss) (auto simp: reader_defs bind_result_Inr string_items_Inr split: option.splits json.splits)

lemma ObjectReader_value [simp]: "or_value (ObjectReader v p a c) = v"
  by (simp add: ObjectReader_def)

lemma Reader_Finish_Inr:
  "Reader_Finish r = Inr () \<Longrightarrow> \<not> or_allow_unknown r \<Longrightarrow> fst ` set (as_object (or_value r)) \<subseteq> or_seen r"
  by (auto simp: Reader_Finish_def find_None_D split: option.splits)

lemma require_array_Inr [simp]:
  "require_array key r = Inr (vs, r') \<longleftrightarrow> json_Find (or_value r) key = Some (JArr vs) \<and> r' = mark key r"
  by (auto simp: require_array_def reader_defs split: option.splits json.splits)

lemma MarkHeaderSeen_Inr [simp]:
  "MarkHeaderSeen r = Inr (u, r') \<longleftrightarrow>
     r' = mark ''allow_unknown_fields'' (mark ''$id'' (mark ''schema_version'' (mark ''kind'' r)))"
  by (auto simp: MarkHeaderSeen_def reader_defs)

lemma json_wf_Find: "json_wf (Suc d) v \<Longrightarrow> json_Find v k = Some x \<Longrightarrow> json_wf d x"
  by (cases v) (auto simp: json_Find_def list_all_iff dest: map_of_SomeD)

lemma json_wf_mono_int: "json_wf d (JInt i) \<Longrightarrow> - (2 ^ 63) \<le> i \<and> i < 2 ^ 63"
  by (cases d) auto

lemma json_ok_Suc: "json_ok d v \<Longrightarrow> json_ok (Suc d) v"
  by (induction d v rule: json_ok.induct) (auto simp: list_all_iff)

lemma json_ok_mono: "json_ok d v \<Longrightarrow> d \<le> d' \<Longrightarrow> json_ok d' v"
  by (induction d') (auto intro: json_ok_Suc simp: le_Suc_eq)

end
