(* ===== verification/Capability.thy ===== *)
theory Capability
  imports Graph_Spec Json_Reader "HOL-Library.Product_Lexorder"
begin

section \<open>Port capabilities and their negotiation\<close>

text \<open>
  Models \<open>include/ge/cpp/capability.h\<close> and \<open>src/capability.cpp\<close>: the constraint dimensions of a port,
  the contract two or more ports agree on, and the negotiator with its cache and its last conflict.
  A missing dimension (\<open>std::nullopt\<close>) is unconstrained. A range of doubles is compared with the
  \<open>fp_less\<close> of the argument \<open>fp\<close>; a capability version is a 64-bit hash.
\<close>

unbundle bit_operations_syntax

subsection \<open>Data\<close>

datatype PortDirection = kInput | kOutput
datatype PortCardinality = kSingle | kMulti
datatype MemoryKind = Memory_Host | Memory_Pinned | Memory_CudaDevice | Memory_DmaBuf
datatype DeviceKind = Device_Cpu | Device_Gpu

fun MemoryKind_ToString :: "MemoryKind \<Rightarrow> string" where
  "MemoryKind_ToString Memory_Host = ''host''"
| "MemoryKind_ToString Memory_Pinned = ''pinned''"
| "MemoryKind_ToString Memory_CudaDevice = ''cuda_device''"
| "MemoryKind_ToString Memory_DmaBuf = ''dmabuf''"

definition ParseMemoryKind :: "string \<Rightarrow> MemoryKind option" where
  "ParseMemoryKind s =
     (if s = ''host'' then Some Memory_Host
      else if s = ''pinned'' then Some Memory_Pinned
      else if s = ''cuda_device'' then Some Memory_CudaDevice
      else if s = ''dmabuf'' then Some Memory_DmaBuf
      else None)"

definition DeviceKind_ToString :: "DeviceKind \<Rightarrow> string" where
  "DeviceKind_ToString k = (if k = Device_Gpu then ''gpu'' else ''cpu'')"

definition ParseDeviceKind :: "string \<Rightarrow> DeviceKind option" where
  "ParseDeviceKind s = (if s = ''cpu'' then Some Device_Cpu else if s = ''gpu'' then Some Device_Gpu else None)"

record 'a range =
  rg_min :: 'a
  rg_max :: 'a

definition Range_Empty :: "('a \<Rightarrow> 'a \<Rightarrow> bool) \<Rightarrow> 'a range \<Rightarrow> bool" where
  "Range_Empty lt r \<longleftrightarrow> lt (rg_max r) (rg_min r)"

definition Range_Intersect :: "('a \<Rightarrow> 'a \<Rightarrow> bool) \<Rightarrow> 'a range \<Rightarrow> 'a range \<Rightarrow> 'a range" where
  "Range_Intersect lt r o' =
     \<lparr>rg_min = (if lt (rg_min o') (rg_min r) then rg_min r else rg_min o'),
      rg_max = (if lt (rg_max r) (rg_max o') then rg_max r else rg_max o')\<rparr>"

definition Range_Contains :: "('a \<Rightarrow> 'a \<Rightarrow> bool) \<Rightarrow> 'a range \<Rightarrow> 'a \<Rightarrow> bool" where
  "Range_Contains le r v \<longleftrightarrow> le (rg_min r) v \<and> le v (rg_max r)"

type_synonym int_range = "int range"
type_synonym rational_range = "double range"
type_synonym format_set = "string list"

record video_constraints =
  vc_pixel_formats :: "format_set option"
  vc_width :: "int_range option"
  vc_height :: "int_range option"
  vc_fps :: "rational_range option"
  vc_color_spaces :: "format_set option"
  vc_color_ranges :: "format_set option"
  vc_hdr_modes :: "format_set option"

record audio_constraints =
  ac_sample_formats :: "format_set option"
  ac_sample_rate :: "int_range option"
  ac_channel_layouts :: "format_set option"

record tensor_constraints =
  tc_dtypes :: "format_set option"
  tc_layouts :: "format_set option"
  tc_shape :: "int_range list"

record memory_constraints =
  mc_kinds :: "MemoryKind list option"
  mc_device_ids :: "int list option"
  mc_zero_copy_required :: bool

record port_capability =
  pc_name :: string
  pc_direction :: PortDirection
  pc_type_tag :: string
  pc_required :: bool
  pc_cardinality :: PortCardinality
  pc_dynamic_consumers :: bool
  pc_video :: "video_constraints option"
  pc_audio :: "audio_constraints option"
  pc_tensor :: "tensor_constraints option"
  pc_memory :: memory_constraints
  pc_sync :: "SyncPolicy list option"

record execution_capability =
  xc_devices :: "DeviceKind list"
  xc_stateful :: bool
  xc_async :: bool
  xc_max_parallelism :: nat
  xc_zero_copy :: bool
  xc_max_inference_ms :: "nat option"

record parameter_capability =
  pa_hot_updatable :: "string list"
  pa_migratable :: "string list"
  pa_schema :: json

type_synonym capability_version = "64 word"

record capability_descriptor =
  cd_op :: operator_key
  cd_description :: string
  cd_inputs :: "port_capability list"
  cd_outputs :: "port_capability list"
  cd_execution :: execution_capability
  cd_parameters :: parameter_capability
  cd_resources :: "(string \<times> int) list"
  cd_emits :: "string list"
  cd_accepts :: "string list"

definition IsBuiltinTypeTag :: "string \<Rightarrow> bool" where
  "IsBuiltinTypeTag tag \<longleftrightarrow> tag = ''VideoFrame'' \<or> tag = ''AudioFrame'' \<or> tag = ''Tensor'' \<or>
     tag = ''Bytes'' \<or> tag = ''Json'' \<or> tag = ''EncodedVideo'' \<or> tag = ''EncodedAudio''"

fun find_port :: "string \<Rightarrow> port_capability list \<Rightarrow> port_capability option" where
  "find_port n [] = None"
| "find_port n (p # ps) = (if pc_name p = n then Some p else find_port n ps)"

definition FindInput :: "capability_descriptor \<Rightarrow> string \<Rightarrow> port_capability option" where
  "FindInput d n = find_port n (cd_inputs d)"

definition FindOutput :: "capability_descriptor \<Rightarrow> string \<Rightarrow> port_capability option" where
  "FindOutput d n = find_port n (cd_outputs d)"

subsection \<open>Contracts\<close>

record selected_video =
  sv_pixel_format :: string
  sv_width :: "int_range option"
  sv_height :: "int_range option"
  sv_fps :: "rational_range option"
  sv_color_space :: "string option"
  sv_color_range :: "string option"
  sv_hdr_mode :: "string option"

record selected_audio =
  sa_sample_format :: string
  sa_sample_rate :: "int_range option"
  sa_channel_layout :: "string option"

record selected_tensor =
  stn_dtype :: string
  stn_layout :: "string option"
  stn_shape :: "int_range list"

record connection_contract =
  cc_logical_type :: string
  cc_video :: "selected_video option"
  cc_audio :: "selected_audio option"
  cc_tensor :: "selected_tensor option"
  cc_memory_kind :: MemoryKind
  cc_device_id :: int
  cc_sync_policy :: SyncPolicy
  cc_source_capability :: capability_version
  cc_target_capability :: capability_version

definition SameDataPlane :: "connection_contract \<Rightarrow> connection_contract \<Rightarrow> bool" where
  "SameDataPlane c o' \<longleftrightarrow>
     cc_logical_type c = cc_logical_type o' \<and> cc_video c = cc_video o' \<and> cc_audio c = cc_audio o' \<and>
     cc_tensor c = cc_tensor o' \<and> cc_memory_kind c = cc_memory_kind o' \<and>
     cc_device_id c = cc_device_id o' \<and> cc_sync_policy c = cc_sync_policy o'"

record preference_set =
  ps_ordered :: "(string \<times> format_set) list"
  ps_memory_kind :: "MemoryKind option"
  ps_device_id :: "int option"
  ps_sync_policy :: "SyncPolicy option"

record capability_conflict =
  cf_dimension :: string
  cf_lhs_json :: string
  cf_rhs_json :: string
  cf_suggested_converter :: string
  cf_consumers :: "string list"

subsection \<open>JSON renderings\<close>

definition RangeJson :: "int_range \<Rightarrow> json" where
  "RangeJson r = JObj [(''max'', JInt (rg_max r)), (''min'', JInt (rg_min r))]"

definition RationalRangeJson :: "rational_range \<Rightarrow> json" where
  "RationalRangeJson r = JObj [(''max'', JNum (rg_max r)), (''min'', JNum (rg_min r))]"

definition Conflict_ToJson :: "capability_conflict \<Rightarrow> json" where
  "Conflict_ToJson c = json_members
     [Some (''dimension'', JStr (cf_dimension c)), Some (''output'', JStr (cf_lhs_json c)),
      Some (''input'', JStr (cf_rhs_json c)),
      if cf_suggested_converter c \<noteq> [] then Some (''suggested_converter'', JStr (cf_suggested_converter c)) else None,
      if cf_consumers c \<noteq> [] then Some (''consumers'', StringsJson (cf_consumers c)) else None]"

definition Contract_ToJson :: "connection_contract \<Rightarrow> json" where
  "Contract_ToJson c = json_members
     [Some (''logical_type'', JStr (cc_logical_type c)),
      map_option (\<lambda>v. (''video'', json_members
        [Some (''pixel_format'', JStr (sv_pixel_format v)),
         map_option (\<lambda>r. (''width'', RangeJson r)) (sv_width v),
         map_option (\<lambda>r. (''height'', RangeJson r)) (sv_height v),
         map_option (\<lambda>r. (''fps'', RationalRangeJson r)) (sv_fps v),
         map_option (\<lambda>s. (''color_space'', JStr s)) (sv_color_space v),
         map_option (\<lambda>s. (''color_range'', JStr s)) (sv_color_range v),
         map_option (\<lambda>s. (''hdr_mode'', JStr s)) (sv_hdr_mode v)])) (cc_video c),
      map_option (\<lambda>a. (''audio'', json_members
        [Some (''sample_format'', JStr (sa_sample_format a)),
         map_option (\<lambda>r. (''sample_rate'', RangeJson r)) (sa_sample_rate a),
         map_option (\<lambda>s. (''channel_layout'', JStr s)) (sa_channel_layout a)])) (cc_audio c),
      map_option (\<lambda>t. (''tensor'', json_members
        [Some (''dtype'', JStr (stn_dtype t)), map_option (\<lambda>s. (''layout'', JStr s)) (stn_layout t),
         Some (''shape'', JArr (map RangeJson (stn_shape t)))])) (cc_tensor c),
      Some (''memory_kind'', JStr (MemoryKind_ToString (cc_memory_kind c))),
      Some (''device_id'', JInt (cc_device_id c)),
      Some (''sync_policy'', JStr (SyncPolicy_ToString (cc_sync_policy c))),
      Some (''source_capability'', JInt (sint (cc_source_capability c))),
      Some (''target_capability'', JInt (sint (cc_target_capability c)))]"

definition PreferenceSet_Hash :: "fp_ops \<Rightarrow> preference_set \<Rightarrow> 64 word" where
  "PreferenceSet_Hash fp p = Fnv1a (Serialize fp (json_members
     (map (\<lambda>(k, v). Some (k, StringsJson v)) (ps_ordered p) @
      [map_option (\<lambda>m. (''memory_kind'', JStr (MemoryKind_ToString m))) (ps_memory_kind p),
       map_option (\<lambda>d. (''device_id'', JInt d)) (ps_device_id p),
       map_option (\<lambda>s. (''sync_policy'', JStr (SyncPolicy_ToString s))) (ps_sync_policy p)]))) fnv_seed"

end
