(* ===== verification/Edge_Channel.thy ===== *)
theory Edge_Channel
  imports Packet Capability "HOL-Library.Sublist"
begin

section \<open>Edge channels\<close>

text \<open>
  Models \<open>include/ge/cpp/edge_channel.h\<close> and \<open>src/edge_channel.cpp\<close>: the bounded ring of packet
  references between two nodes, its drop policies, its state (active, backpressured, draining,
  retired) and its counters. \<open>head_\<close> and \<open>size_\<close> are 32-bit: their sum wraps (\<open>u32\<close>) before it is
  reduced modulo the length of the ring. An operation is the atomic composition of the code's steps;
  \<open>Push\<close> is in addition given as its two steps, the unlocked state test \<open>Push_load\<close> and the locked
  part \<open>Push_locked\<close>, which other threads' operations may separate.
\<close>

datatype EdgeState = kActive | kBackpressured | kDraining | kRetired

fun EdgeState_ToString :: "EdgeState \<Rightarrow> string" where
  "EdgeState_ToString kActive = ''active''"
| "EdgeState_ToString kBackpressured = ''backpressured''"
| "EdgeState_ToString kDraining = ''draining''"
| "EdgeState_ToString kRetired = ''retired''"

record edge_config =
  ecf_capacity :: nat
  ecf_policy :: DropPolicy
  ecf_sync_policy :: SyncPolicy

record edge_metrics =
  em_queue_depth :: nat
  em_max_depth :: nat
  em_pushed :: nat
  em_popped :: nat
  em_drop_count :: nat
  em_would_block_count :: nat
  em_cancelled_count :: nat

datatype PushOutcome =
    kAccepted
  | kAcceptedDroppedOldest
  | kDroppedNewest
  | kWouldBlock
  | kCancelled

record edge_channel =
  ec_id :: nat
  ec_external_id :: string
  ec_contract :: connection_contract
  ec_config :: edge_config
  ec_from :: port_ref
  ec_to :: port_ref
  ec_state :: EdgeState
  ec_metrics :: edge_metrics
  ec_producer :: "nat option"
  ec_consumer :: "nat option"
  ec_ring :: "packet_ref list"
  ec_head :: nat
  ec_size :: nat

definition EdgeChannel_new ::
  "nat \<Rightarrow> string \<Rightarrow> connection_contract \<Rightarrow> edge_config \<Rightarrow> port_ref \<Rightarrow> port_ref \<Rightarrow> edge_channel" where
  "EdgeChannel_new i ext contract config from' to' =
     (let ring = replicate (max (ecf_capacity config) 1) None in
      \<lparr>ec_id = i, ec_external_id = ext, ec_contract = contract,
       ec_config = config\<lparr>ecf_capacity := u32 (length ring)\<rparr>, ec_from = from', ec_to = to',
       ec_state = kActive,
       ec_metrics = \<lparr>em_queue_depth = 0, em_max_depth = 0, em_pushed = 0, em_popped = 0,
                     em_drop_count = 0, em_would_block_count = 0, em_cancelled_count = 0\<rparr>,
       ec_producer = None, ec_consumer = None, ec_ring = ring, ec_head = 0, ec_size = 0\<rparr>)"

definition EdgeChannel_Bind :: "nat option \<Rightarrow> nat option \<Rightarrow> edge_channel \<Rightarrow> edge_channel" where
  "EdgeChannel_Bind p c ch = ch\<lparr>ec_producer := p, ec_consumer := c\<rparr>"

abbreviation upd_metrics :: "(edge_metrics \<Rightarrow> edge_metrics) \<Rightarrow> edge_channel \<Rightarrow> edge_channel" where
  "upd_metrics f ch \<equiv> ch\<lparr>ec_metrics := f (ec_metrics ch)\<rparr>"

definition depth :: "edge_channel \<Rightarrow> nat" where
  "depth ch = em_queue_depth (ec_metrics ch)"

definition chan_empty :: "edge_channel \<Rightarrow> bool" where
  "chan_empty ch \<longleftrightarrow> depth ch = 0"

definition chan_full :: "edge_channel \<Rightarrow> bool" where
  "chan_full ch \<longleftrightarrow> depth ch \<ge> ecf_capacity (ec_config ch)"

definition MarkDraining :: "edge_channel \<Rightarrow> edge_channel" where
  "MarkDraining ch =
     (if ec_state ch = kActive \<or> ec_state ch = kBackpressured then ch\<lparr>ec_state := kDraining\<rparr> else ch)"

definition MarkRetired :: "bool \<Rightarrow> edge_channel \<Rightarrow> edge_channel" where
  "MarkRetired fast ch =
     (if \<not> fast then ch\<lparr>ec_state := kRetired\<rparr>
      else upd_metrics (\<lambda>m. m\<lparr>em_queue_depth := 0\<rparr>)
             (ch\<lparr>ec_state := kRetired, ec_ring := map (\<lambda>_. None) (ec_ring ch), ec_head := 0, ec_size := 0\<rparr>))"

definition BumpDepth :: "nat \<Rightarrow> edge_metrics \<Rightarrow> edge_metrics" where
  "BumpDepth d m =
     m\<lparr>em_queue_depth := d, em_max_depth := (if d > em_max_depth m then d else em_max_depth m)\<rparr>"

definition TailHasEos :: "edge_channel \<Rightarrow> bool" where
  "TailHasEos ch \<longleftrightarrow>
     ec_size ch \<noteq> 0 \<and>
     eos_ref (ec_ring ch ! (u32 (ec_head ch + ec_size ch - 1) mod length (ec_ring ch)))"

definition PushLocked :: "packet_ref \<Rightarrow> edge_channel \<Rightarrow> edge_channel" where
  "PushLocked p ch =
     (let n = length (ec_ring ch); sz = u32 (ec_size ch + 1) in
      upd_metrics (\<lambda>m. BumpDepth sz (m\<lparr>em_pushed := u64 (em_pushed m + 1)\<rparr>))
        (ch\<lparr>ec_ring := (ec_ring ch)[u32 (ec_head ch + ec_size ch) mod n := p], ec_size := sz\<rparr>))"

text \<open>The scan for a victim: past the queued EOS markers.\<close>

function scan_eos :: "packet_ref list \<Rightarrow> nat \<Rightarrow> nat \<Rightarrow> nat \<Rightarrow> nat \<times> nat" where
  "scan_eos ring sz victim scanned =
     (if scanned < sz \<and> eos_ref (ring ! victim)
      then scan_eos ring sz (u32 (victim + 1) mod u32 (length ring)) (scanned + 1)
      else (victim, scanned))"
  by auto
termination by (relation "measure (\<lambda>(ring, sz, victim, scanned). sz - scanned)") auto

declare scan_eos.simps [simp del]

text \<open>The shift of the tail over the victim, at most once round the ring.\<close>

fun shift_left :: "nat \<Rightarrow> nat \<Rightarrow> nat \<Rightarrow> packet_ref list \<Rightarrow> packet_ref list" where
  "shift_left 0 i tail ring = ring"
| "shift_left (Suc k) i tail ring =
     (if i = tail then ring
      else
        let j = u32 (i + 1) mod length ring in
        shift_left k (u32 (i + 1) mod u32 (length ring)) tail (ring[i := ring ! j, j := None]))"

definition evict :: "nat \<Rightarrow> edge_channel \<Rightarrow> edge_channel" where
  "evict victim ch =
     (let n = length (ec_ring ch); hd' = ec_head ch;
          tail = u32 (hd' + ec_size ch - 1) mod n in
      if victim = hd' then
        ch\<lparr>ec_ring := (ec_ring ch)[hd' := None], ec_head := u32 (hd' + 1) mod u32 n,
           ec_size := ec_size ch - 1\<rparr>
      else
        ch\<lparr>ec_ring := (shift_left n victim tail (ec_ring ch))[tail := None], ec_size := ec_size ch - 1\<rparr>)"

definition would_block :: "edge_channel \<Rightarrow> edge_channel" where
  "would_block ch =
     upd_metrics (\<lambda>m. m\<lparr>em_would_block_count := u64 (em_would_block_count m + 1)\<rparr>)
       (if ec_state ch = kActive then ch\<lparr>ec_state := kBackpressured\<rparr> else ch)"

definition cancel_push :: "edge_channel \<Rightarrow> edge_channel" where
  "cancel_push ch = upd_metrics (\<lambda>m. m\<lparr>em_cancelled_count := u64 (em_cancelled_count m + 1)\<rparr>) ch"

definition count_drop :: "edge_channel \<Rightarrow> edge_channel" where
  "count_drop ch = upd_metrics (\<lambda>m. m\<lparr>em_drop_count := u64 (em_drop_count m + 1)\<rparr>) ch"

definition closed_state :: "EdgeState \<Rightarrow> bool" where
  "closed_state s \<longleftrightarrow> s = kDraining \<or> s = kRetired"

text \<open>The unlocked state test of \<open>Push\<close>: \<open>None\<close> continues to the lock.\<close>

definition Push_load :: "edge_channel \<Rightarrow> PushOutcome option \<times> edge_channel" where
  "Push_load ch = (if closed_state (ec_state ch) then (Some kCancelled, cancel_push ch) else (None, ch))"

definition Push_locked :: "packet_ref \<Rightarrow> edge_channel \<Rightarrow> PushOutcome \<times> edge_channel" where
  "Push_locked p ch =
     (let eos = eos_ref p in
      if closed_state (ec_state ch) then (kCancelled, cancel_push ch)
      else if eos \<and> TailHasEos ch then (kAccepted, ch)
      else if ec_size ch < length (ec_ring ch) then (kAccepted, PushLocked p ch)
      else if eos then (kWouldBlock, would_block ch)
      else case ecf_policy (ec_config ch) of
             kDropNewest \<Rightarrow> (kDroppedNewest, count_drop ch)
           | kDropOldest \<Rightarrow>
               (let (victim, scanned) = scan_eos (ec_ring ch) (ec_size ch) (ec_head ch) 0 in
                if scanned = ec_size ch then (kDroppedNewest, count_drop ch)
                else (kAcceptedDroppedOldest, PushLocked p (count_drop (evict victim ch))))
           | kBlock \<Rightarrow> (kWouldBlock, would_block ch))"

definition Push :: "packet_ref \<Rightarrow> edge_channel \<Rightarrow> PushOutcome \<times> edge_channel" where
  "Push p ch =
     (case Push_load ch of (Some o', ch') \<Rightarrow> (o', ch') | (None, ch') \<Rightarrow> Push_locked p ch')"

definition InjectEos :: "packet_ref \<Rightarrow> edge_channel \<Rightarrow> PushOutcome \<times> edge_channel" where
  "InjectEos p ch =
     (if ec_state ch = kRetired then (kCancelled, ch)
      else if TailHasEos ch then (kAccepted, ch)
      else if ec_size ch \<ge> length (ec_ring ch) then (kWouldBlock, ch)
      else (kAccepted, PushLocked p ch))"

definition Pop :: "edge_channel \<Rightarrow> packet_ref option \<times> edge_channel" where
  "Pop ch =
     (if ec_size ch = 0 then (None, ch)
      else
        let n = length (ec_ring ch); hd' = ec_head ch; sz = ec_size ch - 1 in
        (Some (ec_ring ch ! hd'),
         upd_metrics (\<lambda>m. m\<lparr>em_popped := u64 (em_popped m + 1), em_queue_depth := sz\<rparr>)
           (ch\<lparr>ec_ring := (ec_ring ch)[hd' := None], ec_head := u32 (hd' + 1) mod u32 n,
               ec_size := sz\<rparr>)))"

definition Peek :: "edge_channel \<Rightarrow> packet_ref" where
  "Peek ch = (if ec_size ch = 0 then None else ec_ring ch ! ec_head ch)"

definition ClearBackpressure :: "edge_channel \<Rightarrow> bool \<times> edge_channel" where
  "ClearBackpressure ch =
     (if chan_full ch then (False, ch)
      else if ec_state ch = kBackpressured then (True, ch\<lparr>ec_state := kActive\<rparr>)
      else (False, ch))"

definition MarkBackpressured :: "edge_channel \<Rightarrow> bool \<times> edge_channel" where
  "MarkBackpressured ch =
     (if ec_state ch = kDraining \<or> ec_state ch = kRetired then (False, ch)
      else
        let ch1 = (if ec_state ch = kActive
                   then upd_metrics (\<lambda>m. m\<lparr>em_would_block_count := u64 (em_would_block_count m + 1)\<rparr>)
                          (ch\<lparr>ec_state := kBackpressured\<rparr>)
                   else ch) in
        if chan_full ch1 then (True, ch1) else (False, snd (ClearBackpressure ch1)))"

subsection \<open>The ring as a queue\<close>

text \<open>The queued packets, oldest first.\<close>

definition contents :: "edge_channel \<Rightarrow> packet_ref list" where
  "contents ch = map (\<lambda>i. ec_ring ch ! ((ec_head ch + i) mod length (ec_ring ch))) [0..<ec_size ch]"

text \<open>The invariant: the capacity is the length of the ring and at most \<open>2^31\<close> (beyond it the 32-bit sum
  of head and size wraps), the counters of the ring are in range, the slots outside the queue are
  empty, and the published depth is the size.\<close>

definition chan_wf :: "edge_channel \<Rightarrow> bool" where
  "chan_wf ch \<longleftrightarrow>
     (let n = length (ec_ring ch); m = ec_metrics ch in
      0 < n \<and> n \<le> 2147483648 \<and> ecf_capacity (ec_config ch) = n \<and> ec_head ch < n \<and> ec_size ch \<le> n \<and>
      (\<forall>i<n. ec_size ch \<le> i \<longrightarrow> ec_ring ch ! ((ec_head ch + i) mod n) = None) \<and>
      em_queue_depth m = ec_size ch \<and> ec_size ch \<le> em_max_depth m \<and> em_max_depth m \<le> n)"

lemma length_contents [simp]: "length (contents ch) = ec_size ch"
  by (simp add: contents_def)

lemma nth_contents: "i < ec_size ch \<Longrightarrow> contents ch ! i = ec_ring ch ! ((ec_head ch + i) mod length (ec_ring ch))"
  by (simp add: contents_def)

lemma contents_eqI:
  "ec_size ch = length q \<Longrightarrow>
   (\<And>i. i < length q \<Longrightarrow> ec_ring ch ! ((ec_head ch + i) mod length (ec_ring ch)) = q ! i) \<Longrightarrow> contents ch = q"
  by (rule nth_equalityI) (simp_all add: nth_contents)

lemma slot_inj_le:
  assumes "(h + i) mod n = (h + j) mod n" "i \<le> j" "j < (n :: nat)"
  shows "i = j"
proof -
  have "n dvd (h + j) - (h + i)"
    using assms by (subst mod_eq_dvd_iff_nat [symmetric]) simp_all
  then have "n dvd j - i" by simp
  then show ?thesis using assms(2,3) by (auto dest: dvd_imp_le)
qed

lemma slot_inj: "(h + i) mod n = (h + j) mod n \<Longrightarrow> i < n \<Longrightarrow> j < n \<Longrightarrow> i = (j :: nat)"
  by (cases "i \<le> j") (auto dest: slot_inj_le slot_inj_le [OF sym])

lemma slot_eq_iff: "i < n \<Longrightarrow> j < n \<Longrightarrow> (h + i) mod n = (h + j) mod n \<longleftrightarrow> i = (j :: nat)"
  by (auto dest: slot_inj)

lemma slot_lt [simp]: "0 < n \<Longrightarrow> x mod n < (n :: nat)"
  by simp

lemma chan_wfD:
  assumes "chan_wf ch"
  shows "0 < length (ec_ring ch)" "length (ec_ring ch) \<le> 2147483648"
    "ec_head ch < length (ec_ring ch)" "ec_size ch \<le> length (ec_ring ch)"
    "ecf_capacity (ec_config ch) = length (ec_ring ch)" "em_queue_depth (ec_metrics ch) = ec_size ch"
    "length (ec_ring ch) < 4294967296" "ec_head ch + ec_size ch < 4294967296"
    "ec_size ch + 1 < 4294967296" "ec_head ch + 1 < 4294967296"
  using assms by (simp_all add: chan_wf_def Let_def)

lemma slot_u32 [simp]: "chan_wf ch \<Longrightarrow> u32 (ec_head ch + ec_size ch) = ec_head ch + ec_size ch"
  "chan_wf ch \<Longrightarrow> u32 (ec_head ch + ec_size ch - 1) = ec_head ch + ec_size ch - 1"
  "chan_wf ch \<Longrightarrow> u32 (ec_size ch + 1) = ec_size ch + 1"
  "chan_wf ch \<Longrightarrow> u32 (ec_head ch + 1) = ec_head ch + 1"
  "chan_wf ch \<Longrightarrow> u32 (length (ec_ring ch)) = length (ec_ring ch)"
  "chan_wf ch \<Longrightarrow> u32 (ec_head ch + ec_size ch - Suc 0) = ec_head ch + ec_size ch - Suc 0"
  "chan_wf ch \<Longrightarrow> u32 (Suc (ec_size ch)) = Suc (ec_size ch)"
  "chan_wf ch \<Longrightarrow> u32 (Suc (ec_head ch)) = Suc (ec_head ch)"
  using chan_wfD [of ch] by auto

lemma TailHasEos_eq: "chan_wf ch \<Longrightarrow> TailHasEos ch \<longleftrightarrow> contents ch \<noteq> [] \<and> eos_ref (last (contents ch))"
proof -
  assume wf: "chan_wf ch"
  show ?thesis
  proof (cases "ec_size ch")
    case (Suc k)
    then have "last (contents ch) = ec_ring ch ! ((ec_head ch + k) mod length (ec_ring ch))"
      by (metis diff_Suc_1 last_conv_nth length_contents lessI list.size(3) nat.distinct(1) nth_contents)
    moreover have "contents ch \<noteq> []" using Suc by (metis length_contents list.size(3) nat.distinct(1))
    moreover have "u32 (ec_head ch + k) = ec_head ch + k" using chan_wfD(8) [OF wf] Suc by simp
    ultimately show ?thesis using Suc by (simp add: TailHasEos_def)
  qed (simp add: TailHasEos_def contents_def)
qed

lemma PushLocked_queue:
  assumes wf: "chan_wf ch" and room: "ec_size ch < length (ec_ring ch)"
  shows "chan_wf (PushLocked p ch)" and "contents (PushLocked p ch) = contents ch @ [p]"
proof -
  let ?n = "length (ec_ring ch)" and ?h = "ec_head ch" and ?s = "ec_size ch"
  have ring: "ec_ring (PushLocked p ch) = (ec_ring ch)[(?h + ?s) mod ?n := p]"
    and hs: "ec_head (PushLocked p ch) = ?h" "ec_size (PushLocked p ch) = ?s + 1"
    using wf by (simp_all add: PushLocked_def Let_def del: One_nat_def)
  have nth: "ec_ring (PushLocked p ch) ! ((?h + i) mod ?n) =
      (if i = ?s then p else ec_ring ch ! ((?h + i) mod ?n))" if "i < ?n" for i
    using that room chan_wfD(1) [OF wf] by (auto simp: ring nth_list_update slot_eq_iff)
  have "(\<forall>i<?n. ?s + 1 \<le> i \<longrightarrow> ec_ring (PushLocked p ch) ! ((?h + i) mod ?n) = None)"
    using nth wf by (auto simp: chan_wf_def Let_def)
  moreover have "ec_metrics (PushLocked p ch) =
      BumpDepth (?s + 1) ((ec_metrics ch)\<lparr>em_pushed := u64 (em_pushed (ec_metrics ch) + 1)\<rparr>)"
    "ec_config (PushLocked p ch) = ec_config ch" "length (ec_ring (PushLocked p ch)) = ?n"
    using wf by (simp_all add: PushLocked_def Let_def del: One_nat_def)
  ultimately show "chan_wf (PushLocked p ch)"
    using wf room by (auto simp: chan_wf_def Let_def hs BumpDepth_def)
  show "contents (PushLocked p ch) = contents ch @ [p]"
    using nth room by (intro contents_eqI) (auto simp: hs ring nth_append nth_contents)
qed

lemma head_step: "h < n \<Longrightarrow> (u32 (h + 1) mod n + i) mod n = (h + Suc i) mod n" if "n \<le> 2147483648" for h n i :: nat
proof -
  assume "h < n"
  then have "u32 (h + 1) = h + 1" using that by simp
  then show ?thesis by (simp add: mod_simps)
qed

lemma chan_wf_free:
  "chan_wf ch \<Longrightarrow> i < length (ec_ring ch) \<Longrightarrow> ec_size ch \<le> i \<Longrightarrow>
     ec_ring ch ! ((ec_head ch + i) mod length (ec_ring ch)) = None"
  by (simp add: chan_wf_def Let_def)

lemma drop_head_queue:
  assumes wf: "chan_wf ch" and ne: "ec_size ch \<noteq> 0"
    and ring: "ec_ring ch' = (ec_ring ch)[ec_head ch := None]"
    and hd: "ec_head ch' = u32 (ec_head ch + 1) mod u32 (length (ec_ring ch))" and sz: "ec_size ch' = ec_size ch - 1"
    and frame: "ec_config ch' = ec_config ch" "em_queue_depth (ec_metrics ch') = ec_size ch - 1"
      "em_max_depth (ec_metrics ch') = em_max_depth (ec_metrics ch)"
  shows "chan_wf ch' \<and> contents ch' = tl (contents ch)"
proof -
  let ?n = "length (ec_ring ch)" and ?h = "ec_head ch" and ?s = "ec_size ch"
  note d = chan_wfD [OF wf]
  have n: "u32 ?n = ?n" using wf by simp
  have idx: "(ec_head ch' + i) mod ?n = (?h + Suc i) mod ?n" for i
    using head_step [OF d(2,3)] by (simp add: hd n)
  have nth: "ec_ring ch' ! ((ec_head ch' + i) mod ?n) =
      (if Suc i = ?n then None else ec_ring ch ! ((?h + Suc i) mod ?n))" if "i < ?n" for i
  proof (cases "Suc i = ?n")
    case True
    then show ?thesis using d(3) by (simp add: idx ring)
  next
    case False
    then have "(?h + Suc i) mod ?n \<noteq> (?h + 0) mod ?n"
      using that by (subst slot_eq_iff) auto
    then show ?thesis using False d(3) by (simp add: idx ring)
  qed
  have "\<forall>i<?n. ?s - 1 \<le> i \<longrightarrow> ec_ring ch' ! ((ec_head ch' + i) mod ?n) = None"
  proof (intro allI impI)
    fix i assume i: "i < ?n" "?s - 1 \<le> i"
    show "ec_ring ch' ! ((ec_head ch' + i) mod ?n) = None"
    proof (cases "Suc i = ?n")
      case False
      then have "Suc i < ?n" "?s \<le> Suc i" using i by auto
      then have "ec_ring ch ! ((?h + Suc i) mod ?n) = None" using chan_wf_free [OF wf] by blast
      then show ?thesis using False i(1) by (simp add: nth)
    qed (use i(1) in \<open>simp add: nth\<close>)
  qed
  then have "chan_wf ch'"
    using wf ne frame sz by (auto simp: chan_wf_def Let_def ring hd)
  moreover have "contents ch' = tl (contents ch)"
    using ne d(4) nth by (intro contents_eqI) (auto simp: sz ring nth_tl nth_contents)
  ultimately show ?thesis by simp
qed

lemma Pop_empty: "chan_wf ch \<Longrightarrow> contents ch = [] \<Longrightarrow> Pop ch = (None, ch)"
  by (simp add: Pop_def flip: length_0_conv)

lemma Pop_queue:
  assumes wf: "chan_wf ch" and ne: "contents ch \<noteq> []"
  shows "fst (Pop ch) = Some (hd (contents ch))" and "chan_wf (snd (Pop ch))"
    and "contents (snd (Pop ch)) = tl (contents ch)"
proof -
  have s: "ec_size ch \<noteq> 0" using ne by (simp flip: length_contents)
  have "hd (contents ch) = ec_ring ch ! ((ec_head ch + 0) mod length (ec_ring ch))"
    using s by (metis hd_conv_nth ne nth_contents neq0_conv)
  then show "fst (Pop ch) = Some (hd (contents ch))"
    using s chan_wfD(3) [OF wf] by (simp add: Pop_def Let_def)
  have "chan_wf (snd (Pop ch)) \<and> contents (snd (Pop ch)) = tl (contents ch)"
    using wf s by (rule drop_head_queue) (use s in \<open>simp_all add: Pop_def Let_def\<close>)
  then show "chan_wf (snd (Pop ch))" "contents (snd (Pop ch)) = tl (contents ch)" by auto
qed

lemma Peek_queue:
  assumes "chan_wf ch"
  shows "Peek ch = (case contents ch of [] \<Rightarrow> None | p # _ \<Rightarrow> p)"
proof (cases "ec_size ch")
  case (Suc k)
  then have "contents ch \<noteq> []" by (metis length_contents list.size(3) nat.distinct(1))
  moreover have "contents ch ! 0 = ec_ring ch ! ec_head ch"
    using Suc chan_wfD(3) [OF assms] by (simp add: nth_contents)
  ultimately show ?thesis using Suc by (cases "contents ch") (auto simp: Peek_def)
qed (simp add: Peek_def contents_def)

lemma scan_eos_queue:
  assumes wf: "chan_wf ch" and k: "k \<le> ec_size ch"
  shows "scan_eos (ec_ring ch) (ec_size ch) ((ec_head ch + k) mod length (ec_ring ch)) k =
    (let j = k + length (takeWhile eos_ref (drop k (contents ch)))
     in ((ec_head ch + j) mod length (ec_ring ch), j))"
  using k
proof (induction "ec_size ch - k" arbitrary: k)
  case 0
  then show ?case by (simp add: scan_eos.simps)
next
  case (Suc m)
  let ?n = "length (ec_ring ch)" and ?h = "ec_head ch"
  note d = chan_wfD [OF wf]
  have lt: "k < ec_size ch" using Suc.hyps(2) by simp
  then have dr: "drop k (contents ch) = ec_ring ch ! ((?h + k) mod ?n) # drop (Suc k) (contents ch)"
    by (metis Cons_nth_drop_Suc length_contents nth_contents)
  have x: "(?h + k) mod ?n < ?n" using d(1) by simp
  have nx: "u32 ((?h + k) mod ?n + 1) mod u32 ?n = (?h + (k + 1)) mod ?n"
    using head_step [OF d(2) x, of 0] wf by (simp add: mod_simps)
  show ?case
  proof (cases "eos_ref (ec_ring ch ! ((?h + k) mod ?n))")
    case True
    have "scan_eos (ec_ring ch) (ec_size ch) ((?h + k) mod ?n) k =
        scan_eos (ec_ring ch) (ec_size ch) ((?h + (k + 1)) mod ?n) (k + 1)"
      using True lt nx by (subst scan_eos.simps) simp
    also have "\<dots> = (let j = k + 1 + length (takeWhile eos_ref (drop (k + 1) (contents ch)))
        in ((?h + j) mod ?n, j))"
      using Suc.hyps(2) lt by (intro Suc.hyps(1)) auto
    finally show ?thesis using True by (simp add: dr)
  next
    case False
    then show ?thesis by (simp add: dr scan_eos.simps)
  qed
qed

lemma shift_left_queue:
  assumes "0 < n" "n \<le> 2147483648" "h < n" "s \<le> n" "k < s" "s - 1 - k \<le> fuel" "length ring = n"
  shows "length (shift_left fuel ((h + k) mod n) ((h + (s - 1)) mod n) ring) = n \<and>
    (\<forall>j<n. shift_left fuel ((h + k) mod n) ((h + (s - 1)) mod n) ring ! ((h + j) mod n) =
      (if k \<le> j \<and> j < s - 1 then ring ! ((h + Suc j) mod n)
       else if j = s - 1 \<and> k < s - 1 then None else ring ! ((h + j) mod n)))"
  using assms(5-)
proof (induction fuel arbitrary: k ring)
  case 0
  then show ?case by auto
next
  case (Suc fuel)
  show ?case
  proof (cases "k = s - 1")
    case True
    then show ?thesis using Suc.prems by auto
  next
    case False
    let ?i = "(h + k) mod n" and ?j = "(h + Suc k) mod n"
    let ?ring = "ring[?i := ring ! ?j, ?j := None]"
    have ne: "?i \<noteq> (h + (s - 1)) mod n"
      using False Suc.prems(1) assms(4) by (subst slot_eq_iff) auto
    have st: "u32 (?i + 1) mod n = ?j" "u32 n = n"
      using head_step [OF assms(2), of ?i 0] assms(1,2) by (auto simp: mod_simps)
    have step: "shift_left (Suc fuel) ?i ((h + (s - 1)) mod n) ring =
        shift_left fuel ?j ((h + (s - 1)) mod n) ?ring"
      using ne st Suc.prems(3) by (simp add: Let_def)
    have k: "Suc k < s" "s - 1 - Suc k \<le> fuel" "length ?ring = n" using False Suc.prems by auto
    have nth: "?ring ! ((h + j) mod n) = (if j = k then ring ! ?j else if j = Suc k then None else ring ! ((h + j) mod n))"
      if "j < n" for j
    proof -
      have e: "?i = (h + j) mod n \<longleftrightarrow> j = k" "?j = (h + j) mod n \<longleftrightarrow> j = Suc k" "?i < length ring" "?j < length ring"
        using that k(1) assms(1,4) Suc.prems(3) slot_eq_iff [of k n j h] slot_eq_iff [of "Suc k" n j h] by auto
      show ?thesis
        by (simp only: nth_list_update e length_list_update) auto
    qed
    show ?thesis unfolding step
    proof (intro conjI allI impI)
      show "length (shift_left fuel ?j ((h + (s - 1)) mod n) ?ring) = n"
        using Suc.IH [OF k] by simp
      fix j assume j: "j < n"
      have "shift_left fuel ?j ((h + (s - 1)) mod n) ?ring ! ((h + j) mod n) =
        (if Suc k \<le> j \<and> j < s - 1 then ?ring ! ((h + Suc j) mod n)
         else if j = s - 1 \<and> Suc k < s - 1 then None else ?ring ! ((h + j) mod n))"
        using Suc.IH [OF k] j by blast
      then show "shift_left fuel ?j ((h + (s - 1)) mod n) ?ring ! ((h + j) mod n) =
        (if k \<le> j \<and> j < s - 1 then ring ! ((h + Suc j) mod n)
         else if j = s - 1 \<and> k < s - 1 then None else ring ! ((h + j) mod n))"
        using k(1) j assms(4) nth [of j] nth [of "Suc j"] by (auto simp del: nth_list_update)
    qed
  qed
qed

abbreviation set_depth :: "nat \<Rightarrow> edge_channel \<Rightarrow> edge_channel" where
  "set_depth d \<equiv> upd_metrics (\<lambda>m. m\<lparr>em_queue_depth := d\<rparr>)"

lemma PushLocked_depth: "PushLocked p (set_depth d ch) = PushLocked p ch"
  by (simp add: PushLocked_def BumpDepth_def Let_def)

lemma length_shift_left [simp]: "length (shift_left k i t ring) = length ring"
  by (induction k i t ring rule: shift_left.induct) (simp_all add: Let_def)

lemma evict_queue:
  assumes wf: "chan_wf ch" and k: "k < ec_size ch"
  defines "ch' \<equiv> set_depth (ec_size ch - 1) (count_drop (evict ((ec_head ch + k) mod length (ec_ring ch)) ch))"
  shows "chan_wf ch' \<and> contents ch' = take k (contents ch) @ drop (Suc k) (contents ch)"
proof (cases "k = 0")
  case True
  have "chan_wf ch' \<and> contents ch' = tl (contents ch)"
    using wf _ by (rule drop_head_queue)
      (use True k chan_wfD(3) [OF wf] in \<open>simp_all add: ch'_def evict_def count_drop_def Let_def\<close>)
  then show ?thesis using True by (simp add: drop_Suc)
next
  case False
  let ?n = "length (ec_ring ch)" and ?h = "ec_head ch" and ?s = "ec_size ch"
  note d = chan_wfD [OF wf]
  have "(?h + k) mod ?n \<noteq> (?h + 0) mod ?n" using False k d(4) by (subst slot_eq_iff) auto
  then have ne: "(?h + k) mod ?n \<noteq> ?h" using d(3) by simp
  have tail: "u32 (?h + ?s - 1) mod ?n = (?h + (?s - 1)) mod ?n" using wf k by (simp add: Suc_le_eq)
  let ?r = "shift_left ?n ((?h + k) mod ?n) ((?h + (?s - 1)) mod ?n) (ec_ring ch)"
  have f: "ec_ring ch' = ?r[(?h + (?s - 1)) mod ?n := None]" "ec_head ch' = ?h" "ec_size ch' = ?s - 1"
    "ec_config ch' = ec_config ch" "em_queue_depth (ec_metrics ch') = ?s - 1"
    "em_max_depth (ec_metrics ch') = em_max_depth (ec_metrics ch)"
    using ne tail by (simp_all add: ch'_def evict_def count_drop_def Let_def)
  have sl: "length ?r = ?n" "\<And>j. j < ?n \<Longrightarrow> ?r ! ((?h + j) mod ?n) =
      (if k \<le> j \<and> j < ?s - 1 then ec_ring ch ! ((?h + Suc j) mod ?n)
       else if j = ?s - 1 \<and> k < ?s - 1 then None else ec_ring ch ! ((?h + j) mod ?n))"
    using shift_left_queue [OF d(1,2,3,4) k, of ?n "ec_ring ch"] d(4) by auto
  have len: "length (ec_ring ch') = ?n" by (simp add: f(1))
  have nth: "ec_ring ch' ! ((?h + j) mod ?n) =
      (if j = ?s - 1 then None else if k \<le> j \<and> j < ?s - 1 then ec_ring ch ! ((?h + Suc j) mod ?n)
       else ec_ring ch ! ((?h + j) mod ?n))" if "j < ?n" for j
  proof -
    have "(?h + (?s - 1)) mod ?n = (?h + j) mod ?n \<longleftrightarrow> j = ?s - 1"
      using that k d(4) slot_eq_iff [of "?s - 1" ?n j ?h] by auto
    then show ?thesis using that d(1) sl(2) [OF that] by (auto simp: f nth_list_update)
  qed
  have "ec_ring ch' ! ((?h + j) mod ?n) = None" if "j < ?n" "?s - 1 \<le> j" for j
    using nth [OF that(1)] chan_wf_free [OF wf that(1)] that by auto
  then have "chan_wf ch'" using wf k by (auto simp: chan_wf_def Let_def f(2-) len)
  moreover have "contents ch' = take k (contents ch) @ drop (Suc k) (contents ch)"
    using k d(4) by (intro contents_eqI) (auto simp: f(2,3) len nth nth_append nth_contents)
  ultimately show ?thesis by simp
qed

subsection \<open>Refinement of the bounded queue with drop policies\<close>

text \<open>What \<open>Push\<close> promises on an open channel, as a function on the queue: a marker behind a marker is
  absorbed, a free slot is used, a full queue never gives up a marker, and \<open>drop_oldest\<close> evicts the
  oldest packet that is not a marker.\<close>

definition push_spec ::
  "DropPolicy \<Rightarrow> nat \<Rightarrow> packet_ref list \<Rightarrow> packet_ref \<Rightarrow> PushOutcome \<times> packet_ref list" where
  "push_spec policy cap q p =
     (if eos_ref p \<and> q \<noteq> [] \<and> eos_ref (last q) then (kAccepted, q)
      else if length q < cap then (kAccepted, q @ [p])
      else if eos_ref p then (kWouldBlock, q)
      else case policy of
             kDropNewest \<Rightarrow> (kDroppedNewest, q)
           | kDropOldest \<Rightarrow>
               (let es = takeWhile eos_ref q; rest = dropWhile eos_ref q in
                if rest = [] then (kDroppedNewest, q) else (kAcceptedDroppedOldest, es @ tl rest @ [p]))
           | kBlock \<Rightarrow> (kWouldBlock, q))"

lemma contents_frame [simp]:
  "contents (ch\<lparr>ec_metrics := m\<rparr>) = contents ch" "contents (ch\<lparr>ec_state := s\<rparr>) = contents ch"
  "contents (would_block ch) = contents ch" "contents (count_drop ch) = contents ch"
  "contents (cancel_push ch) = contents ch"
  by (simp_all add: contents_def would_block_def count_drop_def cancel_push_def)

lemma chan_wf_frame [simp]:
  "chan_wf (ch\<lparr>ec_state := s\<rparr>) = chan_wf ch" "chan_wf (would_block ch) = chan_wf ch"
  "chan_wf (count_drop ch) = chan_wf ch" "chan_wf (cancel_push ch) = chan_wf ch"
  by (simp_all add: chan_wf_def would_block_def count_drop_def cancel_push_def Let_def)

lemma Push_locked_drop_oldest:
  assumes wf: "chan_wf ch" and full: "ec_size ch = length (ec_ring ch)"
    and k: "k = length (takeWhile eos_ref (contents ch))" "k < ec_size ch"
  shows "chan_wf (PushLocked p (count_drop (evict ((ec_head ch + k) mod length (ec_ring ch)) ch)))"
    and "contents (PushLocked p (count_drop (evict ((ec_head ch + k) mod length (ec_ring ch)) ch))) =
      takeWhile eos_ref (contents ch) @ tl (dropWhile eos_ref (contents ch)) @ [p]"
proof -
  let ?e = "count_drop (evict ((ec_head ch + k) mod length (ec_ring ch)) ch)"
  let ?c = "set_depth (ec_size ch - 1) ?e"
  have e: "chan_wf ?c \<and> contents ?c = take k (contents ch) @ drop (Suc k) (contents ch)"
    using wf k(2) by (rule evict_queue)
  have sz: "ec_size ?c < length (ec_ring ?c)"
    using k(2) full by (simp add: evict_def count_drop_def Let_def)
  have "tl (dropWhile eos_ref (contents ch)) = drop (Suc k) (contents ch)"
    by (simp add: k(1) dropWhile_eq_drop drop_Suc tl_drop)
  moreover have "take k (contents ch) = takeWhile eos_ref (contents ch)"
    unfolding k(1) by (rule takeWhile_eq_take [symmetric])
  ultimately show "chan_wf (PushLocked p ?e)"
    "contents (PushLocked p ?e) = takeWhile eos_ref (contents ch) @ tl (dropWhile eos_ref (contents ch)) @ [p]"
    using PushLocked_queue [of ?c p] e sz PushLocked_depth by auto
qed


lemma takeWhile_all_iff: "length (takeWhile P xs) = length xs \<longleftrightarrow> dropWhile P xs = []"
  by (metis append_Nil2 append_eq_append_conv takeWhile_dropWhile_id)

lemma Push_locked_refines:
  assumes wf: "chan_wf ch" and open': "\<not> closed_state (ec_state ch)"
  shows "chan_wf (snd (Push_locked p ch)) \<and>
    (fst (Push_locked p ch), contents (snd (Push_locked p ch))) =
      push_spec (ecf_policy (ec_config ch)) (length (ec_ring ch)) (contents ch) p"
proof -
  let ?q = "contents ch" and ?n = "length (ec_ring ch)"
  consider (eos) "eos_ref p \<and> ?q \<noteq> [] \<and> eos_ref (last ?q)"
    | (room) "\<not> (eos_ref p \<and> ?q \<noteq> [] \<and> eos_ref (last ?q))" "ec_size ch < ?n"
    | (full) "\<not> (eos_ref p \<and> ?q \<noteq> [] \<and> eos_ref (last ?q))" "ec_size ch = ?n"
    using chan_wfD(4) [OF wf] by fastforce
  then show ?thesis
  proof cases
    case eos
    then show ?thesis using wf open' by (simp add: Push_locked_def push_spec_def TailHasEos_eq)
  next
    case room
    then show ?thesis
      using wf open' PushLocked_queue [OF wf room(2)] by (auto simp: Push_locked_def push_spec_def TailHasEos_eq)
  next
    case full
    let ?k = "length (takeWhile eos_ref ?q)"
    have scan: "scan_eos (ec_ring ch) (ec_size ch) (ec_head ch) 0 = ((ec_head ch + ?k) mod ?n, ?k)"
      using scan_eos_queue [OF wf, of 0] chan_wfD(3) [OF wf] by (simp add: Let_def)
    have all: "?k = ec_size ch \<longleftrightarrow> dropWhile eos_ref ?q = []" using takeWhile_all_iff [of eos_ref ?q] by simp
    have "?k \<le> ec_size ch" using length_takeWhile_le [of eos_ref ?q] by simp
    then have "?k < ec_size ch" if "?k \<noteq> ec_size ch" using that by simp
    note dropped = Push_locked_drop_oldest [OF wf full(2) refl this, of p]
    show ?thesis
    proof (cases "eos_ref p \<or> ecf_policy (ec_config ch) \<noteq> kDropOldest")
      case True
      then show ?thesis
        using wf open' full
        by (cases "ecf_policy (ec_config ch)") (auto simp: Push_locked_def push_spec_def TailHasEos_eq)
    next
      case False
      then have "Push_locked p ch = (if ?k = ec_size ch then (kDroppedNewest, count_drop ch)
          else (kAcceptedDroppedOldest, PushLocked p (count_drop (evict ((ec_head ch + ?k) mod ?n) ch))))"
        using open' full(2) scan by (simp add: Push_locked_def)
      moreover have "push_spec (ecf_policy (ec_config ch)) ?n ?q p =
          (if dropWhile eos_ref ?q = [] then (kDroppedNewest, ?q)
           else (kAcceptedDroppedOldest, takeWhile eos_ref ?q @ tl (dropWhile eos_ref ?q) @ [p]))"
        using False full(2) by (simp add: push_spec_def)
      ultimately show ?thesis using wf dropped all by simp
    qed
  qed
qed

lemma Push_open: "\<not> closed_state (ec_state ch) \<Longrightarrow> Push p ch = Push_locked p ch"
  by (simp add: Push_def Push_load_def)

lemma Push_closed: "closed_state (ec_state ch) \<Longrightarrow> Push p ch = (kCancelled, cancel_push ch)"
  by (simp add: Push_def Push_load_def)

lemma InjectEos_queue:
  assumes wf: "chan_wf ch"
  shows "chan_wf (snd (InjectEos p ch)) \<and>
    (fst (InjectEos p ch), contents (snd (InjectEos p ch))) =
      (if ec_state ch = kRetired then (kCancelled, contents ch)
       else if contents ch \<noteq> [] \<and> eos_ref (last (contents ch)) then (kAccepted, contents ch)
       else if length (contents ch) < length (ec_ring ch) then (kAccepted, contents ch @ [p])
       else (kWouldBlock, contents ch))"
  using wf PushLocked_queue [OF wf] by (auto simp: InjectEos_def TailHasEos_eq)

text \<open>C1. On an open channel \<open>EdgeChannel::Push\<close> refines the bounded queue with drop policies: outcome and
  queue are those of \<open>push_spec\<close>, for every ring position, and the ring stays well formed.\<close>

theorem Push_refines_spec:
  assumes "chan_wf ch" "\<not> closed_state (ec_state ch)"
  shows "chan_wf (snd (Push p ch)) \<and>
    (fst (Push p ch), contents (snd (Push p ch))) =
      push_spec (ecf_policy (ec_config ch)) (ecf_capacity (ec_config ch)) (contents ch) p"
  using Push_locked_refines [OF assms] chan_wfD(5) [OF assms(1)] by (simp add: Push_open [OF assms(2)])

text \<open>The contract a consumer of the channel relies on.\<close>

locale fifo_queue =
  fixes wf :: "'c \<Rightarrow> bool" and q :: "'c \<Rightarrow> 'a list"
    and pop :: "'c \<Rightarrow> 'a option \<times> 'c" and size_of :: "'c \<Rightarrow> nat"
  assumes pop_Nil: "wf c \<Longrightarrow> q c = [] \<Longrightarrow> pop c = (None, c)"
    and pop_Cons: "wf c \<Longrightarrow> q c = x # xs \<Longrightarrow> fst (pop c) = Some x \<and> q (snd (pop c)) = xs \<and> wf (snd (pop c))"
    and size_q: "wf c \<Longrightarrow> size_of c = length (q c)"
begin

lemma pop_wf: "wf c \<Longrightarrow> wf (snd (pop c))"
  by (cases "q c") (auto simp: pop_Nil dest: pop_Cons)

lemma pop_q: "wf c \<Longrightarrow> q (snd (pop c)) = tl (q c)"
  by (cases "q c") (auto simp: pop_Nil dest: pop_Cons)

lemma pop_result: "wf c \<Longrightarrow> fst (pop c) = (case q c of [] \<Rightarrow> None | x # _ \<Rightarrow> Some x)"
  by (cases "q c") (auto simp: pop_Nil dest: pop_Cons)

lemma pop_None_iff: "wf c \<Longrightarrow> fst (pop c) = None \<longleftrightarrow> size_of c = 0"
  by (cases "q c") (auto simp: pop_result size_q)

lemma pop_n: "wf c \<Longrightarrow> wf (((snd \<circ> pop) ^^ k) c) \<and> q (((snd \<circ> pop) ^^ k) c) = drop k (q c)"
  by (induction k) (auto simp: pop_wf pop_q drop_Suc tl_drop)

end

interpretation chan: fifo_queue chan_wf contents Pop depth
proof unfold_locales
  fix ch :: edge_channel and x xs
  assume wf: "chan_wf ch"
  show "contents ch = [] \<Longrightarrow> Pop ch = (None, ch)" using wf by (rule Pop_empty)
  show "depth ch = length (contents ch)" using chan_wfD(6) [OF wf] by (simp add: depth_def)
  show "contents ch = x # xs \<Longrightarrow>
      fst (Pop ch) = Some x \<and> contents (snd (Pop ch)) = xs \<and> chan_wf (snd (Pop ch))"
    using Pop_queue [OF wf] by simp
qed

subsection \<open>Every operation keeps the invariant\<close>

lemma EdgeChannel_new_wf:
  "ecf_capacity config \<le> 2147483648 \<Longrightarrow> chan_wf (EdgeChannel_new i ext c config f t)"
  by (auto simp: EdgeChannel_new_def chan_wf_def Let_def)

lemma EdgeChannel_new_contents [simp]: "contents (EdgeChannel_new i ext c config f t) = []"
  by (simp add: EdgeChannel_new_def contents_def Let_def)

lemma MarkDraining_frame [simp]:
  "chan_wf (MarkDraining ch) = chan_wf ch" "contents (MarkDraining ch) = contents ch"
  by (auto simp: MarkDraining_def)

lemma MarkRetired_fast:
  "chan_wf ch \<Longrightarrow> chan_wf (MarkRetired True ch)" "contents (MarkRetired True ch) = []"
  by (auto simp: MarkRetired_def chan_wf_def contents_def Let_def)

lemma MarkRetired_slow [simp]:
  "chan_wf (MarkRetired False ch) = chan_wf ch" "contents (MarkRetired False ch) = contents ch"
  by (auto simp: MarkRetired_def)

lemma MarkRetired_wf: "chan_wf ch \<Longrightarrow> chan_wf (MarkRetired b ch)"
  by (cases b) (simp_all add: MarkRetired_fast(1))

lemma ClearBackpressure_frame [simp]:
  "chan_wf (snd (ClearBackpressure ch)) = chan_wf ch" "contents (snd (ClearBackpressure ch)) = contents ch"
  by (auto simp: ClearBackpressure_def)

lemma chan_wf_would_block_count [simp]:
  "chan_wf (upd_metrics (\<lambda>m. m\<lparr>em_would_block_count := n\<rparr>) ch) = chan_wf ch"
  by (simp add: chan_wf_def Let_def)

lemma MarkBackpressured_frame [simp]:
  "chan_wf (snd (MarkBackpressured ch)) = chan_wf ch" "contents (snd (MarkBackpressured ch)) = contents ch"
proof -
  have "chan_wf (ch\<lparr>ec_state := s, ec_metrics := (ec_metrics ch)\<lparr>em_would_block_count := n\<rparr>\<rparr>) = chan_wf ch"
    "contents (ch\<lparr>ec_state := s, ec_metrics := (ec_metrics ch)\<lparr>em_would_block_count := n\<rparr>\<rparr>) = contents ch" for s n
    by (simp_all add: chan_wf_def contents_def Let_def)
  then show "chan_wf (snd (MarkBackpressured ch)) = chan_wf ch"
    "contents (snd (MarkBackpressured ch)) = contents ch"
    by (simp_all add: MarkBackpressured_def Let_def)
qed

lemma Push_locked_wf: "chan_wf ch \<Longrightarrow> chan_wf (snd (Push_locked p ch))"
  using Push_locked_refines [of ch p] by (cases "closed_state (ec_state ch)") (simp_all add: Push_locked_def)

lemma Push_wf: "chan_wf ch \<Longrightarrow> chan_wf (snd (Push p ch))"
  by (cases "closed_state (ec_state ch)") (simp_all add: Push_closed Push_open Push_locked_wf)

lemma InjectEos_wf: "chan_wf ch \<Longrightarrow> chan_wf (snd (InjectEos p ch))"
  using InjectEos_queue [of ch p] by simp

subsection \<open>Histories\<close>

datatype chan_call =
    Do_Push packet_ref
  | Do_InjectEos packet_ref
  | Do_Pop
  | Do_MarkDraining
  | Do_MarkRetired bool
  | Do_ClearBackpressure
  | Do_MarkBackpressured

text \<open>A run of calls: the channel, the packets it took in, and the packets it gave out.\<close>

definition queued :: "PushOutcome \<Rightarrow> packet_ref \<Rightarrow> edge_channel \<Rightarrow> packet_ref list" where
  "queued o' p ch =
     (if (o' = kAccepted \<and> \<not> (eos_ref p \<and> TailHasEos ch)) \<or> o' = kAcceptedDroppedOldest then [p] else [])"

fun chan_do :: "chan_call \<Rightarrow> edge_channel \<times> packet_ref list \<times> packet_ref list \<Rightarrow>
  edge_channel \<times> packet_ref list \<times> packet_ref list" where
  "chan_do (Do_Push p) (ch, ins, outs) =
     (let (o', ch') = Push p ch in (ch', ins @ queued o' p ch, outs))"
| "chan_do (Do_InjectEos p) (ch, ins, outs) =
     (let (o', ch') = InjectEos p ch in
      (ch', ins @ (if o' = kAccepted \<and> \<not> TailHasEos ch then [p] else []), outs))"
| "chan_do Do_Pop (ch, ins, outs) =
     (let (r, ch') = Pop ch in (ch', ins, outs @ (case r of Some p \<Rightarrow> [p] | None \<Rightarrow> [])))"
| "chan_do Do_MarkDraining (ch, ins, outs) = (MarkDraining ch, ins, outs)"
| "chan_do (Do_MarkRetired fast) (ch, ins, outs) = (MarkRetired fast ch, ins, outs)"
| "chan_do Do_ClearBackpressure (ch, ins, outs) = (snd (ClearBackpressure ch), ins, outs)"
| "chan_do Do_MarkBackpressured (ch, ins, outs) = (snd (MarkBackpressured ch), ins, outs)"

lemma chan_do_wf: "chan_wf (fst s) \<Longrightarrow> chan_wf (fst (chan_do c s))"
  by (cases c; cases s)
    (auto simp: Let_def case_prod_beta Push_wf InjectEos_wf chan.pop_wf MarkRetired_wf)


lemma push_spec_effect:
  assumes "push_spec policy cap c p = (o', c')"
  shows "\<exists>k. subseq k c \<and> filter eos_ref k = filter eos_ref c \<and> (policy \<noteq> kDropOldest \<longrightarrow> k = c) \<and>
    c' = k @ (if (o' = kAccepted \<and> \<not> (eos_ref p \<and> c \<noteq> [] \<and> eos_ref (last c))) \<or> o' = kAcceptedDroppedOldest
              then [p] else [])"
proof (cases "o' = kAcceptedDroppedOldest")
  case True
  let ?t = "takeWhile eos_ref c" and ?d = "dropWhile eos_ref c"
  have d: "?d \<noteq> []" "c' = ?t @ tl ?d @ [p]" "policy = kDropOldest"
    using assms True by (auto simp: push_spec_def Let_def split: if_splits DropPolicy.splits)
  have "subseq (?t @ tl ?d) (?t @ ?d)"
    by (intro list_emb_append_mono subseq_order.refl) (cases ?d, auto)
  moreover have "filter eos_ref (?t @ tl ?d) = filter eos_ref (?t @ ?d)"
    using d(1) hd_dropWhile [of eos_ref c] by (cases ?d) auto
  ultimately show ?thesis using True d by (intro exI [of _ "?t @ tl ?d"]) simp
next
  case False
  then show ?thesis
    using assms by (intro exI [of _ c])
      (auto simp: push_spec_def Let_def split: if_splits DropPolicy.splits)
qed

lemma Push_effect:
  assumes "chan_wf ch"
  obtains k where "subseq k (contents ch)" "filter eos_ref k = filter eos_ref (contents ch)"
    "ecf_policy (ec_config ch) \<noteq> kDropOldest \<longrightarrow> k = contents ch"
    "contents (snd (Push p ch)) = k @ queued (fst (Push p ch)) p ch"
proof (cases "closed_state (ec_state ch)")
  case True
  then show ?thesis using that [of "contents ch"] by (simp add: Push_closed queued_def)
next
  case False
  then have "push_spec (ecf_policy (ec_config ch)) (length (ec_ring ch)) (contents ch) p =
      (fst (Push p ch), contents (snd (Push p ch)))"
    using Push_locked_refines [OF assms False] by (simp add: Push_open)
  from push_spec_effect [OF this] show ?thesis
    using that assms by (auto simp: queued_def TailHasEos_eq)
qed

lemma step_config [simp]:
  "ec_config (PushLocked p ch) = ec_config ch" "ec_config (evict v ch) = ec_config ch"
  "ec_config (count_drop ch) = ec_config ch" "ec_config (cancel_push ch) = ec_config ch"
  "ec_config (would_block ch) = ec_config ch"
  by (simp_all add: PushLocked_def evict_def count_drop_def cancel_push_def would_block_def Let_def)

lemma config_frame [simp]:
  "ec_config (snd (Push p ch)) = ec_config ch" "ec_config (snd (InjectEos p ch)) = ec_config ch"
  "ec_config (snd (Pop ch)) = ec_config ch" "ec_config (MarkDraining ch) = ec_config ch"
  "ec_config (MarkRetired b ch) = ec_config ch" "ec_config (snd (ClearBackpressure ch)) = ec_config ch"
  "ec_config (snd (MarkBackpressured ch)) = ec_config ch"
  by (simp_all add: Push_def Push_load_def Push_locked_def InjectEos_def Pop_def MarkDraining_def
      MarkRetired_def ClearBackpressure_def MarkBackpressured_def Let_def split: DropPolicy.split prod.split)

text \<open>What holds after any run; \<open>cleared\<close> tells whether a fast retirement was among the calls.\<close>

definition run_inv :: "bool \<Rightarrow> edge_channel \<times> packet_ref list \<times> packet_ref list \<Rightarrow> bool" where
  "run_inv cleared = (\<lambda>(ch, ins, outs). chan_wf ch \<and> subseq (outs @ contents ch) ins \<and>
     (\<not> cleared \<longrightarrow> filter eos_ref (outs @ contents ch) = filter eos_ref ins \<and>
        (ecf_policy (ec_config ch) \<noteq> kDropOldest \<longrightarrow> outs @ contents ch = ins)))"

lemma run_inv_push:
  assumes "run_inv cl (ch, ins, outs)"
  shows "run_inv cl (snd (Push p ch), ins @ queued (fst (Push p ch)) p ch, outs)"
proof -
  have wf: "chan_wf ch" using assms by (simp add: run_inv_def)
  then obtain k where k: "subseq k (contents ch)" "filter eos_ref k = filter eos_ref (contents ch)"
    "ecf_policy (ec_config ch) \<noteq> kDropOldest \<longrightarrow> k = contents ch"
    "contents (snd (Push p ch)) = k @ queued (fst (Push p ch)) p ch"
    by (rule Push_effect [of ch p])
  have "subseq (outs @ k) (outs @ contents ch)"
    using k(1) by (intro list_emb_append_mono subseq_order.refl)
  then have "subseq (outs @ k) ins"
    using assms subseq_order.trans [of "outs @ k" "outs @ contents ch" ins] by (simp add: run_inv_def)
  then have "subseq ((outs @ k) @ queued (fst (Push p ch)) p ch) (ins @ queued (fst (Push p ch)) p ch)"
    by (rule list_emb_append_mono) simp
  then show ?thesis using assms k wf by (auto simp: run_inv_def Push_wf)
qed

lemma run_inv_inject:
  assumes "run_inv cl (ch, ins, outs)"
  shows "run_inv cl (snd (InjectEos p ch),
    ins @ (if fst (InjectEos p ch) = kAccepted \<and> \<not> TailHasEos ch then [p] else []), outs)"
proof -
  have wf: "chan_wf ch" using assms by (simp add: run_inv_def)
  have "contents (snd (InjectEos p ch)) =
      contents ch @ (if fst (InjectEos p ch) = kAccepted \<and> \<not> TailHasEos ch then [p] else [])"
    using InjectEos_queue [OF wf, of p] by (auto simp: TailHasEos_eq [OF wf] split: if_splits)
  moreover have "subseq ((outs @ contents ch) @ x) (ins @ x)" for x
    using assms by (intro list_emb_append_mono) (auto simp: run_inv_def)
  ultimately show ?thesis using assms InjectEos_wf [OF wf] by (auto simp: run_inv_def)
qed

lemma run_inv_pop:
  "run_inv cl (ch, ins, outs) \<Longrightarrow>
   run_inv cl (snd (Pop ch), ins, outs @ (case fst (Pop ch) of Some p \<Rightarrow> [p] | None \<Rightarrow> []))"
  by (cases "contents ch") (auto simp: run_inv_def chan.pop_wf chan.pop_q chan.pop_result)

lemma run_inv_retire:
  "run_inv cl (ch, ins, outs) \<Longrightarrow> run_inv (cl \<or> b) (MarkRetired b ch, ins, outs)"
proof (cases b)
  case True
  assume "run_inv cl (ch, ins, outs)"
  then show ?thesis
    using True subseq_order.trans [of outs "outs @ contents ch" ins]
    by (auto simp: run_inv_def MarkRetired_fast)
qed (simp add: run_inv_def)

definition is_fast_retire :: "chan_call \<Rightarrow> bool" where
  "is_fast_retire c \<longleftrightarrow> c = Do_MarkRetired True"

lemma run_inv_do: "run_inv cl s \<Longrightarrow> run_inv (cl \<or> is_fast_retire c) (chan_do c s)"
proof (cases s)
  fix ch ins outs
  assume "run_inv cl s" and s: "s = (ch, ins, outs)"
  then have inv: "run_inv cl (ch, ins, outs)" by simp
  show ?thesis
  proof (cases c)
    case (Do_MarkRetired b)
    then show ?thesis using run_inv_retire [OF inv, of b] by (cases b) (auto simp: s is_fast_retire_def)
  next
    case (Do_Push p)
    then show ?thesis using run_inv_push [OF inv, of p] by (simp add: s is_fast_retire_def case_prod_beta Let_def)
  next
    case (Do_InjectEos p)
    then show ?thesis using run_inv_inject [OF inv, of p] by (simp add: s is_fast_retire_def case_prod_beta Let_def)
  next
    case Do_Pop
    then show ?thesis using run_inv_pop [OF inv] by (simp add: s is_fast_retire_def case_prod_beta Let_def)
  qed (use inv in \<open>simp_all add: s is_fast_retire_def run_inv_def\<close>)
qed

lemma run_inv_fold: "run_inv cl s \<Longrightarrow> run_inv (cl \<or> list_ex is_fast_retire cs) (fold chan_do cs s)"
proof (induction cs arbitrary: cl s)
  case (Cons c cs)
  show ?case using Cons.IH [OF run_inv_do [OF Cons.prems, of c]] by (simp add: disj_assoc)
qed simp


text \<open>C14. Whatever sequence of calls a new channel serves, what it gave out followed by what it still
  holds is a subsequence of what it took in: nothing is duplicated, invented or reordered. Unless
  the channel was retired fast no end-of-stream marker is lost, and with a policy other than
  \<open>drop_oldest\<close> no accepted packet is lost.\<close>

theorem channel_fifo:
  assumes "ecf_capacity config \<le> 2 ^ 31"
    and "fold chan_do calls (EdgeChannel_new i ext c config f t, [], []) = (ch, ins, outs)"
  shows "subseq (outs @ contents ch) ins \<and>
    (Do_MarkRetired True \<notin> set calls \<longrightarrow>
       filter eos_ref (outs @ contents ch) = filter eos_ref ins \<and>
       (ecf_policy config \<noteq> kDropOldest \<longrightarrow> outs @ contents ch = ins))"
proof -
  let ?s = "(EdgeChannel_new i ext c config f t, [], [])"
  have "run_inv False ?s" using assms(1) by (simp add: run_inv_def EdgeChannel_new_wf)
  from run_inv_fold [OF this, of calls] have inv: "run_inv (list_ex is_fast_retire calls) (ch, ins, outs)"
    by (simp add: assms(2))
  have "ec_config (fst (fold chan_do cs s)) = ec_config (fst s)" for cs s
  proof (induction cs arbitrary: s)
    case (Cons c cs)
    then show ?case by (cases c; cases s) (simp_all add: case_prod_beta Let_def)
  qed simp
  from this [of calls ?s] have "ec_config ch = ec_config (EdgeChannel_new i ext c config f t)"
    by (simp add: assms(2))
  then have "ecf_policy (ec_config ch) = ecf_policy config" by (simp add: EdgeChannel_new_def Let_def)
  then show ?thesis using inv by (auto simp: run_inv_def list_ex_iff is_fast_retire_def)
qed


definition sample_contract :: connection_contract where
  "sample_contract = \<lparr>cc_logical_type = ''Bytes'', cc_video = None, cc_audio = None, cc_tensor = None,
     cc_memory_kind = Memory_Host, cc_device_id = - 1, cc_sync_policy = kAny,
     cc_source_capability = 0, cc_target_capability = 0\<rparr>"

definition sample_channel :: "nat \<Rightarrow> DropPolicy \<Rightarrow> edge_channel" where
  "sample_channel cap policy = EdgeChannel_new 1 ''e'' sample_contract
     \<lparr>ecf_capacity = cap, ecf_policy = policy, ecf_sync_policy = kAny\<rparr>
     \<lparr>pr_node_id = ''a'', pr_port = ''out''\<rparr> \<lparr>pr_node_id = ''b'', pr_port = ''in''\<rparr>"

definition sample_packet :: "nat \<Rightarrow> packet_ref" where
  "sample_packet n = Some (Packet_init\<lparr>pkt_header := PacketHeader_init\<lparr>ph_seq := n\<rparr>\<rparr>)"

lemma eos_ref_sample [simp]: "\<not> eos_ref (sample_packet n)"
  by (simp add: eos_ref_def sample_packet_def is_eos_def Packet_init_def PacketHeader_init_def)

lemma sample_channel_wf: "cap \<le> 2147483648 \<Longrightarrow> chan_wf (sample_channel cap p)"
  by (simp add: sample_channel_def EdgeChannel_new_wf)

lemma sample_channel_simps [simp]:
  "contents (sample_channel cap p) = []" "ec_state (sample_channel cap p) = kActive"
  "ecf_policy (ec_config (sample_channel cap p)) = p"
  by (simp_all add: sample_channel_def EdgeChannel_new_def contents_def Let_def)

theorem Push_refines_spec_witness:
  "fst (Push (sample_packet 1) (sample_channel 2 kDropOldest)) = kAccepted \<and>
   contents (snd (Push (sample_packet 1) (sample_channel 2 kDropOldest))) = [sample_packet 1]"
proof -
  have "\<not> closed_state (ec_state (sample_channel 2 kDropOldest))" by (simp add: closed_state_def)
  from Push_refines_spec [OF sample_channel_wf this, of "sample_packet 1"] show ?thesis
    by (simp add: push_spec_def sample_channel_def EdgeChannel_new_def Let_def contents_def)
qed

theorem channel_fifo_witness:
  "\<exists>ch ins outs. fold chan_do [Do_Push (sample_packet 1), Do_Pop] (sample_channel 2 kBlock, [], []) = (ch, ins, outs) \<and>
     subseq (outs @ contents ch) ins \<and> outs @ contents ch = ins"
proof -
  obtain ch ins outs where r: "fold chan_do [Do_Push (sample_packet 1), Do_Pop] (sample_channel 2 kBlock, [], []) = (ch, ins, outs)"
    by (rule prod_cases3)
  then show ?thesis
    using channel_fifo [OF _ r [unfolded sample_channel_def]] by auto
qed

subsection \<open>The race between \<open>Push\<close> and a fast retirement\<close>

text \<open>Threads may interleave between the unlocked state test of \<open>Push\<close> and its locked part. The state
  is the channel, for every thread the packet with which it passed the test, and whether a fast
  retirement has happened.\<close>

type_synonym race_state = "edge_channel \<times> (nat \<Rightarrow> packet_ref option) \<times> bool"

inductive race_step :: "race_state \<Rightarrow> race_state \<Rightarrow> bool" where
  load_pass: "Push_load ch = (None, ch') \<Longrightarrow> pc t = None \<Longrightarrow>
      race_step (ch, pc, cl) (ch', pc(t := Some p), cl)"
| load_cancel: "Push_load ch = (Some o', ch') \<Longrightarrow> race_step (ch, pc, cl) (ch', pc, cl)"
| locked: "pc t = Some p \<Longrightarrow> race_step (ch, pc, cl) (snd (Push_locked p ch), pc(t := None), cl)"
| inject: "race_step (ch, pc, cl) (snd (InjectEos p ch), pc, cl)"
| pop: "race_step (ch, pc, cl) (snd (Pop ch), pc, cl)"
| draining: "race_step (ch, pc, cl) (MarkDraining ch, pc, cl)"
| retired: "race_step (ch, pc, cl) (MarkRetired fast ch, pc, cl \<or> fast)"
| clear: "race_step (ch, pc, cl) (snd (ClearBackpressure ch), pc, cl)"
| mark: "race_step (ch, pc, cl) (snd (MarkBackpressured ch), pc, cl)"

definition race_init :: "race_state \<Rightarrow> bool" where
  "race_init = (\<lambda>(ch, pc, cl). chan_wf ch \<and> contents ch = [] \<and> (\<forall>t. pc t = None) \<and> \<not> cl)"

definition race_inv :: "race_state \<Rightarrow> bool" where
  "race_inv = (\<lambda>(ch, pc, cl). chan_wf ch \<and> (cl \<longrightarrow> ec_state ch = kRetired \<and> contents ch = []))"

lemma retired_final:
  "ec_state ch = kRetired \<Longrightarrow> ec_state (snd (Push_locked p ch)) = kRetired"
  "ec_state ch = kRetired \<Longrightarrow> ec_state (snd (InjectEos p ch)) = kRetired"
  "ec_state (snd (Pop ch)) = ec_state ch"
  "ec_state ch = kRetired \<Longrightarrow> ec_state (MarkDraining ch) = kRetired"
  "ec_state (MarkRetired b ch) = kRetired"
  "ec_state ch = kRetired \<Longrightarrow> ec_state (snd (ClearBackpressure ch)) = kRetired"
  "ec_state ch = kRetired \<Longrightarrow> ec_state (snd (MarkBackpressured ch)) = kRetired"
  by (simp_all add: Push_locked_def closed_state_def InjectEos_def Pop_def MarkDraining_def
      MarkRetired_def ClearBackpressure_def MarkBackpressured_def cancel_push_def Let_def)

lemma cancel_push_state [simp]: "ec_state (cancel_push ch) = ec_state ch"
  by (simp add: cancel_push_def)

lemma retired_closed:
  "ec_state ch = kRetired \<Longrightarrow> contents (snd (Push_locked p ch)) = contents ch"
  "ec_state ch = kRetired \<Longrightarrow> snd (InjectEos p ch) = ch"
  by (simp_all add: Push_locked_def closed_state_def InjectEos_def)

lemma race_step_inv: "race_step s s' \<Longrightarrow> race_inv s \<Longrightarrow> race_inv s'"
proof (induction rule: race_step.induct)
  case (load_pass ch ch' pc t cl p)
  then show ?case by (auto simp: race_inv_def Push_load_def split: if_splits)
next
  case (load_cancel ch o' ch' pc cl)
  then show ?case by (auto simp: race_inv_def Push_load_def split: if_splits)
next
  case (retired ch pc cl fast)
  then show ?case
    by (cases fast) (auto simp: race_inv_def MarkRetired_fast MarkRetired_wf retired_final)
qed (auto simp: race_inv_def retired_final retired_closed Push_locked_wf InjectEos_wf chan.pop_wf chan.pop_q)

interpretation race: invariant_system race_init race_step race_inv
proof unfold_locales
  show "race_init s \<Longrightarrow> race_inv s" for s by (auto simp: race_init_def race_inv_def)
  show "race_inv s \<Longrightarrow> race_step s t \<Longrightarrow> race_inv t" for s t by (rule race_step_inv)
qed

text \<open>C4. In every interleaving of pushes with the other operations, once a fast retirement has cleared
  the channel it stays retired and empty, and every later locked push is cancelled: the second
  state test, under the lock, catches a producer that passed the first one before.\<close>

theorem fast_retired_stays_empty:
  assumes "reachable race_init race_step (ch, pc, True)"
  shows "ec_state ch = kRetired \<and> contents ch = [] \<and> depth ch = 0 \<and> fst (Push_locked p ch) = kCancelled"
  using race.reachable_inv [OF assms]
  by (auto simp: race_inv_def Push_locked_def closed_state_def chan.size_q)

theorem fast_retired_stays_empty_witness:
  "\<exists>ch pc. reachable race_init race_step (ch, pc, True) \<and> pc 0 = Some (sample_packet 1) \<and>
     fst (Push_locked (sample_packet 1) ch) = kCancelled \<and> contents ch = []"
proof -
  let ?c = "sample_channel 2 kBlock" and ?pc = "(\<lambda>_. None) :: nat \<Rightarrow> packet_ref option"
  let ?pc' = "?pc(0 := Some (sample_packet 1))"
  have "reachable race_init race_step (?c, ?pc, False)"
    by (rule reach_init) (simp add: race_init_def sample_channel_wf)
  then have "reachable race_init race_step (?c, ?pc', False)"
    by (rule reach_step) (rule race_step.load_pass, simp_all add: Push_load_def closed_state_def)
  then have r: "reachable race_init race_step (MarkRetired True ?c, ?pc', True)"
    using race_step.retired [of ?c ?pc' False True] by (auto intro: reach_step)
  show ?thesis using r fast_retired_stays_empty [OF r, of "sample_packet 1"] by (intro exI) auto
qed

subsection \<open>Counters\<close>

text \<open>As long as fewer than \<open>2^64\<close> calls were served, the counters account for every packet: what was
  pushed is what was popped, what is queued, what was evicted (among the drops) and what a fast
  retirement cleared.\<close>

definition metrics_inv :: "nat \<Rightarrow> bool \<Rightarrow> edge_channel \<Rightarrow> bool" where
  "metrics_inv n cleared ch \<longleftrightarrow> chan_wf ch \<and>
     (let m = ec_metrics ch in
      em_pushed m \<le> n \<and> em_popped m \<le> n \<and> em_drop_count m \<le> n \<and>
      em_popped m + ec_size ch \<le> em_pushed m \<and>
      (\<not> cleared \<longrightarrow> em_pushed m \<le> em_popped m + ec_size ch + em_drop_count m \<and>
         (ecf_policy (ec_config ch) \<noteq> kDropOldest \<longrightarrow> em_pushed m = em_popped m + ec_size ch)))"


lemma metrics_inv_mono: "metrics_inv n cl ch \<Longrightarrow> n \<le> n' \<Longrightarrow> cl \<longrightarrow> cl' \<Longrightarrow> metrics_inv n' cl' ch"
  by (auto simp: metrics_inv_def Let_def)

lemma metrics_inv_eq:
  assumes "metrics_inv n cl ch" "chan_wf ch'" "ec_size ch' = ec_size ch" "ec_config ch' = ec_config ch"
    "em_pushed (ec_metrics ch') = em_pushed (ec_metrics ch)"
    "em_popped (ec_metrics ch') = em_popped (ec_metrics ch)"
    "em_drop_count (ec_metrics ch') = em_drop_count (ec_metrics ch)"
  shows "metrics_inv n cl ch'"
  using assms by (simp add: metrics_inv_def Let_def)

lemma PushLocked_metrics:
  assumes "metrics_inv n cl ch" "n + 1 < 2 ^ 64" "ec_size ch < length (ec_ring ch)"
  shows "metrics_inv (n + 1) cl (PushLocked p ch)"
proof -
  have wf: "chan_wf ch" using assms(1) by (simp add: metrics_inv_def)
  show ?thesis
    using assms PushLocked_queue(1) [OF wf assms(3), of p] wf
    by (auto simp: metrics_inv_def PushLocked_def BumpDepth_def Let_def)
qed

lemma count_drop_metrics:
  assumes "metrics_inv n cl ch" "n + 1 < 2 ^ 64"
  shows "metrics_inv (n + 1) cl (count_drop ch)"
proof -
  have "chan_wf (count_drop ch)" using assms(1) by (simp add: metrics_inv_def)
  then show ?thesis using assms by (auto simp: metrics_inv_def count_drop_def Let_def)
qed

lemma drop_oldest_metrics:
  assumes inv: "metrics_inv n cl ch" and n: "n + 1 < 2 ^ 64" and pol: "ecf_policy (ec_config ch) = kDropOldest"
    and wf: "chan_wf (PushLocked p (count_drop (evict v ch)))" and s: "0 < ec_size ch"
  shows "metrics_inv (n + 1) cl (PushLocked p (count_drop (evict v ch)))"
proof -
  have w: "chan_wf ch" using inv by (simp add: metrics_inv_def)
  have "u32 (Suc (ec_size ch - Suc 0)) = ec_size ch" using s chan_wfD(9) [OF w] by simp
  then show ?thesis
    using inv n pol wf s
    by (auto simp: metrics_inv_def PushLocked_def count_drop_def evict_def BumpDepth_def Let_def)
qed

lemma cancel_push_metrics: "metrics_inv n cl ch \<Longrightarrow> metrics_inv n cl (cancel_push ch)"
  by (rule metrics_inv_eq [of n cl ch]) (simp_all add: metrics_inv_def cancel_push_def chan_wf_def Let_def)

lemma would_block_metrics: "metrics_inv n cl ch \<Longrightarrow> metrics_inv n cl (would_block ch)"
  by (rule metrics_inv_eq [of n cl ch]) (simp_all add: metrics_inv_def would_block_def chan_wf_def Let_def)

lemma Push_metrics:
  assumes inv: "metrics_inv n cl ch" and n: "n + 1 < 2 ^ 64"
  shows "metrics_inv (n + 1) cl (snd (Push p ch))"
proof (cases "closed_state (ec_state ch)")
  case True
  then show ?thesis using metrics_inv_mono [OF cancel_push_metrics [OF inv]] by (simp add: Push_closed)
next
  case False
  have wf: "chan_wf ch" using inv by (simp add: metrics_inv_def)
  have up: "metrics_inv (n + 1) cl ch" using metrics_inv_mono [OF inv] by simp
  obtain v k where sc: "scan_eos (ec_ring ch) (ec_size ch) (ec_head ch) 0 = (v, k)" by force
  have "metrics_inv (n + 1) cl (snd (Push_locked p ch))"
  proof (cases "\<not> (eos_ref p \<and> TailHasEos ch) \<and> \<not> ec_size ch < length (ec_ring ch) \<and> \<not> eos_ref p \<and>
      ecf_policy (ec_config ch) = kDropOldest \<and> k \<noteq> ec_size ch")
    case True
    then have "snd (Push_locked p ch) = PushLocked p (count_drop (evict v ch))"
      using False sc by (simp add: Push_locked_def)
    then show ?thesis
      using drop_oldest_metrics [OF inv n _ _ , of p v] True Push_locked_wf [OF wf, of p] chan_wfD(1) [OF wf] by simp
  next
    case g: False
    then show ?thesis
      using False sc up PushLocked_metrics [OF inv n] count_drop_metrics [OF inv n] would_block_metrics [OF up]
      by (cases "ecf_policy (ec_config ch)") (auto simp: Push_locked_def Let_def)
  qed
  then show ?thesis by (simp add: Push_open [OF False])
qed

lemma Pop_metrics:
  assumes inv: "metrics_inv n cl ch" and n: "n + 1 < 2 ^ 64"
  shows "metrics_inv (n + 1) cl (snd (Pop ch))"
proof -
  have wf: "chan_wf ch" using inv by (simp add: metrics_inv_def)
  show ?thesis
    using inv n chan.pop_wf [OF wf] by (auto simp: metrics_inv_def Pop_def Let_def)
qed

lemma InjectEos_metrics:
  assumes inv: "metrics_inv n cl ch" and n: "n + 1 < 2 ^ 64"
  shows "metrics_inv (n + 1) cl (snd (InjectEos p ch))"
  using metrics_inv_mono [OF inv, of "n + 1" cl] PushLocked_metrics [OF inv n, of p]
  by (simp add: InjectEos_def)

lemma MarkRetired_metrics: "metrics_inv n cl ch \<Longrightarrow> metrics_inv n (cl \<or> b) (MarkRetired b ch)"
proof -
  assume inv: "metrics_inv n cl ch"
  then have "chan_wf (MarkRetired b ch)" by (simp add: metrics_inv_def MarkRetired_wf)
  then show ?thesis using inv by (auto simp: metrics_inv_def MarkRetired_def Let_def)
qed

lemma MarkDraining_metrics: "metrics_inv n cl ch \<Longrightarrow> metrics_inv n cl (MarkDraining ch)"
  by (rule metrics_inv_eq [of n cl ch]) (auto simp: metrics_inv_def MarkDraining_def)

lemma ClearBackpressure_metrics: "metrics_inv n cl ch \<Longrightarrow> metrics_inv n cl (snd (ClearBackpressure ch))"
  by (rule metrics_inv_eq [of n cl ch]) (auto simp: metrics_inv_def ClearBackpressure_def)

lemma MarkBackpressured_metrics: "metrics_inv n cl ch \<Longrightarrow> metrics_inv n cl (snd (MarkBackpressured ch))"
proof (rule metrics_inv_eq [of n cl ch])
  assume "metrics_inv n cl ch"
  then show "chan_wf (snd (MarkBackpressured ch))" by (simp add: metrics_inv_def)
qed (auto simp: MarkBackpressured_def ClearBackpressure_def Let_def)

lemma chan_do_metrics:
  assumes inv: "metrics_inv n cl (fst s)" and n: "n + 1 < 2 ^ 64"
  shows "metrics_inv (n + 1) (cl \<or> is_fast_retire c) (fst (chan_do c s))"
proof -
  obtain ch ins outs where s: "s = (ch, ins, outs)" by (rule prod_cases3)
  then have inv': "metrics_inv n cl ch" using inv by simp
  have up: "metrics_inv (n + 1) b x" if "metrics_inv n b x" for b x
    using metrics_inv_mono [OF that] by simp
  show ?thesis
  proof (cases c)
    case (Do_MarkRetired b)
    then show ?thesis using up [OF MarkRetired_metrics [OF inv', of b]] by (cases b) (auto simp: s is_fast_retire_def)
  qed (use n Push_metrics [OF inv'] InjectEos_metrics [OF inv'] Pop_metrics [OF inv']
      up [OF MarkDraining_metrics [OF inv']] up [OF ClearBackpressure_metrics [OF inv']]
      up [OF MarkBackpressured_metrics [OF inv']]
      in \<open>simp_all add: s is_fast_retire_def case_prod_beta Let_def\<close>)
qed

lemma chan_run_metrics:
  "metrics_inv n cl (fst s) \<Longrightarrow> n + length cs < 2 ^ 64 \<Longrightarrow>
     metrics_inv (n + length cs) (cl \<or> list_ex is_fast_retire cs) (fst (fold chan_do cs s))"
proof (induction cs arbitrary: n cl s)
  case (Cons c cs)
  have "metrics_inv (n + 1) (cl \<or> is_fast_retire c) (fst (chan_do c s))"
    using Cons.prems by (intro chan_do_metrics) auto
  from Cons.IH [OF this] show ?case using Cons.prems(2) by (simp add: disj_assoc)
qed simp

text \<open>C21. After fewer than \<open>2^64\<close> calls on a new channel, the published depth is the number of queued
  packets and never exceeds the capacity, the high-water mark stays between the two, and the
  counters balance: pushed packets are popped, queued, or (only with \<open>drop_oldest\<close> or after a fast
  retirement) dropped.\<close>

theorem channel_metrics_balance:
  assumes "ecf_capacity config \<le> 2 ^ 31" "length calls < 2 ^ 64"
    and "ch = fst (fold chan_do calls (EdgeChannel_new i ext c config f t, [], []))"
  shows "depth ch = length (contents ch) \<and> depth ch \<le> em_max_depth (ec_metrics ch) \<and>
    em_max_depth (ec_metrics ch) \<le> ecf_capacity (ec_config ch) \<and>
    em_popped (ec_metrics ch) + depth ch \<le> em_pushed (ec_metrics ch) \<and>
    (Do_MarkRetired True \<notin> set calls \<longrightarrow>
       em_pushed (ec_metrics ch) \<le> em_popped (ec_metrics ch) + depth ch + em_drop_count (ec_metrics ch) \<and>
       (ecf_policy (ec_config ch) \<noteq> kDropOldest \<longrightarrow>
          em_pushed (ec_metrics ch) = em_popped (ec_metrics ch) + depth ch))"
proof -
  let ?s = "(EdgeChannel_new i ext c config f t, [], []) :: edge_channel \<times> packet_ref list \<times> packet_ref list"
  have "chan_wf (EdgeChannel_new i ext c config f t)" using assms(1) by (simp add: EdgeChannel_new_wf)
  then have "metrics_inv 0 False (fst ?s)" by (simp add: metrics_inv_def EdgeChannel_new_def Let_def)
  from chan_run_metrics [OF this, of calls] assms(2,3)
  have inv: "metrics_inv (length calls) (list_ex is_fast_retire calls) ch" by simp
  then have wf: "chan_wf ch" by (simp add: metrics_inv_def)
  have "depth ch = ec_size ch" "depth ch = length (contents ch)"
    using chan_wfD(6) [OF wf] by (simp_all add: depth_def)
  moreover have "ec_size ch \<le> em_max_depth (ec_metrics ch)" "em_max_depth (ec_metrics ch) \<le> ecf_capacity (ec_config ch)"
    using wf by (simp_all add: chan_wf_def Let_def)
  ultimately show ?thesis
    using inv by (auto simp: metrics_inv_def Let_def list_ex_iff is_fast_retire_def)
qed

theorem channel_metrics_balance_witness:
  "\<exists>ch. ch = fst (fold chan_do [Do_Push (sample_packet 1), Do_Pop, Do_Pop] (sample_channel 2 kBlock, [], [])) \<and>
     depth ch = length (contents ch) \<and> em_pushed (ec_metrics ch) = em_popped (ec_metrics ch) + depth ch"
proof -
  let ?cs = "[Do_Push (sample_packet 1), Do_Pop, Do_Pop]"
  define ch where "ch = fst (fold chan_do ?cs (sample_channel 2 kBlock, [], []))"
  have "ecf_policy (ec_config ch) = kBlock" by (simp add: ch_def case_prod_beta Let_def)
  then show ?thesis
    using channel_metrics_balance [OF _ _ ch_def [unfolded sample_channel_def]] ch_def by auto
qed

end
