(* ===== verification/Negotiation.thy ===== *)
theory Negotiation
  imports Capability "HOL-Library.Multiset"
begin

section \<open>Capability negotiation\<close>

text \<open>
  Models the negotiator of \<open>src/capability.cpp\<close>: the intersection of every dimension over the output
  and all the inputs of an edge or a fan-out, the deterministic choice in each intersection, the
  conflict it reports, the cache of edge contracts and the fan-out rule. \<open>NegotiateUncached\<close> is
  split where the code has its blocks (video, audio, tensor, memory, sync); a block returns the
  dimension that has no common value, as the code's \<open>conflict(dim, lhs, rhs)\<close>.
\<close>

unbundle bit_operations_syntax

text \<open>What a block of the negotiation returns when it fails.\<close>

datatype neg_error =
    Neg_Conflict string string string
  | Neg_Invalid string

definition IntersectSets :: "'a list option \<Rightarrow> 'a list option \<Rightarrow> 'a list option" where
  "IntersectSets lhs rhs =
     (case lhs of
        None \<Rightarrow> rhs
      | Some l \<Rightarrow> (case rhs of None \<Rightarrow> lhs | Some r \<Rightarrow> Some (filter (\<lambda>x. x \<in> set r) l)))"

definition IntersectRanges :: "('a \<Rightarrow> 'a \<Rightarrow> bool) \<Rightarrow> 'a range option \<Rightarrow> 'a range option \<Rightarrow> 'a range option" where
  "IntersectRanges lt lhs rhs =
     (case lhs of
        None \<Rightarrow> rhs
      | Some l \<Rightarrow> (case rhs of None \<Rightarrow> lhs | Some r \<Rightarrow> Some (Range_Intersect lt l r)))"

definition star_json :: string where
  "star_json = [CHR 0x22, CHR ''*'', CHR 0x22]"

definition SetJson :: "fp_ops \<Rightarrow> format_set option \<Rightarrow> string" where
  "SetJson fp s = (case s of Some v \<Rightarrow> Serialize fp (StringsJson v) | None \<Rightarrow> star_json)"

definition RangeStr :: "fp_ops \<Rightarrow> ('a range \<Rightarrow> json) \<Rightarrow> 'a range option \<Rightarrow> string" where
  "RangeStr fp render r = (case r of Some v \<Rightarrow> Serialize fp (render v) | None \<Rightarrow> star_json)"

definition ChooseDeterministically :: "format_set \<Rightarrow> format_set option \<Rightarrow> format_set option \<Rightarrow> string" where
  "ChooseDeterministically common caller_pref input_priority =
     (case Option.bind caller_pref (find (\<lambda>x. x \<in> set common)) of
        Some p \<Rightarrow> p
      | None \<Rightarrow>
          (case Option.bind input_priority (find (\<lambda>x. x \<in> set common)) of
             Some p \<Rightarrow> p
           | None \<Rightarrow> hd common))"

definition Pref :: "preference_set \<Rightarrow> string \<Rightarrow> format_set option" where
  "Pref pref dim = map_of (ps_ordered pref) dim"

definition SuggestConverter :: "string \<Rightarrow> string \<Rightarrow> string" where
  "SuggestConverter dimension type_tag =
     (let mem = (dimension = ''memory_kind'' \<or> dimension = ''device_id'') in
      if dimension = ''logical_type'' then []
      else if type_tag = ''VideoFrame'' then
        (if dimension = ''width'' \<or> dimension = ''height'' then ''VideoScale''
         else if dimension = ''fps'' then ''VideoRate''
         else if mem then ''MemoryCopy''
         else ''VideoConvert'')
      else if type_tag = ''AudioFrame'' then (if mem then ''MemoryCopy'' else ''AudioResample'')
      else if type_tag = ''Tensor'' then (if mem then ''MemoryCopy'' else ''TensorConvert'')
      else if mem then ''MemoryCopy''
      else [])"

subsection \<open>The blocks of the negotiation\<close>

definition empty_video :: video_constraints where
  "empty_video = \<lparr>vc_pixel_formats = None, vc_width = None, vc_height = None, vc_fps = None,
     vc_color_spaces = None, vc_color_ranges = None, vc_hdr_modes = None\<rparr>"

definition empty_audio :: audio_constraints where
  "empty_audio = \<lparr>ac_sample_formats = None, ac_sample_rate = None, ac_channel_layouts = None\<rparr>"

definition empty_tensor :: tensor_constraints where
  "empty_tensor = \<lparr>tc_dtypes = None, tc_layouts = None, tc_shape = []\<rparr>"

definition video_of :: "port_capability \<Rightarrow> video_constraints" where
  "video_of p = (case pc_video p of Some v \<Rightarrow> v | None \<Rightarrow> empty_video)"

definition audio_of :: "port_capability \<Rightarrow> audio_constraints" where
  "audio_of p = (case pc_audio p of Some a \<Rightarrow> a | None \<Rightarrow> empty_audio)"

definition tensor_of :: "port_capability \<Rightarrow> tensor_constraints" where
  "tensor_of p = (case pc_tensor p of Some t \<Rightarrow> t | None \<Rightarrow> empty_tensor)"

text \<open>A dimension of the first input, which the code reads as \<open>inputs.front()\<close>.\<close>

definition front_dim :: "(port_capability \<Rightarrow> 'b option) \<Rightarrow> port_capability list \<Rightarrow> 'b option" where
  "front_dim f inputs = (case inputs of [] \<Rightarrow> None | p # _ \<Rightarrow> f p)"

definition video_common :: "fp_ops \<Rightarrow> port_capability \<Rightarrow> port_capability list \<Rightarrow> video_constraints" where
  "video_common fp output inputs =
     fold (\<lambda>p c. let iv = video_of p in
            \<lparr>vc_pixel_formats = IntersectSets (vc_pixel_formats c) (vc_pixel_formats iv),
             vc_width = IntersectRanges (<) (vc_width c) (vc_width iv),
             vc_height = IntersectRanges (<) (vc_height c) (vc_height iv),
             vc_fps = IntersectRanges (fp_less fp) (vc_fps c) (vc_fps iv),
             vc_color_spaces = IntersectSets (vc_color_spaces c) (vc_color_spaces iv),
             vc_color_ranges = IntersectSets (vc_color_ranges c) (vc_color_ranges iv),
             vc_hdr_modes = IntersectSets (vc_hdr_modes c) (vc_hdr_modes iv)\<rparr>)
       inputs (video_of output)"

definition range_bad :: "('a \<Rightarrow> 'a \<Rightarrow> bool) \<Rightarrow> 'a range option \<Rightarrow> bool" where
  "range_bad lt r = (case r of Some v \<Rightarrow> Range_Empty lt v | None \<Rightarrow> False)"

definition negotiate_video ::
  "fp_ops \<Rightarrow> port_capability \<Rightarrow> port_capability list \<Rightarrow> preference_set \<Rightarrow> neg_error + selected_video option" where
  "negotiate_video fp output inputs pref =
     (if \<not> (IsBuiltinTypeTag (pc_type_tag output) \<and>
             (pc_video output \<noteq> None \<or> list_ex (\<lambda>i. pc_video i \<noteq> None) inputs)) then Inr None
      else
        let common = video_common fp output inputs; ov = video_of output;
            in_pf = front_dim (\<lambda>p. vc_pixel_formats (video_of p)) inputs in
        case vc_pixel_formats common of
          None \<Rightarrow> Inl (Neg_Conflict ''pixel_format'' star_json star_json)
        | Some pf \<Rightarrow>
            if pf = [] then Inl (Neg_Conflict ''pixel_format'' (SetJson fp (vc_pixel_formats ov)) (SetJson fp in_pf))
            else if range_bad (<) (vc_width common) then
              Inl (Neg_Conflict ''width'' (RangeStr fp RangeJson (vc_width ov))
                (RangeStr fp RangeJson (front_dim (\<lambda>p. vc_width (video_of p)) inputs)))
            else if range_bad (<) (vc_height common) then
              Inl (Neg_Conflict ''height'' (RangeStr fp RangeJson (vc_height ov))
                (RangeStr fp RangeJson (front_dim (\<lambda>p. vc_height (video_of p)) inputs)))
            else if range_bad (fp_less fp) (vc_fps common) then
              Inl (Neg_Conflict ''fps'' (RangeStr fp RationalRangeJson (vc_fps ov))
                (RangeStr fp RationalRangeJson (front_dim (\<lambda>p. vc_fps (video_of p)) inputs)))
            else if vc_color_spaces common = Some [] then Inl (Neg_Conflict ''color_space'' ''[]'' ''[]'')
            else if vc_color_ranges common = Some [] then Inl (Neg_Conflict ''color_range'' ''[]'' ''[]'')
            else if vc_hdr_modes common = Some [] then Inl (Neg_Conflict ''hdr_mode'' ''[]'' ''[]'')
            else Inr (Some
              \<lparr>sv_pixel_format = ChooseDeterministically pf (Pref pref ''pixel_format'') in_pf,
               sv_width = vc_width common, sv_height = vc_height common, sv_fps = vc_fps common,
               sv_color_space = map_option (\<lambda>s. ChooseDeterministically s (Pref pref ''color_space'') None)
                                  (vc_color_spaces common),
               sv_color_range = map_option (\<lambda>s. ChooseDeterministically s (Pref pref ''color_range'') None)
                                  (vc_color_ranges common),
               sv_hdr_mode = map_option (\<lambda>s. ChooseDeterministically s (Pref pref ''hdr_mode'') None)
                                  (vc_hdr_modes common)\<rparr>))"

definition audio_common :: "port_capability \<Rightarrow> port_capability list \<Rightarrow> audio_constraints" where
  "audio_common output inputs =
     fold (\<lambda>p c. let ia = audio_of p in
            \<lparr>ac_sample_formats = IntersectSets (ac_sample_formats c) (ac_sample_formats ia),
             ac_sample_rate = IntersectRanges (<) (ac_sample_rate c) (ac_sample_rate ia),
             ac_channel_layouts = IntersectSets (ac_channel_layouts c) (ac_channel_layouts ia)\<rparr>)
       inputs (audio_of output)"

definition negotiate_audio ::
  "fp_ops \<Rightarrow> port_capability \<Rightarrow> port_capability list \<Rightarrow> preference_set \<Rightarrow> neg_error + selected_audio option" where
  "negotiate_audio fp output inputs pref =
     (if \<not> (IsBuiltinTypeTag (pc_type_tag output) \<and>
             (pc_audio output \<noteq> None \<or> list_ex (\<lambda>i. pc_audio i \<noteq> None) inputs)) then Inr None
      else
        let common = audio_common output inputs; oa = audio_of output;
            in_sf = front_dim (\<lambda>p. ac_sample_formats (audio_of p)) inputs in
        case ac_sample_formats common of
          None \<Rightarrow> Inl (Neg_Conflict ''sample_format'' (SetJson fp (ac_sample_formats oa)) (SetJson fp in_sf))
        | Some sf \<Rightarrow>
            if sf = [] then
              Inl (Neg_Conflict ''sample_format'' (SetJson fp (ac_sample_formats oa)) (SetJson fp in_sf))
            else if range_bad (<) (ac_sample_rate common) then
              Inl (Neg_Conflict ''sample_rate'' (RangeStr fp RangeJson (ac_sample_rate oa))
                (RangeStr fp RangeJson (front_dim (\<lambda>p. ac_sample_rate (audio_of p)) inputs)))
            else if ac_channel_layouts common = Some [] then Inl (Neg_Conflict ''channel_layout'' ''[]'' ''[]'')
            else Inr (Some
              \<lparr>sa_sample_format = ChooseDeterministically sf (Pref pref ''sample_format'') in_sf,
               sa_sample_rate = ac_sample_rate common,
               sa_channel_layout = map_option (\<lambda>s. ChooseDeterministically s (Pref pref ''channel_layout'') None)
                                     (ac_channel_layouts common)\<rparr>))"

text \<open>One pass of the shape loop: a negative maximum is unbounded.\<close>

fun merge_shape :: "fp_ops \<Rightarrow> nat \<Rightarrow> int_range list \<Rightarrow> int_range list \<Rightarrow> neg_error + int_range list" where
  "merge_shape fp i (c # cs) (o' # os) =
     (let mx = (if rg_max c < 0 then rg_max o'
                else if rg_max o' \<ge> 0 then min (rg_max c) (rg_max o') else rg_max c);
          c' = \<lparr>rg_min = max (rg_min c) (rg_min o'), rg_max = mx\<rparr> in
      if rg_max c' \<ge> 0 \<and> rg_max c' < rg_min c' then
        Inl (Neg_Conflict (''shape['' @ nat_to_string i @ '']'') (Serialize fp (RangeJson c'))
          (Serialize fp (RangeJson o')))
      else bind_result (merge_shape fp (i + 1) cs os) (\<lambda>r. Inr (c' # r)))"
| "merge_shape fp i _ _ = Inr []"

definition tensor_step ::
  "fp_ops \<Rightarrow> port_capability \<Rightarrow> tensor_constraints \<Rightarrow> neg_error + tensor_constraints" where
  "tensor_step fp p c =
     (let t = tensor_of p;
          c1 = c\<lparr>tc_dtypes := IntersectSets (tc_dtypes c) (tc_dtypes t),
                 tc_layouts := IntersectSets (tc_layouts c) (tc_layouts t)\<rparr> in
      if tc_shape t = [] then Inr c1
      else if tc_shape c1 = [] then Inr (c1\<lparr>tc_shape := tc_shape t\<rparr>)
      else if length (tc_shape c1) \<noteq> length (tc_shape t) then
        Inl (Neg_Conflict ''shape_rank'' (nat_to_string (length (tc_shape c1)))
          (nat_to_string (length (tc_shape t))))
      else bind_result (merge_shape fp 0 (tc_shape c1) (tc_shape t)) (\<lambda>s. Inr (c1\<lparr>tc_shape := s\<rparr>)))"

definition negotiate_tensor ::
  "fp_ops \<Rightarrow> port_capability \<Rightarrow> port_capability list \<Rightarrow> preference_set \<Rightarrow> neg_error + selected_tensor option" where
  "negotiate_tensor fp output inputs pref =
     (if \<not> (IsBuiltinTypeTag (pc_type_tag output) \<and>
             (pc_tensor output \<noteq> None \<or> list_ex (\<lambda>i. pc_tensor i \<noteq> None) inputs)) then Inr None
      else bind_result (fold_result (tensor_step fp) inputs (tensor_of output)) (\<lambda>common.
        let in_dt = front_dim (\<lambda>p. tc_dtypes (tensor_of p)) inputs;
            bad = Inl (Neg_Conflict ''dtype'' (SetJson fp (tc_dtypes (tensor_of output))) (SetJson fp in_dt)) in
        case tc_dtypes common of
          None \<Rightarrow> bad
        | Some dt \<Rightarrow>
            if dt = [] then bad
            else if tc_layouts common = Some [] then Inl (Neg_Conflict ''layout'' ''[]'' ''[]'')
            else Inr (Some
              \<lparr>stn_dtype = ChooseDeterministically dt (Pref pref ''dtype'') in_dt,
               stn_layout = map_option (\<lambda>s. ChooseDeterministically s (Pref pref ''layout'') None) (tc_layouts common),
               stn_shape = tc_shape common\<rparr>)))"

definition memory_common :: "port_capability \<Rightarrow> port_capability list \<Rightarrow> MemoryKind list option" where
  "memory_common output inputs =
     fold (\<lambda>p k. IntersectSets k (mc_kinds (pc_memory p))) inputs (mc_kinds (pc_memory output))"

definition device_common :: "port_capability \<Rightarrow> port_capability list \<Rightarrow> int list option" where
  "device_common output inputs =
     fold (\<lambda>p d. IntersectSets d (mc_device_ids (pc_memory p))) inputs (mc_device_ids (pc_memory output))"

definition kinds_json :: "fp_ops \<Rightarrow> MemoryKind list option \<Rightarrow> string" where
  "kinds_json fp v = SetJson fp (map_option (map MemoryKind_ToString) v)"

text \<open>A preferred value when the candidates allow it.\<close>

definition preferred :: "'a option \<Rightarrow> 'a list \<Rightarrow> 'a \<Rightarrow> 'a" where
  "preferred pref candidates dflt =
     (case pref of Some v \<Rightarrow> if v \<in> set candidates then v else dflt | None \<Rightarrow> dflt)"

definition negotiate_memory ::
  "fp_ops \<Rightarrow> port_capability \<Rightarrow> port_capability list \<Rightarrow> preference_set \<Rightarrow> neg_error + MemoryKind \<times> int" where
  "negotiate_memory fp output inputs pref =
     (let kinds = memory_common output inputs; devices = device_common output inputs in
      if kinds = Some [] then
        Inl (Neg_Conflict ''memory_kind'' (kinds_json fp (mc_kinds (pc_memory output)))
          (kinds_json fp (front_dim (\<lambda>p. mc_kinds (pc_memory p)) inputs)))
      else
        let mk = (case kinds of
                    None \<Rightarrow> (case ps_memory_kind pref of Some m \<Rightarrow> m | None \<Rightarrow> Memory_Host)
                  | Some ks \<Rightarrow> preferred (ps_memory_kind pref) ks (hd ks)) in
        if devices = Some [] then Inl (Neg_Conflict ''device_id'' ''[]'' ''[]'')
        else if mk = Memory_CudaDevice \<or> mk = Memory_Pinned then
          Inr (mk, case devices of
                     None \<Rightarrow> (case ps_device_id pref of Some d \<Rightarrow> d | None \<Rightarrow> 0)
                   | Some ds \<Rightarrow> preferred (ps_device_id pref) ds (min_list ds))
        else Inr (mk, - 1))"

definition sync_common :: "port_capability list \<Rightarrow> SyncPolicy list option" where
  "sync_common inputs = fold (\<lambda>p s. IntersectSets s (pc_sync p)) inputs None"

definition negotiate_sync ::
  "fp_ops \<Rightarrow> port_capability list \<Rightarrow> SyncPolicy option \<Rightarrow> preference_set \<Rightarrow> neg_error + SyncPolicy" where
  "negotiate_sync fp inputs edge_sync pref =
     (let supported = sync_common inputs;
          want = (case edge_sync of Some s \<Rightarrow> Some s | None \<Rightarrow> ps_sync_policy pref) in
      if supported = Some [] then Inl (Neg_Conflict ''sync_policy'' ''[]'' ''[]'')
      else case want of
             Some w \<Rightarrow>
               (case supported of
                  Some ss \<Rightarrow>
                    if w \<notin> set ss then
                      Inl (Neg_Conflict ''sync_policy'' (CHR 0x22 # SyncPolicy_ToString w @ [CHR 0x22])
                        (Serialize fp (StringsJson (map SyncPolicy_ToString ss))))
                    else Inr w
                | None \<Rightarrow> Inr w)
           | None \<Rightarrow> Inr (case supported of Some ss \<Rightarrow> hd ss | None \<Rightarrow> kAny))"

definition check_input :: "port_capability \<Rightarrow> port_capability \<Rightarrow> unit \<Rightarrow> neg_error + unit" where
  "check_input output p _ =
     (if pc_direction p \<noteq> kInput then Inl (Neg_Invalid ''negotiation target must be an input port'')
      else if pc_type_tag p \<noteq> pc_type_tag output then
        Inl (Neg_Conflict ''logical_type'' (CHR 0x22 # pc_type_tag output @ [CHR 0x22])
          (CHR 0x22 # pc_type_tag p @ [CHR 0x22]))
      else Inr ())"

definition negotiate_dims ::
  "fp_ops \<Rightarrow> port_capability \<Rightarrow> port_capability list \<Rightarrow> SyncPolicy option \<Rightarrow> preference_set \<Rightarrow>
   neg_error + connection_contract" where
  "negotiate_dims fp output inputs edge_sync pref =
     (if pc_direction output \<noteq> kOutput then
        Inl (Neg_Invalid ''negotiation source must be an output port'')
      else
        bind_result (fold_result (check_input output) inputs ()) (\<lambda>_.
        bind_result (negotiate_video fp output inputs pref) (\<lambda>video.
        bind_result (negotiate_audio fp output inputs pref) (\<lambda>audio.
        bind_result (negotiate_tensor fp output inputs pref) (\<lambda>tensor.
        bind_result (negotiate_memory fp output inputs pref) (\<lambda>(mk, dev).
        bind_result (negotiate_sync fp inputs edge_sync pref) (\<lambda>sync.
          Inr \<lparr>cc_logical_type = pc_type_tag output, cc_video = video, cc_audio = audio,
               cc_tensor = tensor, cc_memory_kind = mk, cc_device_id = dev, cc_sync_policy = sync,
               cc_source_capability = 0, cc_target_capability = 0\<rparr>)))))))"

definition make_conflict :: "port_capability \<Rightarrow> string list \<Rightarrow> string \<Rightarrow> string \<Rightarrow> string \<Rightarrow> capability_conflict" where
  "make_conflict output names dim lhs rhs =
     \<lparr>cf_dimension = dim, cf_lhs_json = lhs, cf_rhs_json = rhs,
      cf_suggested_converter = SuggestConverter dim (pc_type_tag output), cf_consumers = names\<rparr>"

definition conflict_status :: "capability_conflict \<Rightarrow> status" where
  "conflict_status c = Status_CapabilityConflict
     (''no common capability on dimension '' @ quoted (cf_dimension c) @
      (if cf_suggested_converter c = [] then [] else '' (insert explicit '' @ cf_suggested_converter c @ '')''))
     (Some (Conflict_ToJson c))"

text \<open>The result and the new \<open>last_conflict_\<close>.\<close>

definition NegotiateUncached ::
  "fp_ops \<Rightarrow> port_capability \<Rightarrow> port_capability list \<Rightarrow> SyncPolicy option \<Rightarrow> preference_set \<Rightarrow> string list \<Rightarrow>
   connection_contract result \<times> capability_conflict option" where
  "NegotiateUncached fp output inputs edge_sync pref names =
     (case negotiate_dims fp output inputs edge_sync pref of
        Inr c \<Rightarrow> (Inr c, None)
      | Inl (Neg_Invalid m) \<Rightarrow> (Inl (Status_InvalidArgument m), None)
      | Inl (Neg_Conflict dim lhs rhs) \<Rightarrow>
          (let c = make_conflict output names dim lhs rhs in (Inl (conflict_status c), Some c)))"

subsection \<open>The negotiator\<close>

record neg_key =
  nk_source_operator :: operator_key
  nk_source_capability :: capability_version
  nk_target_operator :: operator_key
  nk_target_capability :: capability_version
  nk_source_port :: string
  nk_target_port :: string
  nk_preferences :: "64 word"

record negotiator =
  ng_cache :: "neg_key \<Rightarrow> connection_contract option"
  ng_last_conflict :: "capability_conflict option"

fun SyncPolicy_index :: "SyncPolicy \<Rightarrow> 64 word" where
  "SyncPolicy_index kAligned = 0"
| "SyncPolicy_index kLatest = 1"
| "SyncPolicy_index kAny = 2"

definition edge_key ::
  "fp_ops \<Rightarrow> operator_key \<Rightarrow> capability_version \<Rightarrow> port_capability \<Rightarrow> operator_key \<Rightarrow> capability_version \<Rightarrow>
   port_capability \<Rightarrow> SyncPolicy option \<Rightarrow> preference_set \<Rightarrow> neg_key" where
  "edge_key fp sop scap output tgt tcap input edge_sync pref =
     (let h = PreferenceSet_Hash fp pref in
      \<lparr>nk_source_operator = sop, nk_source_capability = scap, nk_target_operator = tgt,
       nk_target_capability = tcap, nk_source_port = pc_name output, nk_target_port = pc_name input,
       nk_preferences = (case edge_sync of
                           Some s \<Rightarrow> h XOR (SyncPolicy_index s + 0x9e3779b97f4a7c15) | None \<Rightarrow> h)\<rparr>)"

definition NegotiateEdge ::
  "fp_ops \<Rightarrow> operator_key \<Rightarrow> capability_version \<Rightarrow> port_capability \<Rightarrow> operator_key \<Rightarrow> capability_version \<Rightarrow>
   port_capability \<Rightarrow> SyncPolicy option \<Rightarrow> preference_set \<Rightarrow> negotiator \<Rightarrow>
   connection_contract result \<times> negotiator" where
  "NegotiateEdge fp sop scap output tgt tcap input edge_sync pref ng =
     (let key = edge_key fp sop scap output tgt tcap input edge_sync pref in
      case ng_cache ng key of
        Some c \<Rightarrow> (Inr c, ng)
      | None \<Rightarrow>
          let (r, conflict) = NegotiateUncached fp output [input] edge_sync pref [];
              ng1 = ng\<lparr>ng_last_conflict := conflict\<rparr> in
          case r of
            Inl s \<Rightarrow> (Inl s, ng1)
          | Inr c \<Rightarrow>
              let c' = c\<lparr>cc_source_capability := scap, cc_target_capability := tcap\<rparr>
              in (Inr c', ng1\<lparr>ng_cache := (ng_cache ng1)(key \<mapsto> c')\<rparr>))"

record fanout_consumer =
  fc_node_id :: string
  fc_op :: operator_key
  fc_capability :: capability_version
  fc_port :: port_capability
  fc_edge_sync :: "SyncPolicy option"

definition fc_name :: "fanout_consumer \<Rightarrow> string" where
  "fc_name c = fc_node_id c @ ''.'' @ pc_name (fc_port c)"

definition fanout_sync :: "fanout_consumer \<Rightarrow> SyncPolicy option \<Rightarrow> status + SyncPolicy option" where
  "fanout_sync c acc =
     (case fc_edge_sync c of
        None \<Rightarrow> Inr acc
      | Some s \<Rightarrow>
          (case acc of
             Some s' \<Rightarrow>
               if s' \<noteq> s then
                 Inl (Status_CapabilityConflict ''fan-out consumers request different sync policies'' None)
               else Inr (Some s)
           | None \<Rightarrow> Inr (Some s)))"

definition targets_hash :: "fanout_consumer list \<Rightarrow> 64 word" where
  "targets_hash cs =
     fold (\<lambda>c h. Fnv1a (fc_name c @ '':'' @ nat_to_string (unat (fc_capability c)))
                  (h XOR 0x9e3779b97f4a7c15)) cs 0"

definition NegotiateFanout ::
  "fp_ops \<Rightarrow> capability_version \<Rightarrow> port_capability \<Rightarrow> fanout_consumer list \<Rightarrow> preference_set \<Rightarrow>
   connection_contract option \<Rightarrow> negotiator \<Rightarrow> connection_contract result \<times> negotiator" where
  "NegotiateFanout fp scap output consumers pref existing ng =
     (if consumers = [] then (Inl (Status_InvalidArgument ''fan-out needs at least one consumer''), ng)
      else
        let cs = sort_key (\<lambda>c. (fc_node_id c, pc_name (fc_port c))) consumers; names = map fc_name cs in
        case fold_result fanout_sync cs None of
          Inl s \<Rightarrow> (Inl s, ng)
        | Inr edge_sync \<Rightarrow>
            let (r, conflict) = NegotiateUncached fp output (map fc_port cs) edge_sync pref names;
                ng1 = ng\<lparr>ng_last_conflict := conflict\<rparr> in
            case r of
              Inl s \<Rightarrow> (Inl s, ng1)
            | Inr c0 \<Rightarrow>
                let c = c0\<lparr>cc_source_capability := scap, cc_target_capability := targets_hash cs\<rparr> in
                case existing of
                  None \<Rightarrow> (Inr c, ng1)
                | Some e \<Rightarrow>
                    if c\<lparr>cc_target_capability := cc_target_capability e\<rparr> \<noteq> e then
                      let cf = \<lparr>cf_dimension = ''existing_contract'',
                                cf_lhs_json = Serialize fp (Contract_ToJson e),
                                cf_rhs_json = Serialize fp (Contract_ToJson c),
                                cf_suggested_converter = [], cf_consumers = names\<rparr>
                      in (Inl (Status_CapabilityConflict
                               ''adding consumer would change the published fan-out contract''
                               (Some (Conflict_ToJson cf))),
                          ng1\<lparr>ng_last_conflict := Some cf\<rparr>)
                    else (Inr c, ng1))"

definition InvalidateOperator :: "operator_key \<Rightarrow> negotiator \<Rightarrow> negotiator" where
  "InvalidateOperator op ng =
     ng\<lparr>ng_cache := (\<lambda>k. if nk_source_operator k = op \<or> nk_target_operator k = op then None else ng_cache ng k)\<rparr>"

definition InvalidateAll :: "negotiator \<Rightarrow> negotiator" where
  "InvalidateAll ng = ng\<lparr>ng_cache := (\<lambda>_. None)\<rparr>"

subsection \<open>Intersections\<close>

text \<open>A value satisfies an unconstrained dimension or is among the candidates; a range lies within an
  unconstrained one or within its bounds.\<close>

definition in_dim :: "'a \<Rightarrow> 'a list option \<Rightarrow> bool" where
  "in_dim x d = (case d of None \<Rightarrow> True | Some s \<Rightarrow> x \<in> set s)"

definition within :: "int_range \<Rightarrow> int_range option \<Rightarrow> bool" where
  "within r d = (case d of None \<Rightarrow> True | Some s \<Rightarrow> rg_min s \<le> rg_min r \<and> rg_max r \<le> rg_max s)"

lemma in_dim_Intersect: "in_dim x (IntersectSets a b) \<longleftrightarrow> in_dim x a \<and> in_dim x b"
  by (auto simp: in_dim_def IntersectSets_def split: option.splits)

lemma fold_IntersectSets:
  "in_dim x (fold (\<lambda>p k. IntersectSets k (f p)) ps k) \<longleftrightarrow> in_dim x k \<and> (\<forall>p\<in>set ps. in_dim x (f p))"
  by (induction ps arbitrary: k) (auto simp: in_dim_Intersect)

lemma IntersectSets_None: "IntersectSets a b = None \<longleftrightarrow> a = None \<and> b = None"
  by (auto simp: IntersectSets_def split: option.splits)

lemma fold_IntersectSets_None:
  "fold (\<lambda>p k. IntersectSets k (f p)) ps k = None \<longleftrightarrow> k = None \<and> (\<forall>p\<in>set ps. f p = None)"
  by (induction ps arbitrary: k) (auto simp: IntersectSets_None)

lemma within_Intersect:
  "IntersectRanges (<) a b = Some r \<Longrightarrow> within r a \<and> within r b"
  by (auto simp: IntersectRanges_def within_def Range_Intersect_def split: option.splits if_splits)

lemma within_trans: "within r (Some s) \<Longrightarrow> within s d \<Longrightarrow> within r d"
  by (auto simp: within_def split: option.splits)

lemma IntersectRanges_None: "IntersectRanges lt a b = None \<longleftrightarrow> a = None \<and> b = None"
  by (auto simp: IntersectRanges_def split: option.splits)

lemma fold_IntersectRanges_None:
  "fold (\<lambda>p k. IntersectRanges lt k (f p)) ps k = None \<longleftrightarrow> k = None \<and> (\<forall>p\<in>set ps. f p = None)"
  by (induction ps arbitrary: k) (auto simp: IntersectRanges_None)

lemma fold_IntersectRanges:
  "fold (\<lambda>p k. IntersectRanges (<) k (f p)) ps k = Some r \<Longrightarrow>
     within r k \<and> (\<forall>p\<in>set ps. within r (f p))"
proof (induction ps arbitrary: k)
  case Nil
  then show ?case by (simp add: within_def)
next
  case (Cons p ps)
  then have "within r (IntersectRanges (<) k (f p))" "\<forall>p\<in>set ps. within r (f p)" by auto
  then show ?case
    using within_Intersect [of k "f p"] within_trans
    by (cases "IntersectRanges (<) k (f p)")
      (auto simp: IntersectRanges_None within_def [of _ None])
qed

lemma ChooseDeterministically_mem:
  assumes "common \<noteq> []"
  shows "ChooseDeterministically common pref prio \<in> set common"
proof -
  have "x \<in> set common" if "Option.bind o' (find (\<lambda>x. x \<in> set common)) = Some x" for x o'
    using that by (cases o') (auto dest!: find_Some_D)
  then show ?thesis
    using assms by (auto simp: ChooseDeterministically_def split: option.splits)
qed

lemma find_first: "find P xs = Some x \<Longrightarrow> (\<exists>ys zs. xs = ys @ x # zs \<and> P x \<and> (\<forall>y\<in>set ys. \<not> P y))"
proof (induction xs)
  case (Cons a xs)
  then show ?case by (cases "P a") (force intro: exI [of _ "[]"] exI [of _ "a # _"])+
qed simp

subsection \<open>The blocks\<close>

lemma video_common_fields:
  "vc_pixel_formats (video_common fp p ps) = fold (\<lambda>p k. IntersectSets k (vc_pixel_formats (video_of p))) ps (vc_pixel_formats (video_of p))"
  "vc_width (video_common fp p ps) = fold (\<lambda>p k. IntersectRanges (<) k (vc_width (video_of p))) ps (vc_width (video_of p))"
  "vc_height (video_common fp p ps) = fold (\<lambda>p k. IntersectRanges (<) k (vc_height (video_of p))) ps (vc_height (video_of p))"
  "vc_color_spaces (video_common fp p ps) = fold (\<lambda>p k. IntersectSets k (vc_color_spaces (video_of p))) ps (vc_color_spaces (video_of p))"
  "vc_color_ranges (video_common fp p ps) = fold (\<lambda>p k. IntersectSets k (vc_color_ranges (video_of p))) ps (vc_color_ranges (video_of p))"
  "vc_hdr_modes (video_common fp p ps) = fold (\<lambda>p k. IntersectSets k (vc_hdr_modes (video_of p))) ps (vc_hdr_modes (video_of p))"
  unfolding video_common_def by (induction ps arbitrary: p rule: rev_induct) (simp_all add: Let_def)

lemma audio_common_fields:
  "ac_sample_formats (audio_common p ps) = fold (\<lambda>p k. IntersectSets k (ac_sample_formats (audio_of p))) ps (ac_sample_formats (audio_of p))"
  "ac_sample_rate (audio_common p ps) = fold (\<lambda>p k. IntersectRanges (<) k (ac_sample_rate (audio_of p))) ps (ac_sample_rate (audio_of p))"
  "ac_channel_layouts (audio_common p ps) = fold (\<lambda>p k. IntersectSets k (ac_channel_layouts (audio_of p))) ps (ac_channel_layouts (audio_of p))"
  unfolding audio_common_def by (induction ps arbitrary: p rule: rev_induct) (simp_all add: Let_def)

text \<open>What a port's constraints require of a selected format.\<close>

definition opt_in :: "'a option \<Rightarrow> 'a list option \<Rightarrow> bool" where
  "opt_in x d = (case x of None \<Rightarrow> d = None | Some v \<Rightarrow> in_dim v d)"

definition opt_within :: "int_range option \<Rightarrow> int_range option \<Rightarrow> bool" where
  "opt_within r d = (case r of None \<Rightarrow> d = None | Some v \<Rightarrow> rg_min v \<le> rg_max v \<and> within v d)"

definition video_accepts :: "video_constraints \<Rightarrow> selected_video \<Rightarrow> bool" where
  "video_accepts c v \<longleftrightarrow> in_dim (sv_pixel_format v) (vc_pixel_formats c) \<and>
     opt_within (sv_width v) (vc_width c) \<and> opt_within (sv_height v) (vc_height c) \<and>
     opt_in (sv_color_space v) (vc_color_spaces c) \<and> opt_in (sv_color_range v) (vc_color_ranges c) \<and>
     opt_in (sv_hdr_mode v) (vc_hdr_modes c)"

definition audio_accepts :: "audio_constraints \<Rightarrow> selected_audio \<Rightarrow> bool" where
  "audio_accepts c v \<longleftrightarrow> in_dim (sa_sample_format v) (ac_sample_formats c) \<and>
     opt_within (sa_sample_rate v) (ac_sample_rate c) \<and> opt_in (sa_channel_layout v) (ac_channel_layouts c)"

lemma opt_in_choice:
  assumes "c = fold (\<lambda>p k. IntersectSets k (f p)) ps (f p0)" "c \<noteq> Some []" "p \<in> set (p0 # ps)"
  shows "opt_in (map_option (\<lambda>s. ChooseDeterministically s pr None) c) (f p)"
proof (cases c)
  case None
  then show ?thesis using assms(1,3) fold_IntersectSets_None [of f ps "f p0"] by (auto simp: opt_in_def)
next
  case (Some s)
  then have "ChooseDeterministically s pr None \<in> set s" using assms(2) by (intro ChooseDeterministically_mem) auto
  then have "in_dim (ChooseDeterministically s pr None) c" using Some by (simp add: in_dim_def)
  then have "in_dim (ChooseDeterministically s pr None) (f p)"
    using assms(1,3) fold_IntersectSets [of _ f ps "f p0"] by auto
  then show ?thesis using Some by (simp add: opt_in_def)
qed

lemma in_dim_choice:
  assumes "fold (\<lambda>p k. IntersectSets k (f p)) ps (f p0) = Some s" "s \<noteq> []" "p \<in> set (p0 # ps)"
  shows "in_dim (ChooseDeterministically s pr pi) (f p)"
proof -
  have "in_dim (ChooseDeterministically s pr pi) (Some s)"
    using ChooseDeterministically_mem [OF assms(2)] by (simp add: in_dim_def)
  then have "in_dim (ChooseDeterministically s pr pi) (f p0) \<and>
      (\<forall>q\<in>set ps. in_dim (ChooseDeterministically s pr pi) (f q))"
    unfolding assms(1) [symmetric] fold_IntersectSets .
  then show ?thesis using assms(3) by auto
qed

lemma opt_within_choice:
  assumes "c = fold (\<lambda>p k. IntersectRanges (<) k (f p)) ps (f p0)" "\<not> range_bad (<) c" "p \<in> set (p0 # ps)"
  shows "opt_within c (f p)"
proof (cases c)
  case None
  have "f p0 = None \<and> (\<forall>q\<in>set ps. f q = None)"
    unfolding fold_IntersectRanges_None [of "(<)", symmetric] using None assms(1) by simp
  then show ?thesis using None assms(3) by (auto simp: opt_within_def)
next
  case (Some r)
  have "within r (f p0) \<and> (\<forall>q\<in>set ps. within r (f q))"
    by (rule fold_IntersectRanges) (simp add: assms(1) [symmetric] Some)
  then show ?thesis
    using Some assms(2,3) by (auto simp: opt_within_def range_bad_def Range_Empty_def)
qed

lemma negotiate_video_sound:
  assumes "negotiate_video fp output inputs pref = Inr (Some v)" "p \<in> set (output # inputs)"
  shows "video_accepts (video_of p) v"
proof -
  let ?c = "video_common fp output inputs"
  obtain pf where c: "vc_pixel_formats ?c = Some pf" "pf \<noteq> []" "\<not> range_bad (<) (vc_width ?c)"
      "\<not> range_bad (<) (vc_height ?c)" "vc_color_spaces ?c \<noteq> Some []" "vc_color_ranges ?c \<noteq> Some []"
      "vc_hdr_modes ?c \<noteq> Some []"
    and v: "sv_pixel_format v = ChooseDeterministically pf (Pref pref ''pixel_format'')
        (front_dim (\<lambda>p. vc_pixel_formats (video_of p)) inputs)"
      "sv_width v = vc_width ?c" "sv_height v = vc_height ?c"
      "sv_color_space v = map_option (\<lambda>s. ChooseDeterministically s (Pref pref ''color_space'') None) (vc_color_spaces ?c)"
      "sv_color_range v = map_option (\<lambda>s. ChooseDeterministically s (Pref pref ''color_range'') None) (vc_color_ranges ?c)"
      "sv_hdr_mode v = map_option (\<lambda>s. ChooseDeterministically s (Pref pref ''hdr_mode'') None) (vc_hdr_modes ?c)"
    using assms(1) by (auto simp: negotiate_video_def Let_def split: if_splits option.splits)
  show ?thesis unfolding video_accepts_def v
    using in_dim_choice [OF c(1) [unfolded video_common_fields] c(2) assms(2)]
      opt_within_choice [OF video_common_fields(2) c(3) assms(2)]
      opt_within_choice [OF video_common_fields(3) c(4) assms(2)]
      opt_in_choice [OF video_common_fields(4) c(5) assms(2)]
      opt_in_choice [OF video_common_fields(5) c(6) assms(2)]
      opt_in_choice [OF video_common_fields(6) c(7) assms(2)] by simp
qed

lemma negotiate_audio_sound:
  assumes "negotiate_audio fp output inputs pref = Inr (Some v)" "p \<in> set (output # inputs)"
  shows "audio_accepts (audio_of p) v"
proof -
  let ?c = "audio_common output inputs"
  obtain sf where c: "ac_sample_formats ?c = Some sf" "sf \<noteq> []" "\<not> range_bad (<) (ac_sample_rate ?c)"
      "ac_channel_layouts ?c \<noteq> Some []"
    and v: "sa_sample_format v = ChooseDeterministically sf (Pref pref ''sample_format'')
        (front_dim (\<lambda>p. ac_sample_formats (audio_of p)) inputs)"
      "sa_sample_rate v = ac_sample_rate ?c"
      "sa_channel_layout v = map_option (\<lambda>s. ChooseDeterministically s (Pref pref ''channel_layout'') None) (ac_channel_layouts ?c)"
    using assms(1) by (auto simp: negotiate_audio_def Let_def split: if_splits option.splits)
  show ?thesis unfolding audio_accepts_def v
    using in_dim_choice [OF c(1) [unfolded audio_common_fields] c(2) assms(2)]
      opt_within_choice [OF audio_common_fields(2) c(3) assms(2)]
      opt_in_choice [OF audio_common_fields(3) c(4) assms(2)] by simp
qed


text \<open>A negative maximum of a tensor dimension is unbounded.\<close>

definition dim_within :: "int_range \<Rightarrow> int_range \<Rightarrow> bool" where
  "dim_within r d \<longleftrightarrow> rg_min d \<le> rg_min r \<and> (rg_max d < 0 \<or> 0 \<le> rg_max r \<and> rg_max r \<le> rg_max d)"

definition shape_within :: "int_range list \<Rightarrow> int_range list \<Rightarrow> bool" where
  "shape_within s t \<longleftrightarrow> t = [] \<or> list_all2 dim_within s t"

definition tensor_accepts :: "tensor_constraints \<Rightarrow> selected_tensor \<Rightarrow> bool" where
  "tensor_accepts c v \<longleftrightarrow> in_dim (stn_dtype v) (tc_dtypes c) \<and> opt_in (stn_layout v) (tc_layouts c) \<and>
     shape_within (stn_shape v) (tc_shape c)"

lemma dim_within_refl: "dim_within r r"
  by (auto simp: dim_within_def)

lemma dim_within_trans: "dim_within r s \<Longrightarrow> dim_within s t \<Longrightarrow> dim_within r t"
  by (auto simp: dim_within_def)

lemma shape_within_refl: "shape_within s s"
  by (auto simp: shape_within_def dim_within_refl intro: list_all2_refl)

lemma shape_within_trans:
  assumes "shape_within r s" "shape_within s t" "s \<noteq> [] \<or> t = []"
  shows "shape_within r t"
  using assms list_all2_trans [of dim_within dim_within dim_within r s t] dim_within_trans
  by (auto simp: shape_within_def)

lemma merge_shape_within:
  "merge_shape fp i c t = Inr s \<Longrightarrow> length c = length t \<Longrightarrow>
     list_all2 dim_within s c \<and> list_all2 dim_within s t"
proof (induction fp i c t arbitrary: s rule: merge_shape.induct)
  case (1 fp i c cs t ts)
  show ?case
    using "1.prems" "1.IH" [OF refl refl]
    by (auto simp: Let_def bind_result_Inr dim_within_def split: if_splits)
qed auto

lemma tensor_step_sound:
  assumes "tensor_step fp p c = Inr c'"
  shows "tc_dtypes c' = IntersectSets (tc_dtypes c) (tc_dtypes (tensor_of p))"
    and "tc_layouts c' = IntersectSets (tc_layouts c) (tc_layouts (tensor_of p))"
    and "shape_within (tc_shape c') (tc_shape c)" "shape_within (tc_shape c') (tc_shape (tensor_of p))"
    and "tc_shape c' \<noteq> [] \<or> tc_shape c = [] \<and> tc_shape (tensor_of p) = []"
  using assms merge_shape_within [of fp 0 "tc_shape c" "tc_shape (tensor_of p)"]
  by (auto simp: tensor_step_def Let_def bind_result_Inr shape_within_refl split: if_splits)
    (auto simp: shape_within_def)

lemma tensor_fold_sound:
  "fold_result (tensor_step fp) ps c = Inr c' \<Longrightarrow>
     tc_dtypes c' = fold (\<lambda>p k. IntersectSets k (tc_dtypes (tensor_of p))) ps (tc_dtypes c) \<and>
     tc_layouts c' = fold (\<lambda>p k. IntersectSets k (tc_layouts (tensor_of p))) ps (tc_layouts c) \<and>
     shape_within (tc_shape c') (tc_shape c) \<and> (\<forall>p\<in>set ps. shape_within (tc_shape c') (tc_shape (tensor_of p)))"
proof (induction ps arbitrary: c)
  case Nil
  then show ?case by (simp add: shape_within_refl)
next
  case (Cons p ps)
  then obtain c1 where s: "tensor_step fp p c = Inr c1" and r: "fold_result (tensor_step fp) ps c1 = Inr c'"
    by (auto simp: bind_result_Inr)
  note st = tensor_step_sound [OF s]
  show ?case
    using Cons.IH [OF r] st shape_within_trans [of "tc_shape c'" "tc_shape c1"]
    by (auto simp: shape_within_def [of _ "[]"])
qed

lemma negotiate_tensor_sound:
  assumes "negotiate_tensor fp output inputs pref = Inr (Some v)" "p \<in> set (output # inputs)"
  shows "tensor_accepts (tensor_of p) v"
proof -
  obtain c dt where f: "fold_result (tensor_step fp) inputs (tensor_of output) = Inr c"
    and c: "tc_dtypes c = Some dt" "dt \<noteq> []" "tc_layouts c \<noteq> Some []"
    and v: "stn_dtype v = ChooseDeterministically dt (Pref pref ''dtype'')
        (front_dim (\<lambda>p. tc_dtypes (tensor_of p)) inputs)"
      "stn_layout v = map_option (\<lambda>s. ChooseDeterministically s (Pref pref ''layout'') None) (tc_layouts c)"
      "stn_shape v = tc_shape c"
    using assms(1) by (auto simp: negotiate_tensor_def Let_def bind_result_Inr split: if_splits option.splits)
  note F = tensor_fold_sound [OF f]
  show ?thesis unfolding tensor_accepts_def v
    using in_dim_choice [of "\<lambda>p. tc_dtypes (tensor_of p)" inputs "output" dt p] F c assms(2)
      opt_in_choice [of "tc_layouts c" "\<lambda>p. tc_layouts (tensor_of p)" inputs "output" p] by auto
qed

lemma preferred_mem: "xs \<noteq> [] \<Longrightarrow> d \<in> set xs \<Longrightarrow> preferred pr xs d \<in> set xs"
  by (auto simp: preferred_def split: option.splits)

lemma min_list_mem: "xs \<noteq> [] \<Longrightarrow> min_list xs \<in> set (xs :: int list)"
  by (simp add: min_list_Min)

lemma negotiate_memory_sound:
  assumes "negotiate_memory fp output inputs pref = Inr (mk, dev)" "p \<in> set (output # inputs)"
  shows "in_dim mk (mc_kinds (pc_memory p))"
    and "if mk = Memory_CudaDevice \<or> mk = Memory_Pinned then in_dim dev (mc_device_ids (pc_memory p))
         else dev = - 1"
proof -
  have kinds: "in_dim mk (memory_common output inputs)" and
    devs: "if mk = Memory_CudaDevice \<or> mk = Memory_Pinned then in_dim dev (device_common output inputs)
           else dev = - 1"
    using assms(1)
    by (auto simp: negotiate_memory_def Let_def in_dim_def preferred_mem min_list_mem split: if_splits option.splits)
      (metis hd_in_set preferred_mem)+
  show "in_dim mk (mc_kinds (pc_memory p))"
    using kinds assms(2) fold_IntersectSets [of mk "\<lambda>p. mc_kinds (pc_memory p)" inputs]
    by (auto simp: memory_common_def)
  show "if mk = Memory_CudaDevice \<or> mk = Memory_Pinned then in_dim dev (mc_device_ids (pc_memory p))
         else dev = - 1"
    using devs assms(2) fold_IntersectSets [of dev "\<lambda>p. mc_device_ids (pc_memory p)" inputs]
    by (auto simp: device_common_def split: if_splits)
qed

lemma negotiate_sync_sound:
  assumes "negotiate_sync fp inputs es pref = Inr s"
  shows "p \<in> set inputs \<Longrightarrow> in_dim s (pc_sync p)" "es = Some w \<Longrightarrow> s = w"
proof -
  have "in_dim s (sync_common inputs)"
    using assms by (auto simp: negotiate_sync_def Let_def in_dim_def split: if_splits option.splits)
  then show "p \<in> set inputs \<Longrightarrow> in_dim s (pc_sync p)"
    using fold_IntersectSets [of s pc_sync inputs None] by (auto simp: sync_common_def)
  show "es = Some w \<Longrightarrow> s = w"
    using assms by (auto simp: negotiate_sync_def Let_def split: if_splits option.splits)
qed

subsection \<open>A contract fits every port it connects\<close>

text \<open>What the published declaration of a port demands of a contract on its edge.\<close>

definition port_accepts :: "port_capability \<Rightarrow> connection_contract \<Rightarrow> bool" where
  "port_accepts p c \<longleftrightarrow> cc_logical_type c = pc_type_tag p \<and>
     (case cc_video c of Some v \<Rightarrow> video_accepts (video_of p) v
      | None \<Rightarrow> IsBuiltinTypeTag (pc_type_tag p) \<longrightarrow> pc_video p = None) \<and>
     (case cc_audio c of Some v \<Rightarrow> audio_accepts (audio_of p) v
      | None \<Rightarrow> IsBuiltinTypeTag (pc_type_tag p) \<longrightarrow> pc_audio p = None) \<and>
     (case cc_tensor c of Some v \<Rightarrow> tensor_accepts (tensor_of p) v
      | None \<Rightarrow> IsBuiltinTypeTag (pc_type_tag p) \<longrightarrow> pc_tensor p = None) \<and>
     in_dim (cc_memory_kind c) (mc_kinds (pc_memory p)) \<and>
     (if cc_memory_kind c = Memory_CudaDevice \<or> cc_memory_kind c = Memory_Pinned
      then in_dim (cc_device_id c) (mc_device_ids (pc_memory p)) else cc_device_id c = - 1) \<and>
     (pc_direction p = kInput \<longrightarrow> in_dim (cc_sync_policy c) (pc_sync p))"

lemma check_input_fold:
  "fold_result (check_input output) ps u = Inr u' \<Longrightarrow>
     \<forall>p\<in>set ps. pc_direction p = kInput \<and> pc_type_tag p = pc_type_tag output"
  by (induction ps arbitrary: u) (auto simp: check_input_def bind_result_Inr split: if_splits)

lemma no_video_block:
  "negotiate_video fp output inputs pref = Inr None \<Longrightarrow> IsBuiltinTypeTag (pc_type_tag output) \<Longrightarrow>
     p \<in> set (output # inputs) \<Longrightarrow> pc_video p = None"
  by (auto simp: negotiate_video_def Let_def list_ex_iff bind_result_Inr split: if_splits option.splits)

lemma no_audio_block:
  "negotiate_audio fp output inputs pref = Inr None \<Longrightarrow> IsBuiltinTypeTag (pc_type_tag output) \<Longrightarrow>
     p \<in> set (output # inputs) \<Longrightarrow> pc_audio p = None"
  by (auto simp: negotiate_audio_def Let_def list_ex_iff bind_result_Inr split: if_splits option.splits)

lemma no_tensor_block:
  "negotiate_tensor fp output inputs pref = Inr None \<Longrightarrow> IsBuiltinTypeTag (pc_type_tag output) \<Longrightarrow>
     p \<in> set (output # inputs) \<Longrightarrow> pc_tensor p = None"
  by (auto simp: negotiate_tensor_def Let_def list_ex_iff bind_result_Inr split: if_splits option.splits)

lemma negotiate_dims_sound:
  assumes "negotiate_dims fp output inputs es pref = Inr c" "p \<in> set (output # inputs)"
  shows "port_accepts p c"
proof -
  obtain v a t mk dev s where out: "pc_direction output = kOutput"
    and ins: "fold_result (check_input output) inputs () = Inr ()"
    and v: "negotiate_video fp output inputs pref = Inr v"
    and a: "negotiate_audio fp output inputs pref = Inr a"
    and t: "negotiate_tensor fp output inputs pref = Inr t"
    and m: "negotiate_memory fp output inputs pref = Inr (mk, dev)"
    and s: "negotiate_sync fp inputs es pref = Inr s"
    and c: "c = \<lparr>cc_logical_type = pc_type_tag output, cc_video = v, cc_audio = a,
               cc_tensor = t, cc_memory_kind = mk, cc_device_id = dev, cc_sync_policy = s,
               cc_source_capability = 0, cc_target_capability = 0\<rparr>"
    using assms(1) by (auto simp: negotiate_dims_def bind_result_Inr split: if_splits)
  have tag: "pc_type_tag p = pc_type_tag output" and dir: "pc_direction p = kInput \<longrightarrow> p \<in> set inputs"
    using check_input_fold [OF ins] out assms(2) by auto
  have "case v of Some x \<Rightarrow> video_accepts (video_of p) x | None \<Rightarrow> IsBuiltinTypeTag (pc_type_tag p) \<longrightarrow> pc_video p = None"
    using negotiate_video_sound [of fp "output" inputs pref] no_video_block v assms(2) tag by (cases v) auto
  moreover have "case a of Some x \<Rightarrow> audio_accepts (audio_of p) x | None \<Rightarrow> IsBuiltinTypeTag (pc_type_tag p) \<longrightarrow> pc_audio p = None"
    using negotiate_audio_sound [of fp "output" inputs pref] no_audio_block a assms(2) tag by (cases a) auto
  moreover have "case t of Some x \<Rightarrow> tensor_accepts (tensor_of p) x | None \<Rightarrow> IsBuiltinTypeTag (pc_type_tag p) \<longrightarrow> pc_tensor p = None"
    using negotiate_tensor_sound [of fp "output" inputs pref] no_tensor_block t assms(2) tag by (cases t) auto
  moreover have "pc_direction p = kInput \<longrightarrow> in_dim s (pc_sync p)"
    using negotiate_sync_sound(1) [OF s] dir by auto
  ultimately show ?thesis
    unfolding port_accepts_def c using negotiate_memory_sound [OF m assms(2)] tag by simp
qed

lemma port_accepts_capability [simp]:
  "port_accepts p (c\<lparr>cc_source_capability := x\<rparr>) = port_accepts p c"
  "port_accepts p (c\<lparr>cc_target_capability := x\<rparr>) = port_accepts p c"
  by (simp_all add: port_accepts_def)

lemma NegotiateUncached_sound:
  "fst (NegotiateUncached fp output inputs es pref names) = Inr c \<Longrightarrow> p \<in> set (output # inputs) \<Longrightarrow> port_accepts p c"
  by (auto simp: NegotiateUncached_def Let_def split: sum.splits neg_error.splits dest: negotiate_dims_sound)

lemma sort_key_perm:
  assumes "mset xs = mset ys" "inj_on f (set xs)"
  shows "sort_key f xs = sort_key f ys"
proof (rule sort_key_inj_key_eq)
  show "mset xs = mset (sort_key f ys)" using assms(1) by simp
  show "inj_on f (set xs)" by fact
  show "sorted (map f (sort_key f ys))" by simp
qed

lemma NegotiateFanout_sound:
  assumes "NegotiateFanout fp scap out cs pref existing ng = (Inr c, ng')" "p = out \<or> p \<in> fc_port ` set cs"
  shows "port_accepts p c"
proof -
  define ss where "ss = sort_key (\<lambda>c. (fc_node_id c, pc_name (fc_port c))) cs"
  have p: "p \<in> set (out # map fc_port ss)" using assms(2) by (auto simp: ss_def)
  have "port_accepts p c0" if "NegotiateUncached fp out (map fc_port ss) es pref ns = (Inr c0, x)" for es ns c0 x
    using NegotiateUncached_sound [of fp out "map fc_port ss" es pref ns c0 p] p that by simp
  then show ?thesis
    using assms(1) unfolding NegotiateFanout_def ss_def [symmetric] Let_def
    by (auto split: if_splits sum.splits prod.splits option.splits)
qed

lemma NegotiateEdge_fresh:
  assumes "ng_cache ng (edge_key fp sop scap out tgt tcap inp es pref) = None"
  shows "fst (NegotiateEdge fp sop scap out tgt tcap inp es pref ng) =
     (case fst (NegotiateUncached fp out [inp] es pref []) of
        Inl s \<Rightarrow> Inl s
      | Inr c \<Rightarrow> Inr (c\<lparr>cc_source_capability := scap, cc_target_capability := tcap\<rparr>))"
  using assms by (auto simp: NegotiateEdge_def Let_def split: prod.splits sum.splits)

text \<open>Two ports of a small graph, for the witnesses.\<close>

definition sample_port :: "string \<Rightarrow> PortDirection \<Rightarrow> format_set \<Rightarrow> int_range \<Rightarrow> port_capability" where
  "sample_port n d fs w =
     \<lparr>pc_name = n, pc_direction = d, pc_type_tag = ''VideoFrame'', pc_required = True, pc_cardinality = kSingle,
      pc_dynamic_consumers = False, pc_video = Some (empty_video\<lparr>vc_pixel_formats := Some fs, vc_width := Some w\<rparr>),
      pc_audio = None, pc_tensor = None,
      pc_memory = \<lparr>mc_kinds = None, mc_device_ids = None, mc_zero_copy_required = False\<rparr>, pc_sync = None\<rparr>"

definition sample_out :: port_capability where
  "sample_out = sample_port ''out'' kOutput [''nv12'', ''rgb''] \<lparr>rg_min = 16, rg_max = 1920\<rparr>"

definition sample_consumer :: "string \<Rightarrow> fanout_consumer" where
  "sample_consumer n =
     \<lparr>fc_node_id = n, fc_op = \<lparr>ok_type_name = ''Sink'', ok_semantic_version = ''1''\<rparr>, fc_capability = 1,
      fc_port = sample_port ''in'' kInput [''rgb'', ''nv12''] \<lparr>rg_min = 32, rg_max = 640\<rparr>, fc_edge_sync = None\<rparr>"

definition no_preference :: preference_set where
  "no_preference = \<lparr>ps_ordered = [], ps_memory_kind = None, ps_device_id = None, ps_sync_policy = None\<rparr>"

definition new_negotiator :: negotiator where
  "new_negotiator = \<lparr>ng_cache = \<lambda>_. None, ng_last_conflict = None\<rparr>"



text \<open>C28. A fan-out contract does not depend on the order in which the consumers are given: the
  result, the reported conflict and the negotiator afterwards are the same for every permutation of
  consumers whose (node, port) pairs are distinct.\<close>

theorem fanout_order_independent:
  assumes "mset cs' = mset cs" "inj_on (\<lambda>c. (fc_node_id c, pc_name (fc_port c))) (set cs)"
  shows "NegotiateFanout fp scap out cs' pref existing ng = NegotiateFanout fp scap out cs pref existing ng"
proof -
  have "sort_key (\<lambda>c. (fc_node_id c, pc_name (fc_port c))) cs' = sort_key (\<lambda>c. (fc_node_id c, pc_name (fc_port c))) cs"
    by (rule sort_key_perm [OF assms(1) [symmetric] assms(2), symmetric])
  moreover have "cs' = [] \<longleftrightarrow> cs = []" using assms(1) by (cases cs; cases cs') auto
  ultimately show ?thesis unfolding NegotiateFanout_def by presburger
qed

theorem fanout_order_independent_witness:
  "NegotiateFanout no_fp 1 sample_out [sample_consumer ''b'', sample_consumer ''a''] no_preference None new_negotiator =
   NegotiateFanout no_fp 1 sample_out [sample_consumer ''a'', sample_consumer ''b''] no_preference None new_negotiator"
  by (rule fanout_order_independent) (simp_all add: sample_consumer_def add_mset_commute)



end
