(* ===== verification/Capability_Json.thy ===== *)
theory Capability_Json
  imports Capability
begin

section \<open>The JSON form of capability descriptors\<close>

text \<open>
  Models the descriptor half of \<open>src/capability_json.cpp\<close> (\<open>ParseIntRange\<close>, \<open>ParseRationalRange\<close>,
  \<open>ParsePort\<close>, \<open>CapabilityDescriptor::ParseJson\<close>, \<open>PortJson\<close>, \<open>CapabilityDescriptor::ToJson\<close>) and
  \<open>CapabilityDescriptor::Version\<close>, the hash of the serialised descriptor. The contract and conflict
  renderings of the same file are in the theory \<open>Capability\<close>. The lemmas show the round trip on what the
  format can carry and what the parser guarantees of a descriptor it accepts.
\<close>

subsection \<open>Parsing\<close>

abbreviation man :: status_code where
  "man \<equiv> GE_STATUS_PLUGIN_MANIFEST_INVALID"

fun map_result :: "('a \<Rightarrow> 'e + 'b) \<Rightarrow> 'a list \<Rightarrow> 'e + 'b list" where
  "map_result f [] = Inr []"
| "map_result f (x # xs) = bind_result (f x) (\<lambda>y. bind_result (map_result f xs) (\<lambda>ys. Inr (y # ys)))"

text \<open>The value of an optional object, which keeps its default when absent.\<close>

definition or_default :: "'a \<Rightarrow> 'a option \<Rightarrow> 'a" where
  "or_default d v = (case v of Some x \<Rightarrow> x | None \<Rightarrow> d)"

text \<open>A field that holds an object: absent, or parsed with the error the code returns for another type.\<close>

definition sub_object :: "string \<Rightarrow> string \<Rightarrow> (json \<Rightarrow> status \<Rightarrow> 'a result) \<Rightarrow> 'a option reader" where
  "sub_object key expected parse = rbind (Reader_Get key) (\<lambda>v r.
     case v of None \<Rightarrow> Inr (None, r)
     | Some x \<Rightarrow> bind_result (parse x (Reader_WrongType r key expected)) (\<lambda>a. Inr (Some a, r)))"

definition range_path :: "object_reader \<Rightarrow> string \<Rightarrow> string" where
  "range_path r key = or_path r @ ''.'' @ key"

definition ParseIntRange :: "string \<Rightarrow> int_range option reader" where
  "ParseIntRange key r =
     sub_object key ''object {min,max}'' (\<lambda>x bad.
       bind_result (read_object x (range_path r key) False man bad
         (rbind (RequireInteger ''min'') (\<lambda>mn. rbind (RequireInteger ''max'') (\<lambda>mx.
           rreturn \<lparr>rg_min = mn, rg_max = mx\<rparr>)))) (\<lambda>rg.
       if rg_max rg < rg_min rg then Inl (Reader_Error r (range_path r key @ '': max < min''))
       else Inr rg)) r"

definition ParseRationalRange :: "fp_ops \<Rightarrow> string \<Rightarrow> rational_range option reader" where
  "ParseRationalRange fp key r =
     sub_object key ''object {min,max}'' (\<lambda>x bad.
       bind_result (read_object x (range_path r key) False man bad
         (rbind (OptionalNumber fp ''min'') (\<lambda>mn. rbind (OptionalNumber fp ''max'') (\<lambda>mx rr.
           case (mn, mx) of
             (Some a, Some b) \<Rightarrow> Inr (\<lparr>rg_min = a, rg_max = b\<rparr>, rr)
           | _ \<Rightarrow> Inl (Reader_Missing rr ''min/max''))))) (\<lambda>rg.
       if fp_less fp (rg_max rg) (rg_min rg) then Inl (Reader_Error r (range_path r key @ '': max < min''))
       else Inr rg)) r"

definition parse_video :: "fp_ops \<Rightarrow> string \<Rightarrow> bool \<Rightarrow> json \<Rightarrow> status \<Rightarrow> video_constraints result" where
  "parse_video fp path allow v bad =
     read_object v (path @ ''.video'') allow man bad
       (rbind (OptionalStringArray ''pixel_formats'') (\<lambda>pf.
        rbind (ParseIntRange ''width'') (\<lambda>w.
        rbind (ParseIntRange ''height'') (\<lambda>h.
        rbind (ParseRationalRange fp ''fps'') (\<lambda>fps.
        rbind (OptionalStringArray ''color_spaces'') (\<lambda>cs.
        rbind (OptionalStringArray ''color_ranges'') (\<lambda>cr.
        rbind (OptionalStringArray ''hdr_modes'') (\<lambda>hm.
          rreturn \<lparr>vc_pixel_formats = pf, vc_width = w, vc_height = h, vc_fps = fps, vc_color_spaces = cs,
                   vc_color_ranges = cr, vc_hdr_modes = hm\<rparr>))))))))"

definition parse_audio :: "string \<Rightarrow> bool \<Rightarrow> json \<Rightarrow> status \<Rightarrow> audio_constraints result" where
  "parse_audio path allow v bad =
     read_object v (path @ ''.audio'') allow man bad
       (rbind (OptionalStringArray ''sample_formats'') (\<lambda>sf.
        rbind (ParseIntRange ''sample_rate'') (\<lambda>sr.
        rbind (OptionalStringArray ''channel_layouts'') (\<lambda>cl.
          rreturn \<lparr>ac_sample_formats = sf, ac_sample_rate = sr, ac_channel_layouts = cl\<rparr>))))"

definition parse_dim :: "string \<Rightarrow> json \<Rightarrow> int_range result" where
  "parse_dim path dim =
     (case dim of
        JInt i \<Rightarrow> Inr \<lparr>rg_min = i, rg_max = i\<rparr>
      | JObj m \<Rightarrow>
          read_object (JObj m) (path @ ''.tensor.shape[]'') False man (Status man [] False None)
            (rbind (RequireInteger ''min'') (\<lambda>mn. rbind (OptionalInteger ''max'') (\<lambda>mx.
              rreturn \<lparr>rg_min = mn, rg_max = or_default (- 1) mx\<rparr>)))
      | _ \<Rightarrow> Inl (Status man (path @ ''.tensor.shape elements must be integer or {min,max}'') False None))"

text \<open>A field that holds an array.\<close>

definition array_field :: "string \<Rightarrow> (json list \<Rightarrow> 'a result) \<Rightarrow> 'a option reader" where
  "array_field key f = rbind (Reader_Get key) (\<lambda>v r.
     case v of None \<Rightarrow> Inr (None, r)
     | Some (JArr vs) \<Rightarrow> bind_result (f vs) (\<lambda>a. Inr (Some a, r))
     | Some _ \<Rightarrow> Inl (Reader_WrongType r key ''array''))"

definition parse_tensor :: "string \<Rightarrow> bool \<Rightarrow> json \<Rightarrow> status \<Rightarrow> tensor_constraints result" where
  "parse_tensor path allow v bad =
     read_object v (path @ ''.tensor'') allow man bad
       (rbind (OptionalStringArray ''dtypes'') (\<lambda>dt.
        rbind (OptionalStringArray ''layouts'') (\<lambda>la.
        rbind (array_field ''shape'' (map_result (parse_dim path))) (\<lambda>sh.
          rreturn \<lparr>tc_dtypes = dt, tc_layouts = la, tc_shape = or_default [] sh\<rparr>))))"

text \<open>The loop that turns the texts of an enumeration into its values.\<close>

definition parse_enum :: "(string \<Rightarrow> 'a option) \<Rightarrow> (string \<Rightarrow> status) \<Rightarrow> string \<Rightarrow> 'a result" where
  "parse_enum parse bad s = (case parse s of None \<Rightarrow> Inl (bad s) | Some x \<Rightarrow> Inr x)"

definition optional_enums :: "(string \<Rightarrow> 'a option) \<Rightarrow> (string \<Rightarrow> status) \<Rightarrow> string list option \<Rightarrow> 'a list option result" where
  "optional_enums parse bad ss =
     (case ss of None \<Rightarrow> Inr None
      | Some xs \<Rightarrow> bind_result (map_result (parse_enum parse bad) xs) (\<lambda>ys. Inr (Some ys)))"

definition parse_device_id :: "string \<Rightarrow> json \<Rightarrow> int result" where
  "parse_device_id path v =
     (case v of JInt i \<Rightarrow> Inr (i32 i)
      | _ \<Rightarrow> Inl (Status man (path @ ''.memory.device_ids must be integers'') False None))"

definition parse_memory :: "string \<Rightarrow> bool \<Rightarrow> json \<Rightarrow> status \<Rightarrow> memory_constraints result" where
  "parse_memory path allow v bad =
     read_object v (path @ ''.memory'') allow man bad
       (rbind (OptionalStringArray ''kinds'') (\<lambda>ks.
        rbind (rlift (optional_enums ParseMemoryKind
                 (\<lambda>k. Status man (''invalid memory kind '' @ quoted k @ '' in '' @ path) False None) ks)) (\<lambda>kinds.
        rbind (array_field ''device_ids'' (map_result (parse_device_id path))) (\<lambda>ids.
        rbind (OptionalBool ''zero_copy_required'' False) (\<lambda>z.
          rreturn \<lparr>mc_kinds = kinds, mc_device_ids = ids, mc_zero_copy_required = z\<rparr>)))))"

definition parse_cardinality :: "string \<Rightarrow> string \<Rightarrow> PortCardinality result" where
  "parse_cardinality path c =
     (if c = [] then Inr kSingle
      else if c = ''single'' then Inr kSingle
      else if c = ''multi'' then Inr kMulti
      else Inl (Status man (''invalid cardinality '' @ quoted c @ '' in '' @ path) False None))"

definition no_memory :: memory_constraints where
  "no_memory = \<lparr>mc_kinds = None, mc_device_ids = None, mc_zero_copy_required = False\<rparr>"

definition ParsePort :: "fp_ops \<Rightarrow> PortDirection \<Rightarrow> bool \<Rightarrow> json \<Rightarrow> string \<Rightarrow> port_capability result" where
  "ParsePort fp dir allow v path =
     read_object v path allow man (Status_PluginManifestInvalid (path @ '' must be an object''))
       (rbind (RequireString ''name'') (\<lambda>name.
        rbind (RequireString ''type_tag'') (\<lambda>tag.
        rbind (OptionalBool ''required'' True) (\<lambda>req.
        rbind (OptionalString ''cardinality'' []) (\<lambda>cardinality.
        rbind (rlift (parse_cardinality path cardinality)) (\<lambda>c.
        rbind (OptionalBool ''dynamic_consumers'' False) (\<lambda>dyn.
        rbind (sub_object ''video'' ''object'' (parse_video fp path allow)) (\<lambda>video.
        rbind (sub_object ''audio'' ''object'' (parse_audio path allow)) (\<lambda>audio.
        rbind (sub_object ''tensor'' ''object'' (parse_tensor path allow)) (\<lambda>tensor.
        rbind (sub_object ''memory'' ''object'' (parse_memory path allow)) (\<lambda>memory.
        rbind (OptionalStringArray ''sync'') (\<lambda>ss.
        rbind (rlift (optional_enums ParseSyncPolicy
                 (\<lambda>p. Status man (''invalid sync policy '' @ quoted p @ '' in '' @ path) False None) ss)) (\<lambda>sync.
          rreturn \<lparr>pc_name = name, pc_direction = dir, pc_type_tag = tag, pc_required = req, pc_cardinality = c,
                   pc_dynamic_consumers = dyn, pc_video = video, pc_audio = audio, pc_tensor = tensor,
                   pc_memory = or_default no_memory memory, pc_sync = sync\<rparr>)))))))))))))"

fun parse_ports :: "fp_ops \<Rightarrow> string \<Rightarrow> PortDirection \<Rightarrow> bool \<Rightarrow> nat \<Rightarrow> json list \<Rightarrow> port_capability list \<Rightarrow>
    port_capability list result" where
  "parse_ports fp key dir allow i [] acc = Inr acc"
| "parse_ports fp key dir allow i (v # vs) acc =
     bind_result (ParsePort fp dir allow v (''ports.'' @ key @ ''['' @ nat_to_string i @ '']'')) (\<lambda>p.
     if list_ex (\<lambda>x. pc_name x = pc_name p) acc then
       Inl (Status man (''duplicate port name '' @ quoted (pc_name p)) False None)
     else parse_ports fp key dir allow (i + 1) vs (acc @ [p]))"

definition parse_port_lists ::
  "fp_ops \<Rightarrow> bool \<Rightarrow> json \<Rightarrow> status \<Rightarrow> (port_capability list \<times> port_capability list) result" where
  "parse_port_lists fp allow v bad =
     read_object v ''ports'' allow man bad
       (rbind (array_field ''inputs'' (\<lambda>vs. parse_ports fp ''inputs'' kInput allow 0 vs [])) (\<lambda>ins.
        rbind (array_field ''outputs'' (\<lambda>vs. parse_ports fp ''outputs'' kOutput allow 0 vs [])) (\<lambda>outs.
          rreturn (or_default [] ins, or_default [] outs))))"

definition parse_max_parallelism :: "int option \<Rightarrow> nat result" where
  "parse_max_parallelism mp =
     (case mp of None \<Rightarrow> Inr 1
      | Some n \<Rightarrow> if n < 1 then Inl (Status man ''max_parallelism must be >= 1'' False None)
                  else Inr (u32_of_int n))"

definition default_execution :: execution_capability where
  "default_execution = \<lparr>xc_devices = [], xc_stateful = True, xc_async = False, xc_max_parallelism = 1,
     xc_zero_copy = False, xc_max_inference_ms = None\<rparr>"

definition parse_execution :: "bool \<Rightarrow> json \<Rightarrow> status \<Rightarrow> execution_capability result" where
  "parse_execution allow v bad =
     read_object v ''execution'' allow man bad
       (rbind (StringArray ''devices'' False []) (\<lambda>ds.
        rbind (rlift (map_result (parse_enum ParseDeviceKind
                 (\<lambda>d. Status man (''invalid device '' @ quoted d) False None)) ds)) (\<lambda>devices.
        rbind (OptionalBool ''stateful'' True) (\<lambda>stateful.
        rbind (OptionalBool ''async'' False) (\<lambda>async.
        rbind (OptionalInteger ''max_parallelism'') (\<lambda>mp.
        rbind (rlift (parse_max_parallelism mp)) (\<lambda>maxp.
        rbind (OptionalBool ''zero_copy'' False) (\<lambda>zc.
        rbind (OptionalInteger ''max_inference_ms'') (\<lambda>mi.
          rreturn \<lparr>xc_devices = devices, xc_stateful = stateful, xc_async = async, xc_max_parallelism = maxp,
                   xc_zero_copy = zc, xc_max_inference_ms = map_option u64_of_int mi\<rparr>)))))))))"

definition default_parameters :: parameter_capability where
  "default_parameters = \<lparr>pa_hot_updatable = [], pa_migratable = [], pa_schema = JObj []\<rparr>"

definition parse_parameters :: "bool \<Rightarrow> json \<Rightarrow> status \<Rightarrow> parameter_capability result" where
  "parse_parameters allow v bad =
     read_object v ''parameters'' allow man bad
       (rbind (StringArray ''hot_updatable'' False []) (\<lambda>hot.
        rbind (StringArray ''migratable'' False []) (\<lambda>mig.
        rbind (OptionalString ''schema_ref'' []) (\<lambda>_.
        rbind (OptionalObject ''schema'' (JObj [])) (\<lambda>schema.
          rreturn \<lparr>pa_hot_updatable = hot, pa_migratable = mig, pa_schema = schema\<rparr>)))))"

definition parse_resources :: "(string \<times> int) list reader" where
  "parse_resources = rbind (Reader_Get ''resources'') (\<lambda>v r.
     case v of None \<Rightarrow> Inr ([], r)
     | Some (JObj m) \<Rightarrow>
         rlift (fold_result (\<lambda>(k, x) acc. case x of JInt i \<Rightarrow> Inr (om_put k i acc)
           | _ \<Rightarrow> Inl (Reader_Error r (''resources.'' @ k @ '' must be integer''))) m []) r
     | Some _ \<Rightarrow> Inl (Reader_WrongType r ''resources'' ''object''))"

definition parse_events :: "bool \<Rightarrow> json \<Rightarrow> status \<Rightarrow> (string list \<times> string list) result" where
  "parse_events allow v bad =
     read_object v ''events'' allow man bad
       (rbind (StringArray ''emits'' False []) (\<lambda>em. rbind (StringArray ''accepts'' False []) (\<lambda>ac.
          rreturn (em, ac))))"

definition capability_schema_id :: string where
  "capability_schema_id = ''ge.dev/schema/capability/v1''"

definition check_execution :: "execution_capability \<Rightarrow> unit result" where
  "check_execution ex =
     (if xc_stateful ex \<and> xc_max_parallelism ex > 1 then
        Inl (Status man ''stateful operator must have max_parallelism == 1'' False None)
      else if xc_async ex \<and> xc_max_inference_ms ex = None then
        Inl (Status man ''async operator must declare max_inference_ms'' False None)
      else Inr ())"

definition parse_descriptor_fields :: "fp_ops \<Rightarrow> bool \<Rightarrow> capability_descriptor reader" where
  "parse_descriptor_fields fp allow =
     rbind MarkHeaderSeen (\<lambda>_.
     rbind (RequireString ''operator'') (\<lambda>op.
     rbind (rlift (parse_enum OperatorKey_Parse (\<lambda>s. Status man (''invalid operator '' @ quoted s) False None) op)) (\<lambda>key.
     rbind (OptionalString ''description'' []) (\<lambda>description.
     rbind (require_member ''ports'') (\<lambda>pv r0.
     rbind (rlift (parse_port_lists fp allow pv (Reader_WrongType r0 ''ports'' ''object''))) (\<lambda>(ins, outs).
     rbind (sub_object ''execution'' ''object'' (parse_execution allow)) (\<lambda>exo.
     rbind (rlift (check_execution (or_default default_execution exo))) (\<lambda>_.
     rbind (sub_object ''parameters'' ''object'' (parse_parameters allow)) (\<lambda>pao.
     rbind parse_resources (\<lambda>res.
     rbind (sub_object ''events'' ''object'' (parse_events allow)) (\<lambda>evo.
       rreturn \<lparr>cd_op = key, cd_description = description, cd_inputs = ins, cd_outputs = outs,
                cd_execution = or_default default_execution exo,
                cd_parameters = or_default default_parameters pao, cd_resources = res,
                cd_emits = fst (or_default ([], []) evo),
                cd_accepts = snd (or_default ([], []) evo)\<rparr>)))))) r0)))))"

definition Descriptor_ParseDoc :: "fp_ops \<Rightarrow> json \<Rightarrow> capability_descriptor result" where
  "Descriptor_ParseDoc fp doc =
     bind_result (CheckDocumentHeader doc ''CapabilityDescriptor'' 1 capability_schema_id man) (\<lambda>allow.
       read_object doc ''CapabilityDescriptor'' allow man (Status man [] False None) (parse_descriptor_fields fp allow))"

definition Descriptor_ParseJson :: "fp_ops \<Rightarrow> string \<Rightarrow> capability_descriptor result" where
  "Descriptor_ParseJson fp t =
     (case ParseJson fp t of
        Inl e \<Rightarrow> Inl (Status_PluginManifestInvalid (''invalid capability JSON: '' @ json_error_text t e))
      | Inr doc \<Rightarrow> Descriptor_ParseDoc fp doc)"

lemma or_default_simps [simp]: "or_default d None = d" "or_default d (Some x) = x"
  by (simp_all add: or_default_def)

subsection \<open>Writing\<close>

definition video_json :: "video_constraints \<Rightarrow> json" where
  "video_json v = json_members
     [map_option (\<lambda>s. (''pixel_formats'', StringsJson s)) (vc_pixel_formats v),
      map_option (\<lambda>r. (''width'', RangeJson r)) (vc_width v),
      map_option (\<lambda>r. (''height'', RangeJson r)) (vc_height v),
      map_option (\<lambda>r. (''fps'', RationalRangeJson r)) (vc_fps v),
      map_option (\<lambda>s. (''color_spaces'', StringsJson s)) (vc_color_spaces v),
      map_option (\<lambda>s. (''color_ranges'', StringsJson s)) (vc_color_ranges v),
      map_option (\<lambda>s. (''hdr_modes'', StringsJson s)) (vc_hdr_modes v)]"

definition audio_json :: "audio_constraints \<Rightarrow> json" where
  "audio_json a = json_members
     [map_option (\<lambda>s. (''sample_formats'', StringsJson s)) (ac_sample_formats a),
      map_option (\<lambda>r. (''sample_rate'', RangeJson r)) (ac_sample_rate a),
      map_option (\<lambda>s. (''channel_layouts'', StringsJson s)) (ac_channel_layouts a)]"

definition dim_json :: "int_range \<Rightarrow> json" where
  "dim_json d =
     (if rg_min d = rg_max d then JInt (rg_min d)
      else json_members [Some (''min'', JInt (rg_min d)),
        if rg_max d \<ge> 0 then Some (''max'', JInt (rg_max d)) else None])"

definition tensor_json :: "tensor_constraints \<Rightarrow> json" where
  "tensor_json t = json_members
     [map_option (\<lambda>s. (''dtypes'', StringsJson s)) (tc_dtypes t),
      map_option (\<lambda>s. (''layouts'', StringsJson s)) (tc_layouts t),
      if tc_shape t \<noteq> [] then Some (''shape'', JArr (map dim_json (tc_shape t))) else None]"

definition memory_json :: "memory_constraints \<Rightarrow> json" where
  "memory_json m = json_members
     [map_option (\<lambda>ks. (''kinds'', StringsJson (map MemoryKind_ToString ks))) (mc_kinds m),
      map_option (\<lambda>ids. (''device_ids'', JArr (map JInt ids))) (mc_device_ids m),
      if mc_zero_copy_required m then Some (''zero_copy_required'', JBool True) else None]"

definition PortJson :: "port_capability \<Rightarrow> json" where
  "PortJson p = json_members
     [Some (''name'', JStr (pc_name p)), Some (''type_tag'', JStr (pc_type_tag p)),
      if pc_direction p = kInput \<and> \<not> pc_required p then Some (''required'', JBool False) else None,
      if pc_cardinality p = kMulti then Some (''cardinality'', JStr ''multi'') else None,
      if pc_dynamic_consumers p then Some (''dynamic_consumers'', JBool True) else None,
      map_option (\<lambda>v. (''video'', video_json v)) (pc_video p),
      map_option (\<lambda>a. (''audio'', audio_json a)) (pc_audio p),
      map_option (\<lambda>t. (''tensor'', tensor_json t)) (pc_tensor p),
      if mc_kinds (pc_memory p) \<noteq> None \<or> mc_device_ids (pc_memory p) \<noteq> None \<or> mc_zero_copy_required (pc_memory p)
      then Some (''memory'', memory_json (pc_memory p)) else None,
      map_option (\<lambda>ss. (''sync'', StringsJson (map SyncPolicy_ToString ss))) (pc_sync p)]"

definition execution_json :: "execution_capability \<Rightarrow> json" where
  "execution_json x = json_members
     [Some (''devices'', StringsJson (map DeviceKind_ToString (xc_devices x))),
      Some (''stateful'', JBool (xc_stateful x)), Some (''async'', JBool (xc_async x)),
      Some (''max_parallelism'', JInt (int (xc_max_parallelism x))), Some (''zero_copy'', JBool (xc_zero_copy x)),
      map_option (\<lambda>m. (''max_inference_ms'', JInt (i64 (int m)))) (xc_max_inference_ms x)]"

definition parameters_json :: "parameter_capability \<Rightarrow> json" where
  "parameters_json p = json_members
     [Some (''hot_updatable'', StringsJson (pa_hot_updatable p)),
      if pa_migratable p \<noteq> [] then Some (''migratable'', StringsJson (pa_migratable p)) else None,
      if as_object (pa_schema p) \<noteq> [] then Some (''schema'', pa_schema p) else None]"

definition Descriptor_ToJson :: "capability_descriptor \<Rightarrow> json" where
  "Descriptor_ToJson d = json_members
     [Some (''kind'', JStr ''CapabilityDescriptor''), Some (''schema_version'', JInt 1),
      Some (''$id'', JStr capability_schema_id), Some (''operator'', JStr (OperatorKey_ToString (cd_op d))),
      if cd_description d \<noteq> [] then Some (''description'', JStr (cd_description d)) else None,
      Some (''ports'', json_members [Some (''inputs'', JArr (map PortJson (cd_inputs d))),
        Some (''outputs'', JArr (map PortJson (cd_outputs d)))]),
      Some (''execution'', execution_json (cd_execution d)),
      Some (''parameters'', parameters_json (cd_parameters d)),
      if cd_resources d \<noteq> [] then
        Some (''resources'', json_members (map (\<lambda>(k, v). Some (k, JInt v)) (cd_resources d))) else None,
      if cd_emits d \<noteq> [] \<or> cd_accepts d \<noteq> [] then
        Some (''events'', json_members [Some (''emits'', StringsJson (cd_emits d)),
          Some (''accepts'', StringsJson (cd_accepts d))]) else None]"

definition Descriptor_Serialize :: "fp_ops \<Rightarrow> capability_descriptor \<Rightarrow> string" where
  "Descriptor_Serialize fp d = Serialize fp (Descriptor_ToJson d)"

definition Descriptor_Version :: "fp_ops \<Rightarrow> capability_descriptor \<Rightarrow> capability_version" where
  "Descriptor_Version fp d = Fnv1a (Descriptor_Serialize fp d) fnv_seed"

subsection \<open>Round trip\<close>

lemma map_result_map: "(\<And>x. x \<in> set xs \<Longrightarrow> f (g x) = Inr x) \<Longrightarrow> map_result f (map g xs) = Inr xs"
  by (induction xs) auto

lemma map_result_Inr: "map_result f xs = Inr ys \<longleftrightarrow> list_all2 (\<lambda>x y. f x = Inr y) xs ys"
  by (induction xs arbitrary: ys) (auto simp: bind_result_Inr list_all2_Cons1)

lemma RangeJson_members:
  "RangeJson r = json_members [Some (''min'', JInt (rg_min r)), Some (''max'', JInt (rg_max r))]"
  "RationalRangeJson q = json_members [Some (''min'', JNum (rg_min q)), Some (''max'', JNum (rg_max q))]"
  by (simp_all add: RangeJson_def RationalRangeJson_def json_members_def emplace_all_def om_emplace_def less_char_def)

text \<open>What a reader's method returns when the field was written from an optional value.\<close>

lemma OptionalStringArray_text:
  "json_Find (or_value r) key = map_option StringsJson o' \<Longrightarrow> OptionalStringArray key r = Inr (o', mark key r)"
  by simp

lemma sub_object_text:
  "json_Find (or_value r) key = map_option f o' \<Longrightarrow> (\<And>x bad. o' = Some x \<Longrightarrow> parse (f x) bad = Inr x) \<Longrightarrow>
     sub_object key expected parse r = Inr (o', mark key r)"
  by (cases o') (simp_all add: sub_object_def rbind_def Reader_Get_def)

definition range_ok :: "int_range option \<Rightarrow> bool" where
  "range_ok r = (case r of None \<Rightarrow> True | Some x \<Rightarrow> rg_min x \<le> rg_max x)"

lemma ParseIntRange_text:
  assumes "json_Find (or_value r) key = map_option RangeJson o'" "range_ok o'"
  shows "ParseIntRange key r = Inr (o', mark key r)"
  unfolding ParseIntRange_def
proof (rule sub_object_text [OF assms(1)])
  fix x bad
  assume "o' = Some x"
  then have "rg_min x \<le> rg_max x" using assms(2) by (simp add: range_ok_def)
  then show "bind_result (read_object (RangeJson x) (range_path r key) False man bad
         (rbind (RequireInteger ''min'') (\<lambda>mn. rbind (RequireInteger ''max'') (\<lambda>mx.
           rreturn \<lparr>rg_min = mn, rg_max = mx\<rparr>)))) (\<lambda>rg.
       if rg_max rg < rg_min rg then Inl (Reader_Error r (range_path r key @ '': max < min'')) else Inr rg) = Inr x"
    by (simp add: read_object_def reader_defs RangeJson_members)
qed

definition rational_ok :: "fp_ops \<Rightarrow> rational_range option \<Rightarrow> bool" where
  "rational_ok fp r = (case r of None \<Rightarrow> True | Some x \<Rightarrow> \<not> fp_less fp (rg_max x) (rg_min x))"

lemma ParseRationalRange_text:
  assumes "json_Find (or_value r) key = map_option RationalRangeJson o'" "rational_ok fp o'"
  shows "ParseRationalRange fp key r = Inr (o', mark key r)"
  unfolding ParseRationalRange_def
proof (rule sub_object_text [OF assms(1)])
  fix x bad
  assume "o' = Some x"
  then have "\<not> fp_less fp (rg_max x) (rg_min x)" using assms(2) by (simp add: rational_ok_def)
  then show "bind_result (read_object (RationalRangeJson x) (range_path r key) False man bad
         (rbind (OptionalNumber fp ''min'') (\<lambda>mn. rbind (OptionalNumber fp ''max'') (\<lambda>mx rr.
           case (mn, mx) of
             (Some a, Some b) \<Rightarrow> Inr (\<lparr>rg_min = a, rg_max = b\<rparr>, rr)
           | _ \<Rightarrow> Inl (Reader_Missing rr ''min/max''))))) (\<lambda>rg.
       if fp_less fp (rg_max rg) (rg_min rg) then Inl (Reader_Error r (range_path r key @ '': max < min'')) else Inr rg) = Inr x"
    by (simp add: read_object_def reader_defs OptionalNumber_def RangeJson_members)
qed

lemma opt_case [simp]: "(case o' of Some x \<Rightarrow> Some (f x) | None \<Rightarrow> None) = map_option f o'"
  by (cases o') simp_all

lemma parse_video_text:
  assumes "range_ok (vc_width v)" "range_ok (vc_height v)" "rational_ok fp (vc_fps v)"
  shows "parse_video fp path allow (video_json v) bad = Inr v"
proof -
  have strs: "OptionalStringArray ''pixel_formats'' r = Inr (vc_pixel_formats v, mark ''pixel_formats'' r)"
     "OptionalStringArray ''color_spaces'' r = Inr (vc_color_spaces v, mark ''color_spaces'' r)"
     "OptionalStringArray ''color_ranges'' r = Inr (vc_color_ranges v, mark ''color_ranges'' r)"
     "OptionalStringArray ''hdr_modes'' r = Inr (vc_hdr_modes v, mark ''hdr_modes'' r)"
     "ParseIntRange ''width'' r = Inr (vc_width v, mark ''width'' r)"
     "ParseIntRange ''height'' r = Inr (vc_height v, mark ''height'' r)"
     "ParseRationalRange fp ''fps'' r = Inr (vc_fps v, mark ''fps'' r)"
    if "or_value r = video_json v" for r
    by (rule OptionalStringArray_text ParseIntRange_text ParseRationalRange_text;
        simp add: that video_json_def assms split: option.split)+
  show ?thesis
    by (simp add: parse_video_def read_object_def rbind_def rreturn_def ObjectReader_def strs)
      (cases v, simp add: video_json_def)
qed

lemma parse_audio_text:
  assumes "range_ok (ac_sample_rate a)"
  shows "parse_audio path allow (audio_json a) bad = Inr a"
proof -
  have strs: "OptionalStringArray ''sample_formats'' r = Inr (ac_sample_formats a, mark ''sample_formats'' r)"
     "OptionalStringArray ''channel_layouts'' r = Inr (ac_channel_layouts a, mark ''channel_layouts'' r)"
     "ParseIntRange ''sample_rate'' r = Inr (ac_sample_rate a, mark ''sample_rate'' r)"
    if "or_value r = audio_json a" for r
    by (rule OptionalStringArray_text ParseIntRange_text; simp add: that audio_json_def assms split: option.split)+
  show ?thesis
    by (simp add: parse_audio_def read_object_def rbind_def rreturn_def ObjectReader_def strs)
      (cases a, simp add: audio_json_def)
qed

definition dim_codec_ok :: "int_range \<Rightarrow> bool" where
  "dim_codec_ok d \<longleftrightarrow> rg_min d = rg_max d \<or> rg_max d \<ge> 0 \<or> rg_max d = - 1"

lemma parse_dim_text:
  assumes "dim_codec_ok d" shows "parse_dim path (dim_json d) = Inr d"
proof (cases "rg_min d = rg_max d")
  case True
  then show ?thesis by (cases d) (simp add: dim_json_def parse_dim_def)
next
  case False
  obtain m where m: "json_members [Some (''min'', JInt (rg_min d)),
      if rg_max d \<ge> 0 then Some (''max'', JInt (rg_max d)) else None] = JObj m"
    by (simp add: json_members_def)
  have "parse_dim path (dim_json d) = read_object (JObj m) (path @ ''.tensor.shape[]'') False man (Status man [] False None)
            (rbind (RequireInteger ''min'') (\<lambda>mn. rbind (OptionalInteger ''max'') (\<lambda>mx.
              rreturn \<lparr>rg_min = mn, rg_max = or_default (- 1) mx\<rparr>)))"
    using False by (simp add: parse_dim_def dim_json_def m)
  also have "\<dots> = Inr d"
    unfolding m [symmetric] using assms False
    by (cases d; cases "rg_max d \<ge> 0") (simp_all add: read_object_def reader_defs dim_codec_ok_def)
  finally show ?thesis .
qed

lemma array_field_text:
  "json_Find (or_value r) key = map_option (\<lambda>x. JArr (g x)) o' \<Longrightarrow> (\<And>x. o' = Some x \<Longrightarrow> f (g x) = Inr x) \<Longrightarrow>
     array_field key f r = Inr (o', mark key r)"
  by (cases o') (simp_all add: array_field_def rbind_def Reader_Get_def)

lemma parse_tensor_text:
  assumes "list_all dim_codec_ok (tc_shape t)"
  shows "parse_tensor path allow (tensor_json t) bad = Inr t"
proof -
  have shape: "map_result (parse_dim path) (map dim_json (tc_shape t)) = Inr (tc_shape t)"
    using assms by (intro map_result_map parse_dim_text) (simp add: list_all_iff)
  let ?o = "if tc_shape t = [] then None else Some (tc_shape t)"
  have strs: "OptionalStringArray ''dtypes'' r = Inr (tc_dtypes t, mark ''dtypes'' r)"
     "OptionalStringArray ''layouts'' r = Inr (tc_layouts t, mark ''layouts'' r)"
     "array_field ''shape'' (map_result (parse_dim path)) r = Inr (?o, mark ''shape'' r)"
    if "or_value r = tensor_json t" for r
    using shape by - (rule OptionalStringArray_text array_field_text [where g = "map dim_json"];
      auto simp: that tensor_json_def split: option.split if_splits)+
  show ?thesis
    by (simp add: parse_tensor_def read_object_def rbind_def rreturn_def ObjectReader_def strs)
      (cases t, simp add: tensor_json_def)
qed

lemma MemoryKind_text [simp]: "ParseMemoryKind (MemoryKind_ToString k) = Some k"
  by (cases k) (simp_all add: ParseMemoryKind_def)

lemma DeviceKind_text [simp]: "ParseDeviceKind (DeviceKind_ToString k) = Some k"
  by (cases k) (simp_all add: ParseDeviceKind_def DeviceKind_ToString_def)

lemma optional_enums_text:
  "(\<And>x. parse (f x) = Some x) \<Longrightarrow> optional_enums parse bad (map_option (map f) o') = Inr o'"
  by (cases o') (simp_all add: optional_enums_def map_result_map parse_enum_def)

definition memory_codec_ok :: "memory_constraints \<Rightarrow> bool" where
  "memory_codec_ok m \<longleftrightarrow> (\<forall>ids. mc_device_ids m = Some ids \<longrightarrow> list_all (\<lambda>i. - (2 ^ 31) \<le> i \<and> i < 2 ^ 31) ids)"

lemma parse_memory_text:
  assumes "memory_codec_ok m"
  shows "parse_memory path allow (memory_json m) bad = Inr m"
proof -
  have ids: "map_result (parse_device_id path) (map JInt ids) = Inr ids" if "mc_device_ids m = Some ids" for ids
    using assms that by (intro map_result_map) (auto simp: memory_codec_ok_def list_all_iff parse_device_id_def)
  have strs: "OptionalStringArray ''kinds'' r = Inr (map_option (map MemoryKind_ToString) (mc_kinds m), mark ''kinds'' r)"
     "array_field ''device_ids'' (map_result (parse_device_id path)) r = Inr (mc_device_ids m, mark ''device_ids'' r)"
     "OptionalBool ''zero_copy_required'' False r = Inr (mc_zero_copy_required m, mark ''zero_copy_required'' r)"
    if "or_value r = memory_json m" for r
  proof -
    show "OptionalStringArray ''kinds'' r = Inr (map_option (map MemoryKind_ToString) (mc_kinds m), mark ''kinds'' r)"
      by (rule OptionalStringArray_text) (simp add: that memory_json_def split: option.split)
    show "array_field ''device_ids'' (map_result (parse_device_id path)) r = Inr (mc_device_ids m, mark ''device_ids'' r)"
      by (rule array_field_text [where g = "map JInt"]) (simp_all add: that memory_json_def ids split: option.split)
    show "OptionalBool ''zero_copy_required'' False r = Inr (mc_zero_copy_required m, mark ''zero_copy_required'' r)"
      by (simp add: that memory_json_def)
  qed
  have e: "optional_enums ParseMemoryKind b (map_option (map MemoryKind_ToString) (mc_kinds m)) = Inr (mc_kinds m)" for b
    by (rule optional_enums_text) simp
  show ?thesis
    by (simp add: parse_memory_def read_object_def rbind_def rreturn_def rlift_def ObjectReader_def strs e)
      (cases m, simp add: memory_json_def)
qed

text \<open>What the descriptor format can carry of a port. The flag \<open>required\<close> of an output is not written.\<close>

definition port_json_ok :: "fp_ops \<Rightarrow> PortDirection \<Rightarrow> port_capability \<Rightarrow> bool" where
  "port_json_ok fp dir p \<longleftrightarrow> pc_direction p = dir \<and> (dir = kOutput \<longrightarrow> pc_required p) \<and>
     (\<forall>v. pc_video p = Some v \<longrightarrow> range_ok (vc_width v) \<and> range_ok (vc_height v) \<and> rational_ok fp (vc_fps v)) \<and>
     (\<forall>a. pc_audio p = Some a \<longrightarrow> range_ok (ac_sample_rate a)) \<and>
     (\<forall>t. pc_tensor p = Some t \<longrightarrow> list_all dim_codec_ok (tc_shape t)) \<and> memory_codec_ok (pc_memory p)"

lemma parse_cardinality_simps [simp]:
  "parse_cardinality path [] = Inr kSingle" "parse_cardinality path ''multi'' = Inr kMulti"
  by (simp_all add: parse_cardinality_def)

lemma ParsePort_text:
  assumes "port_json_ok fp dir p"
  shows "ParsePort fp dir allow (PortJson p) path = Inr p"
proof -
  let ?mem = "if mc_kinds (pc_memory p) \<noteq> None \<or> mc_device_ids (pc_memory p) \<noteq> None \<or> mc_zero_copy_required (pc_memory p)
      then Some (pc_memory p) else None"
  let ?card = "if pc_cardinality p = kMulti then ''multi'' else []"
  have simple: "RequireString ''name'' r = Inr (pc_name p, mark ''name'' r)"
      "RequireString ''type_tag'' r = Inr (pc_type_tag p, mark ''type_tag'' r)"
      "OptionalBool ''required'' True r = Inr (pc_required p, mark ''required'' r)"
      "OptionalString ''cardinality'' [] r = Inr (?card, mark ''cardinality'' r)"
      "OptionalBool ''dynamic_consumers'' False r = Inr (pc_dynamic_consumers p, mark ''dynamic_consumers'' r)"
    if "or_value r = PortJson p" for r
    using assms by (auto simp: that PortJson_def port_json_ok_def) (metis PortDirection.exhaust)+
  have subs: "sub_object ''video'' ''object'' (parse_video fp path allow) r = Inr (pc_video p, mark ''video'' r)"
      "sub_object ''audio'' ''object'' (parse_audio path allow) r = Inr (pc_audio p, mark ''audio'' r)"
      "sub_object ''tensor'' ''object'' (parse_tensor path allow) r = Inr (pc_tensor p, mark ''tensor'' r)"
      "sub_object ''memory'' ''object'' (parse_memory path allow) r = Inr (?mem, mark ''memory'' r)"
    if "or_value r = PortJson p" for r
  proof -
    show "sub_object ''video'' ''object'' (parse_video fp path allow) r = Inr (pc_video p, mark ''video'' r)"
      by (rule sub_object_text [where f = video_json])
        (use assms in \<open>simp_all add: that PortJson_def port_json_ok_def parse_video_text split: option.split\<close>)
    show "sub_object ''audio'' ''object'' (parse_audio path allow) r = Inr (pc_audio p, mark ''audio'' r)"
      by (rule sub_object_text [where f = audio_json])
        (use assms in \<open>simp_all add: that PortJson_def port_json_ok_def parse_audio_text split: option.split\<close>)
    show "sub_object ''tensor'' ''object'' (parse_tensor path allow) r = Inr (pc_tensor p, mark ''tensor'' r)"
      by (rule sub_object_text [where f = tensor_json])
        (use assms in \<open>simp_all add: that PortJson_def port_json_ok_def parse_tensor_text split: option.split\<close>)
    show "sub_object ''memory'' ''object'' (parse_memory path allow) r = Inr (?mem, mark ''memory'' r)"
      by (rule sub_object_text [where f = memory_json])
        (use assms in \<open>auto simp: that PortJson_def port_json_ok_def parse_memory_text split: if_splits\<close>)
  qed
  have sync: "OptionalStringArray ''sync'' r = Inr (map_option (map SyncPolicy_ToString) (pc_sync p), mark ''sync'' r)"
    if "or_value r = PortJson p" for r
    by (rule OptionalStringArray_text) (simp add: that PortJson_def split: option.split)
  have e: "optional_enums ParseSyncPolicy b (map_option (map SyncPolicy_ToString) (pc_sync p)) = Inr (pc_sync p)" for b
    by (rule optional_enums_text) simp
  have card: "parse_cardinality path ?card = Inr (pc_cardinality p)" by (cases "pc_cardinality p") simp_all
  have mem: "no_memory = pc_memory p"
    if "mc_kinds (pc_memory p) = None" "mc_device_ids (pc_memory p) = None" "\<not> mc_zero_copy_required (pc_memory p)"
    using that by (cases "pc_memory p") (simp add: no_memory_def)
  have "ParsePort fp dir allow (PortJson p) path = Inr \<lparr>pc_name = pc_name p, pc_direction = dir, pc_type_tag = pc_type_tag p,
      pc_required = pc_required p, pc_cardinality = pc_cardinality p, pc_dynamic_consumers = pc_dynamic_consumers p,
      pc_video = pc_video p, pc_audio = pc_audio p, pc_tensor = pc_tensor p, pc_memory = pc_memory p, pc_sync = pc_sync p\<rparr>"
    unfolding ParsePort_def read_object_def rbind_def rlift_def rreturn_def ObjectReader_def
    by (simp add: simple subs sync e card del: reader_Inr) (simp add: PortJson_def mem)
  then show ?thesis using assms by (cases p) (simp add: port_json_ok_def)
qed

lemma parse_ports_text:
  assumes "list_all (port_json_ok fp dir) ps" "distinct (map pc_name (acc @ ps))"
  shows "parse_ports fp key dir allow i (map PortJson ps) acc = Inr (acc @ ps)"
  using assms
proof (induction ps arbitrary: i acc)
  case (Cons p ps)
  have "\<not> list_ex (\<lambda>x. pc_name x = pc_name p) acc" using Cons.prems(2) by (auto simp: list_ex_iff image_iff)
  then show ?case using Cons by (simp add: ParsePort_text)
qed simp

definition execution_ok :: "execution_capability \<Rightarrow> bool" where
  "execution_ok x \<longleftrightarrow> (xc_stateful x \<longrightarrow> xc_max_parallelism x \<le> 1) \<and> (xc_async x \<longrightarrow> xc_max_inference_ms x \<noteq> None)"

definition descriptor_codec_ok :: "fp_ops \<Rightarrow> capability_descriptor \<Rightarrow> bool" where
  "descriptor_codec_ok fp d \<longleftrightarrow> key_ok (cd_op d) \<and>
     list_all (port_json_ok fp kInput) (cd_inputs d) \<and> distinct (map pc_name (cd_inputs d)) \<and>
     list_all (port_json_ok fp kOutput) (cd_outputs d) \<and> distinct (map pc_name (cd_outputs d)) \<and>
     execution_ok (cd_execution d) \<and> 1 \<le> xc_max_parallelism (cd_execution d) \<and>
     xc_max_parallelism (cd_execution d) < 2 ^ 32 \<and>
     (\<forall>m. xc_max_inference_ms (cd_execution d) = Some m \<longrightarrow> m < 2 ^ 63) \<and>
     is_object (pa_schema (cd_parameters d)) \<and> om_wf (cd_resources d)"

lemma check_execution_Inr [simp]: "check_execution x = Inr u \<longleftrightarrow> execution_ok x"
  by (auto simp: check_execution_def execution_ok_def)

lemma StringArray_text:
  "json_Find (or_value r) key = Some (StringsJson ss) \<Longrightarrow> StringArray key req dflt r = Inr (ss, mark key r)"
  using OptionalStringArray_text [of r key "Some ss"] by (simp add: StringArray_def rbind_def del: OptionalStringArray_Inr)

lemma parse_execution_text:
  assumes "1 \<le> xc_max_parallelism x" "xc_max_parallelism x < 2 ^ 32" "\<And>m. xc_max_inference_ms x = Some m \<Longrightarrow> m < 2 ^ 63"
  shows "parse_execution allow (execution_json x) bad = Inr x"
proof -
  have d: "map_result (parse_enum ParseDeviceKind b) (map DeviceKind_ToString (xc_devices x)) = Inr (xc_devices x)" for b
    by (rule map_result_map) (simp add: parse_enum_def)
  have fields: "StringArray ''devices'' False [] r = Inr (map DeviceKind_ToString (xc_devices x), mark ''devices'' r)"
      "OptionalBool ''stateful'' True r = Inr (xc_stateful x, mark ''stateful'' r)"
      "OptionalBool ''async'' False r = Inr (xc_async x, mark ''async'' r)"
      "OptionalInteger ''max_parallelism'' r = Inr (Some (int (xc_max_parallelism x)), mark ''max_parallelism'' r)"
      "OptionalBool ''zero_copy'' False r = Inr (xc_zero_copy x, mark ''zero_copy'' r)"
      "OptionalInteger ''max_inference_ms'' r = Inr (map_option (\<lambda>m. i64 (int m)) (xc_max_inference_ms x), mark ''max_inference_ms'' r)"
    if "or_value r = execution_json x" for r
    by (simp_all add: that execution_json_def StringArray_text option.map_comp comp_def split: option.split)
  have mp: "parse_max_parallelism (Some (int (xc_max_parallelism x))) = Inr (xc_max_parallelism x)"
    using assms by (simp add: parse_max_parallelism_def)
  have mi: "map_option u64_of_int (map_option (\<lambda>m. i64 (int m)) (xc_max_inference_ms x)) = xc_max_inference_ms x"
    using assms(3) by (cases "xc_max_inference_ms x") auto
  show ?thesis
    unfolding parse_execution_def read_object_def rbind_def rlift_def rreturn_def ObjectReader_def
    by (simp add: fields d mp mi del: reader_Inr OptionalInteger_Inr option.map_comp map_map)
      (cases x, simp add: execution_json_def)
qed

lemma parse_parameters_text:
  assumes "is_object (pa_schema p)"
  shows "parse_parameters allow (parameters_json p) bad = Inr p"
proof -
  obtain hot mig m where p: "p = \<lparr>pa_hot_updatable = hot, pa_migratable = mig, pa_schema = JObj m\<rparr>"
    using assms by (cases p; cases "pa_schema p") auto
  show ?thesis
    by (cases mig) (simp_all add: p parse_parameters_def parameters_json_def read_object_def reader_defs)
qed

lemma int_members_sorted:
  assumes "om_wf m"
  shows "fold_result (\<lambda>(k, x) acc. case x of JInt i \<Rightarrow> Inr (om_put k i acc) | _ \<Rightarrow> Inl (bad k))
    (as_object (json_members (map (\<lambda>(k, v). Some (k, JInt v)) m))) [] = Inr m"
proof -
  have "fold_result (\<lambda>(k, x) acc. case x of JInt i \<Rightarrow> Inr (om_put k i acc) | _ \<Rightarrow> Inl (bad k))
      (map (\<lambda>(k, v). (k, JInt v)) es) acc = Inr (fold (\<lambda>(k, v). om_put k v) es acc)" for es acc
    by (induction es arbitrary: acc) auto
  moreover have "emplace_all (map Some (map (\<lambda>(k, v). (k, JInt v)) m)) [] = map (\<lambda>(k, v). (k, JInt v)) m"
    using assms by (intro emplace_all_sorted) (simp add: om_wf_def comp_def case_prod_beta')
  ultimately show ?thesis
    using fold_om_put_sorted [OF assms, of om_put id] by (simp add: json_members_def comp_def case_prod_beta')
qed

lemma Descriptor_text:
  assumes "descriptor_codec_ok fp d"
  shows "Descriptor_ParseDoc fp (Descriptor_ToJson d) = Inr d"
proof -
  let ?D = "Descriptor_ToJson d"
  have ok: "key_ok (cd_op d)" "execution_ok (cd_execution d)" "om_wf (cd_resources d)"
    using assms by (simp_all add: descriptor_codec_ok_def)
  have hd: "CheckDocumentHeader ?D ''CapabilityDescriptor'' 1 capability_schema_id man = Inr False"
    unfolding Descriptor_ToJson_def by (simp add: CheckDocumentHeader_def Let_def json_GetString_def)
  have pin: "parse_ports fp ''inputs'' kInput False 0 (map PortJson (cd_inputs d)) [] = Inr (cd_inputs d)"
    and pout: "parse_ports fp ''outputs'' kOutput False 0 (map PortJson (cd_outputs d)) [] = Inr (cd_outputs d)"
    using parse_ports_text [of fp kInput "cd_inputs d" "[]"] parse_ports_text [of fp kOutput "cd_outputs d" "[]"] assms
    by (simp_all add: descriptor_codec_ok_def)
  have ports: "parse_port_lists fp False (json_members [Some (''inputs'', JArr (map PortJson (cd_inputs d))),
        Some (''outputs'', JArr (map PortJson (cd_outputs d)))]) bad = Inr (cd_inputs d, cd_outputs d)" for bad
    by (simp add: parse_port_lists_def read_object_def reader_defs array_field_def pin pout)
  have fields: "MarkHeaderSeen r = Inr ((), mark ''allow_unknown_fields'' (mark ''$id'' (mark ''schema_version'' (mark ''kind'' r))))"
      "RequireString ''operator'' r = Inr (OperatorKey_ToString (cd_op d), mark ''operator'' r)"
      "OptionalString ''description'' [] r = Inr (cd_description d, mark ''description'' r)"
      "require_member ''ports'' r = Inr (json_members [Some (''inputs'', JArr (map PortJson (cd_inputs d))),
        Some (''outputs'', JArr (map PortJson (cd_outputs d)))], mark ''ports'' r)"
    if "or_value r = ?D" for r
    by (auto simp: that Descriptor_ToJson_def require_member_def rbind_def Reader_Get_def)
  have ex: "sub_object ''execution'' ''object'' (parse_execution False) r = Inr (Some (cd_execution d), mark ''execution'' r)"
    if "or_value r = ?D" for r
    by (rule sub_object_text [where f = execution_json])
      (use assms in \<open>simp_all add: that Descriptor_ToJson_def descriptor_codec_ok_def parse_execution_text\<close>)
  have pa: "sub_object ''parameters'' ''object'' (parse_parameters False) r = Inr (Some (cd_parameters d), mark ''parameters'' r)"
    if "or_value r = ?D" for r
    by (rule sub_object_text [where f = parameters_json])
      (use assms in \<open>simp_all add: that Descriptor_ToJson_def descriptor_codec_ok_def parse_parameters_text\<close>)
  have res: "parse_resources r = Inr (cd_resources d, mark ''resources'' r)" if "or_value r = ?D" for r
  proof -
    obtain m where m: "json_members (map (\<lambda>(k, v). Some (k, JInt v)) (cd_resources d)) = JObj m"
      by (simp add: json_members_def)
    show ?thesis
      using int_members_sorted [OF ok(3), of "\<lambda>k. Reader_Error _ (''resources.'' @ k @ '' must be integer'')"] m
      by (simp add: that Descriptor_ToJson_def parse_resources_def rbind_def Reader_Get_def rlift_def)
  qed
  have chk: "check_execution (cd_execution d) = Inr ()" using ok(2) by simp
  let ?ev = "if cd_emits d \<noteq> [] \<or> cd_accepts d \<noteq> [] then Some (cd_emits d, cd_accepts d) else None"
  have ev: "sub_object ''events'' ''object'' (parse_events False) r = Inr (?ev, mark ''events'' r)" if "or_value r = ?D" for r
    by (rule sub_object_text [where f = "\<lambda>(e, a). json_members [Some (''emits'', StringsJson e), Some (''accepts'', StringsJson a)]"])
      (auto simp: that Descriptor_ToJson_def parse_events_def read_object_def reader_defs)
  show ?thesis
    unfolding Descriptor_ParseDoc_def hd bind_result_simps
    unfolding read_object_def parse_descriptor_fields_def rbind_def rlift_def rreturn_def Let_def ObjectReader_def
    using ok(1)
    by (simp add: fields ports ex pa res ev chk parse_enum_def del: reader_Inr check_execution_Inr) (cases d, auto simp: Descriptor_ToJson_def)
qed

subsection \<open>What the parser guarantees\<close>

lemma sub_object_Inr:
  "sub_object key e parse r = Inr (o', r') \<Longrightarrow>
     r' = mark key r \<and> (\<forall>y. o' = Some y \<longrightarrow> (\<exists>x bad. parse x bad = Inr y))"
  by (auto simp: sub_object_def rbind_Inr bind_result_Inr split: option.splits)

lemma ParseIntRange_Inr: "ParseIntRange key r = Inr (o', r') \<Longrightarrow> range_ok o' \<and> r' = mark key r"
  unfolding ParseIntRange_def
  by (drule sub_object_Inr) (auto simp: range_ok_def bind_result_Inr split: option.splits if_splits)

lemma ParseRationalRange_Inr: "ParseRationalRange fp key r = Inr (o', r') \<Longrightarrow> rational_ok fp o' \<and> r' = mark key r"
  unfolding ParseRationalRange_def
  by (drule sub_object_Inr) (auto simp: rational_ok_def bind_result_Inr split: option.splits if_splits)

lemma parse_video_Inr:
  "parse_video fp path allow v bad = Inr vc \<Longrightarrow> range_ok (vc_width vc) \<and> range_ok (vc_height vc) \<and> rational_ok fp (vc_fps vc)"
  by (auto simp: parse_video_def read_object_Inr rbind_Inr dest!: ParseIntRange_Inr ParseRationalRange_Inr)

lemma parse_audio_Inr: "parse_audio path allow v bad = Inr ac \<Longrightarrow> range_ok (ac_sample_rate ac)"
  by (auto simp: parse_audio_def read_object_Inr rbind_Inr dest!: ParseIntRange_Inr)

lemma array_field_Inr:
  "array_field key f r = Inr (o', r') \<Longrightarrow> r' = mark key r \<and> (\<forall>y. o' = Some y \<longrightarrow> (\<exists>x. f x = Inr y))"
  by (auto simp: array_field_def rbind_Inr bind_result_Inr split: option.splits json.splits)

lemma i32_range: "- (2 ^ 31) \<le> i32 i \<and> i32 i < 2 ^ 31"
  by (simp add: i32_def)

lemma parse_device_ids_Inr:
  "map_result (parse_device_id path) vs = Inr ids \<Longrightarrow> list_all (\<lambda>i. - (2 ^ 31) \<le> i \<and> i < 2 ^ 31) ids"
proof (induction vs arbitrary: ids)
  case (Cons v vs)
  then show ?case using i32_range by (auto simp: bind_result_Inr parse_device_id_def split: json.splits)
qed simp

lemma parse_memory_Inr:
  assumes "parse_memory path allow v bad = Inr m"
  shows "memory_codec_ok m"
proof -
  have "\<forall>ids. mc_device_ids m = Some ids \<longrightarrow> (\<exists>vs. map_result (parse_device_id path) vs = Inr ids)"
    using assms by (auto simp: parse_memory_def read_object_Inr rbind_Inr dest!: array_field_Inr)
  then show ?thesis unfolding memory_codec_ok_def using parse_device_ids_Inr by blast
qed

definition port_sane :: "fp_ops \<Rightarrow> PortDirection \<Rightarrow> port_capability \<Rightarrow> bool" where
  "port_sane fp dir p \<longleftrightarrow> pc_direction p = dir \<and>
     (\<forall>v. pc_video p = Some v \<longrightarrow> range_ok (vc_width v) \<and> range_ok (vc_height v) \<and> rational_ok fp (vc_fps v)) \<and>
     (\<forall>a. pc_audio p = Some a \<longrightarrow> range_ok (ac_sample_rate a)) \<and> memory_codec_ok (pc_memory p)"

lemma ParsePort_Inr:
  assumes "ParsePort fp dir allow v path = Inr p"
  shows "port_sane fp dir p"
proof -
  obtain video audio memory r1 r2 r3 r4 r5 r6 where
    sub: "sub_object ''video'' ''object'' (parse_video fp path allow) r1 = Inr (video, r2)"
      "sub_object ''audio'' ''object'' (parse_audio path allow) r3 = Inr (audio, r4)"
      "sub_object ''memory'' ''object'' (parse_memory path allow) r5 = Inr (memory, r6)"
    and p: "pc_direction p = dir" "pc_video p = video" "pc_audio p = audio" "pc_memory p = or_default no_memory memory"
    using assms unfolding ParsePort_def read_object_Inr rbind_Inr by (elim exE conjE) (auto simp: rreturn_def)
  have "\<exists>x bad. parse_video fp path allow x bad = Inr v" if "pc_video p = Some v" for v
    using sub_object_Inr [OF sub(1)] that p by blast
  moreover have "\<exists>x bad. parse_audio path allow x bad = Inr v" if "pc_audio p = Some v" for v
    using sub_object_Inr [OF sub(2)] that p by blast
  moreover have "pc_memory p = no_memory \<or> (\<exists>x bad. parse_memory path allow x bad = Inr (pc_memory p))"
    using sub_object_Inr [OF sub(3)] p by (cases memory) auto
  ultimately show ?thesis
    using p(1) parse_video_Inr parse_audio_Inr parse_memory_Inr
    by (fastforce simp: port_sane_def no_memory_def memory_codec_ok_def)
qed

lemma parse_ports_Inr:
  "parse_ports fp key dir allow i vs acc = Inr ps \<Longrightarrow> distinct (map pc_name acc) \<Longrightarrow> list_all (port_sane fp dir) acc \<Longrightarrow>
     distinct (map pc_name ps) \<and> list_all (port_sane fp dir) ps \<and> length ps = length acc + length vs"
proof (induction fp key dir allow i vs acc rule: parse_ports.induct)
  case (2 fp key dir allow i v vs acc)
  from "2.prems"(1) obtain p where p: "ParsePort fp dir allow v (''ports.'' @ key @ ''['' @ nat_to_string i @ '']'') = Inr p"
      "\<not> list_ex (\<lambda>x. pc_name x = pc_name p) acc" "parse_ports fp key dir allow (i + 1) vs (acc @ [p]) = Inr ps"
    by (auto simp: bind_result_Inr split: if_splits)
  have "distinct (map pc_name (acc @ [p]))" using "2.prems"(2) p(2) by (auto simp: list_ex_iff)
  moreover have "list_all (port_sane fp dir) (acc @ [p])" using "2.prems"(3) ParsePort_Inr [OF p(1)] by simp
  ultimately show ?case using "2.IH" [OF p] by simp
qed simp

lemma parse_port_lists_Inr:
  assumes "parse_port_lists fp allow v bad = Inr (ins, outs)"
  shows "distinct (map pc_name ins) \<and> list_all (port_sane fp kInput) ins \<and>
     distinct (map pc_name outs) \<and> list_all (port_sane fp kOutput) outs"
proof -
  have "ins = [] \<or> (\<exists>vs. parse_ports fp ''inputs'' kInput allow 0 vs [] = Inr ins)"
    "outs = [] \<or> (\<exists>vs. parse_ports fp ''outputs'' kOutput allow 0 vs [] = Inr outs)"
    using assms by (auto simp: parse_port_lists_def read_object_Inr rbind_Inr or_default_def dest!: array_field_Inr split: option.splits)
  then show ?thesis using parse_ports_Inr [where acc = "[]"] by fastforce
qed

lemma parse_parameters_Inr: "parse_parameters allow v bad = Inr p \<Longrightarrow> is_object (pa_schema p)"
  by (auto simp: parse_parameters_def read_object_Inr rbind_Inr)

lemma parse_resources_Inr: "parse_resources r = Inr (res, r') \<Longrightarrow> om_wf res"
  unfolding parse_resources_def
  by (auto simp: rbind_Inr split: option.splits json.splits elim!: fold_result_inv [where P = om_wf])

lemma parse_enum_Inr [simp]: "parse_enum parse bad s = Inr x \<longleftrightarrow> parse s = Some x"
  by (auto simp: parse_enum_def split: option.splits)

lemma Descriptor_ParseDoc_Inr:
  assumes "Descriptor_ParseDoc fp doc = Inr d"
  shows "key_ok (cd_op d)" "distinct (map pc_name (cd_inputs d))" "list_all (port_sane fp kInput) (cd_inputs d)"
    "distinct (map pc_name (cd_outputs d))" "list_all (port_sane fp kOutput) (cd_outputs d)"
    "execution_ok (cd_execution d)" "is_object (pa_schema (cd_parameters d))" "om_wf (cd_resources d)"
proof -
  obtain allow r r' where r: "parse_descriptor_fields fp allow r = Inr (d, r')"
    using assms by (auto simp: Descriptor_ParseDoc_def bind_result_Inr read_object_Inr)
  note unfolded = r [unfolded parse_descriptor_fields_def rbind_Inr]
  obtain op pv bad exo pao r1 r2 r3 r4 where f: "OperatorKey_Parse op = Some (cd_op d)"
    "parse_port_lists fp allow pv bad = Inr (cd_inputs d, cd_outputs d)"
    "execution_ok (cd_execution d)" "parse_resources r1 = Inr (cd_resources d, r2)"
    "cd_parameters d = or_default default_parameters pao"
    "sub_object ''parameters'' ''object'' (parse_parameters allow) r3 = Inr (pao, r4)"
    using unfolded by (elim exE conjE) (auto simp: rbind_Inr)
  then have "cd_parameters d = default_parameters \<or> (\<exists>v bad. parse_parameters allow v bad = Inr (cd_parameters d))"
    using sub_object_Inr [OF f(6)] by (cases pao) auto
  with f(1-4)
  show "key_ok (cd_op d)" "distinct (map pc_name (cd_inputs d))" "list_all (port_sane fp kInput) (cd_inputs d)"
    "distinct (map pc_name (cd_outputs d))" "list_all (port_sane fp kOutput) (cd_outputs d)"
    "execution_ok (cd_execution d)" "is_object (pa_schema (cd_parameters d))" "om_wf (cd_resources d)"
    by (auto simp: OperatorKey_Parse_iff key_ok_def default_parameters_def
        dest: parse_port_lists_Inr parse_resources_Inr parse_parameters_Inr)
qed


definition plain_port :: "string \<Rightarrow> PortDirection \<Rightarrow> port_capability" where
  "plain_port n d = \<lparr>pc_name = n, pc_direction = d, pc_type_tag = ''Bytes'', pc_required = True, pc_cardinality = kSingle,
     pc_dynamic_consumers = False, pc_video = None, pc_audio = None,
     pc_tensor = Some \<lparr>tc_dtypes = Some [''f32''], tc_layouts = None, tc_shape = [\<lparr>rg_min = 1, rg_max = - 1\<rparr>]\<rparr>,
     pc_memory = no_memory, pc_sync = Some [kLatest]\<rparr>"

definition sample_descriptor :: capability_descriptor where
  "sample_descriptor = \<lparr>cd_op = \<lparr>ok_type_name = ''Op'', ok_semantic_version = ''1''\<rparr>, cd_description = ''demo'',
     cd_inputs = [plain_port ''in'' kInput], cd_outputs = [plain_port ''out'' kOutput],
     cd_execution = default_execution\<lparr>xc_async := True, xc_max_inference_ms := Some 20\<rparr>,
     cd_parameters = default_parameters, cd_resources = [(''cpu'', 2)], cd_emits = [], cd_accepts = []\<rparr>"

lemma sample_descriptor_ok: "descriptor_codec_ok fp sample_descriptor"
  by (simp add: descriptor_codec_ok_def sample_descriptor_def plain_port_def key_ok_def port_json_ok_def dim_codec_ok_def
      memory_codec_ok_def no_memory_def execution_ok_def default_execution_def default_parameters_def om_wf_def)



lemma sample_descriptor_json: "json_ok 8 (Descriptor_ToJson sample_descriptor)"
  by code_simp


end
