(* ===== verification/Graph_Spec_Json.thy ===== *)
theory Graph_Spec_Json
  imports Graph_Spec Json_Reader
begin

section \<open>The JSON form of graphs and patches\<close>

text \<open>
  Models \<open>src/graph_spec_json.cpp\<close>: the parser of graph documents and of mutation patches, field by
  field with every error text, and the serialiser of both. \<open>static_cast\<close> of an integer field keeps
  the low bits, as the code does. \<open>as_object\<close> of options that are no object throws in C++; here it is
  the empty object (the parser never produces such options). The lemmas show that reading is a left
  inverse of writing on what the format can carry, and that every graph the parser returns is
  well formed and can be carried.
\<close>

subsection \<open>Nodes and edges\<close>

definition graph_bad :: "string \<Rightarrow> status" where
  "graph_bad m = Status_GraphInvalid m None"

definition ParseOperatorKey :: "string \<Rightarrow> string \<Rightarrow> operator_key result" where
  "ParseOperatorKey t path =
     (case OperatorKey_Parse t of
        None \<Rightarrow> Inl (graph_bad (''invalid operator '' @ quoted t @ '' in '' @ path @ '' (expected type@version)''))
      | Some k \<Rightarrow> Inr k)"

text \<open>A JSON object whose members must all be strings, copied into a \<open>std::map\<close>.\<close>

definition string_members :: "(string \<Rightarrow> status) \<Rightarrow> (string \<times> json) list \<Rightarrow> (string \<times> string) list result" where
  "string_members bad m =
     fold_result (\<lambda>(k, v) acc. case v of JStr s \<Rightarrow> Inr (om_put k s acc) | _ \<Rightarrow> Inl (bad k)) m []"

definition parse_kind :: "string \<Rightarrow> string \<Rightarrow> ExecutorKind result" where
  "parse_kind kind path =
     (case ParseExecutorKind kind of
        None \<Rightarrow> Inl (graph_bad (''invalid executor.kind '' @ quoted kind @ '' in '' @ path))
      | Some k \<Rightarrow> Inr k)"

definition parse_device :: "ExecutorKind \<Rightarrow> string \<Rightarrow> int \<Rightarrow> executor_spec result" where
  "parse_device k path d =
     (if k \<noteq> Executor_Gpu then
        Inl (graph_bad (path @ '': device_id only allowed when executor.kind is gpu''))
      else Inr \<lparr>ex_kind = k, ex_device_id = Some (i32 d)\<rparr>)"

definition ParseExecutor :: "json \<Rightarrow> string \<Rightarrow> bool \<Rightarrow> executor_spec result" where
  "ParseExecutor ex path allow =
     read_object ex (path @ ''.executor'') allow GE_STATUS_GRAPH_INVALID
       (graph_bad (path @ ''.executor must be an object''))
       (rbind (OptionalString ''kind'' ''auto'') (\<lambda>kind.
        rbind (rlift (parse_kind kind path)) (\<lambda>k.
        rbind (OptionalInteger ''device_id'') (\<lambda>device.
          rlift (optional_field \<lparr>ex_kind = k, ex_device_id = None\<rparr> (parse_device k path) device)))))"

definition ParseLabels :: "string \<Rightarrow> json option \<Rightarrow> (string \<times> string) list reader" where
  "ParseLabels path labels r =
     (case labels of
        None \<Rightarrow> Inr ([], r)
      | Some (JObj m) \<Rightarrow>
          rlift (string_members (\<lambda>k. graph_bad (path @ ''.labels.'' @ k @ '' must be a string'')) m) r
      | Some _ \<Rightarrow> Inl (Reader_WrongType r ''labels'' ''object''))"

definition parse_parallelism :: "string \<Rightarrow> int \<Rightarrow> nat result" where
  "parse_parallelism path p =
     (if p < 1 then Inl (graph_bad (path @ '': parallelism must be >= 1'')) else Inr (u32_of_int p))"

definition ParseNode :: "json \<Rightarrow> string \<Rightarrow> bool \<Rightarrow> node_spec result" where
  "ParseNode v path allow =
     read_object v path allow GE_STATUS_GRAPH_INVALID (graph_bad (path @ '' must be an object''))
       (rbind (RequireString ''id'') (\<lambda>i.
        rbind (RequireString ''operator'') (\<lambda>op.
        rbind (rlift (ParseOperatorKey op path)) (\<lambda>key.
        rbind (Reader_Get ''executor'') (\<lambda>ex.
        rbind (rlift (optional_field \<lparr>ex_kind = Executor_Auto, ex_device_id = None\<rparr>
                 (\<lambda>e. ParseExecutor e path allow) ex)) (\<lambda>executor.
        rbind (OptionalInteger ''parallelism'') (\<lambda>par.
        rbind (rlift (optional_field 1 (parse_parallelism path) par)) (\<lambda>parallelism.
        rbind (OptionalObject ''options'' (JObj [])) (\<lambda>opts.
        rbind (Reader_Get ''labels'') (\<lambda>lv.
        rbind (ParseLabels path lv) (\<lambda>labels.
          rreturn \<lparr>ns_id = i, ns_op = key, ns_executor = executor, ns_parallelism = parallelism,
                   ns_options = opts, ns_labels = labels\<rparr>)))))))))))"

definition ParseEndpoint :: "string \<Rightarrow> port_ref reader" where
  "ParseEndpoint key = rbind (RequireString key) (\<lambda>t r.
     case PortRef_Parse t of
       None \<Rightarrow> Inl (graph_bad (''invalid endpoint '' @ quoted t @ '' in '' @ or_path r @
                 '' (expected <node_id>.<port>)''))
     | Some p \<Rightarrow> Inr (p, r))"

definition default_queue :: queue_spec where
  "default_queue = \<lparr>qs_capacity = 64, qs_policy = kBlock, qs_max_packet_bytes = None\<rparr>"

definition parse_capacity :: "string \<Rightarrow> int \<Rightarrow> nat result" where
  "parse_capacity path c =
     (if c < 1 then Inl (graph_bad (path @ '': queue.capacity must be >= 1'')) else Inr (u32_of_int c))"

definition parse_max_bytes :: "string \<Rightarrow> int \<Rightarrow> nat option result" where
  "parse_max_bytes path b =
     (if b \<le> 0 then Inl (graph_bad (path @ '': queue.max_packet_bytes must be > 0''))
      else Inr (Some (u64_of_int b)))"

definition ParseQueue :: "json \<Rightarrow> string \<Rightarrow> bool \<Rightarrow> queue_spec result" where
  "ParseQueue q path allow =
     read_object q (path @ ''.queue'') allow GE_STATUS_GRAPH_INVALID
       (graph_bad (path @ ''.queue must be an object''))
       (rbind (OptionalInteger ''capacity'') (\<lambda>cap.
        rbind (rlift (optional_field (qs_capacity default_queue) (parse_capacity path) cap)) (\<lambda>capacity.
        rbind (OptionalString ''policy'' []) (\<lambda>policy.
        rbind (rlift (enum_field (qs_policy default_queue) ParseDropPolicy id
                 (graph_bad (''invalid queue.policy '' @ quoted policy @ '' in '' @ path)) policy)) (\<lambda>p.
        rbind (OptionalInteger ''max_packet_bytes'') (\<lambda>mb.
        rbind (rlift (optional_field None (parse_max_bytes path) mb)) (\<lambda>max_bytes.
          rreturn \<lparr>qs_capacity = capacity, qs_policy = p, qs_max_packet_bytes = max_bytes\<rparr>)))))))"

definition ParseEdge :: "json \<Rightarrow> string \<Rightarrow> bool \<Rightarrow> edge_spec result" where
  "ParseEdge v path allow =
     read_object v path allow GE_STATUS_GRAPH_INVALID (graph_bad (path @ '' must be an object''))
       (rbind (OptionalString ''id'' []) (\<lambda>i.
        rbind (ParseEndpoint ''from'') (\<lambda>f.
        rbind (ParseEndpoint ''to'') (\<lambda>t.
        rbind (Reader_Get ''queue'') (\<lambda>q.
        rbind (rlift (optional_field default_queue (\<lambda>q. ParseQueue q path allow) q)) (\<lambda>queue.
        rbind (OptionalString ''sync'' []) (\<lambda>sync.
        rbind (rlift (enum_field None ParseSyncPolicy Some
                 (graph_bad (''invalid sync '' @ quoted sync @ '' in '' @ path)) sync)) (\<lambda>sp.
        rbind (OptionalBool ''feedback'' False) (\<lambda>fb.
          rreturn \<lparr>es_id = i, es_from = f, es_to = t, es_queue = queue, es_sync = sp,
                   es_feedback = fb\<rparr>)))))))))"

lemmas field_defs = enum_field_def parse_kind_def parse_device_def parse_parallelism_def parse_capacity_def
  parse_max_bytes_def

subsection \<open>Graphs\<close>

fun parse_nodes :: "bool \<Rightarrow> nat \<Rightarrow> json list \<Rightarrow> graph_spec \<Rightarrow> graph_spec result" where
  "parse_nodes allow i [] g = Inr g"
| "parse_nodes allow i (n # ns) g =
     bind_result (ParseNode n (''nodes['' @ nat_to_string i @ '']'') allow) (\<lambda>node.
     bind_result (AddNode node g) (\<lambda>g'. parse_nodes allow (i + 1) ns g'))"

fun parse_edges :: "bool \<Rightarrow> nat \<Rightarrow> json list \<Rightarrow> graph_spec \<Rightarrow> graph_spec result" where
  "parse_edges allow i [] g = Inr g"
| "parse_edges allow i (e # es) g =
     bind_result (ParseEdge e (''edges['' @ nat_to_string i @ '']'') allow) (\<lambda>edge.
     bind_result (AddEdge edge g) (\<lambda>g'. parse_edges allow (i + 1) es g'))"

definition parse_option ::
  "string \<times> json \<Rightarrow> graph_options \<times> (string \<times> json) list \<Rightarrow> (graph_options \<times> (string \<times> json) list) result" where
  "parse_option kv s =
     (case (kv, s) of ((k, v), (go, extra)) \<Rightarrow>
        if k = ''default_device_id'' then
          (case v of JInt i \<Rightarrow> Inr (go\<lparr>go_default_device_id := Some (i32 i)\<rparr>, extra)
           | _ \<Rightarrow> Inl (graph_bad ''options.default_device_id must be integer''))
        else if k = ''allow_default_operator_version'' then
          (case v of JBool b \<Rightarrow> Inr (go\<lparr>go_allow_default_operator_version := b\<rparr>, extra)
           | _ \<Rightarrow> Inl (graph_bad ''options.allow_default_operator_version must be boolean''))
        else Inr (go, om_emplace k v extra))"

definition parse_options :: "json option \<Rightarrow> graph_options \<Rightarrow> graph_options reader" where
  "parse_options opts go0 r =
     (case opts of
        None \<Rightarrow> Inr (go0, r)
      | Some (JObj m) \<Rightarrow>
          rlift (bind_result (fold_result parse_option m (go0, [])) (\<lambda>(go, extra).
            Inr (go\<lparr>go_extra := JObj extra\<rparr>))) r
      | Some _ \<Rightarrow> Inl (Reader_WrongType r ''options'' ''object''))"

definition graph_schema_id :: string where
  "graph_schema_id = ''ge.dev/schema/graph/v1''"

definition patch_schema_id :: string where
  "patch_schema_id = ''ge.dev/schema/patch/v1''"

text \<open>The body of \<open>ParseGraph\<close> after the header, on the reader of the document.\<close>

definition parse_graph_fields :: "bool \<Rightarrow> graph_spec reader" where
  "parse_graph_fields allow =
     rbind MarkHeaderSeen (\<lambda>_.
     rbind (RequireString ''name'') (\<lambda>name.
     rbind (OptionalString ''description'' []) (\<lambda>description.
     rbind (Reader_Get ''options'') (\<lambda>ov.
     rbind (parse_options ov (gs_options (GraphSpec_new name))) (\<lambda>opts.
     rbind (require_array ''nodes'') (\<lambda>ns.
     if ns = [] then rlift (Inl (graph_bad ''GraphSpec.nodes must contain at least one node''))
     else
       rbind (rlift (parse_nodes allow 0 ns
         ((GraphSpec_new name)\<lparr>gs_description := description, gs_options := opts,
                                gs_allow_unknown_fields := allow\<rparr>))) (\<lambda>spec.
       rbind (require_array ''edges'') (\<lambda>es.
         rlift (parse_edges allow 0 es spec)))))))))"

definition ParseGraph_doc :: "json \<Rightarrow> graph_spec result" where
  "ParseGraph_doc doc =
     bind_result (CheckDocumentHeader doc ''GraphSpec'' 1 graph_schema_id GE_STATUS_GRAPH_INVALID) (\<lambda>allow.
       read_object doc ''GraphSpec'' allow GE_STATUS_GRAPH_INVALID (graph_bad []) (parse_graph_fields allow))"

definition ParseGraph :: "fp_ops \<Rightarrow> string \<Rightarrow> graph_spec result" where
  "ParseGraph fp t =
     (case ParseJson fp t of
        Inl e \<Rightarrow> Inl (graph_bad (''invalid JSON: '' @ json_error_text t e))
      | Inr doc \<Rightarrow> ParseGraph_doc doc)"

definition Node_ToJson :: "node_spec \<Rightarrow> json" where
  "Node_ToJson n = json_members
     [Some (''id'', JStr (ns_id n)), Some (''operator'', JStr (OperatorKey_ToString (ns_op n))),
      if ex_kind (ns_executor n) \<noteq> Executor_Auto \<or> ex_device_id (ns_executor n) \<noteq> None then
        Some (''executor'', json_members
          [Some (''kind'', JStr (ExecutorKind_ToString (ex_kind (ns_executor n)))),
           map_option (\<lambda>d. (''device_id'', JInt d)) (ex_device_id (ns_executor n))])
      else None,
      if ns_parallelism n \<noteq> 1 then Some (''parallelism'', JInt (int (ns_parallelism n))) else None,
      if as_object (ns_options n) \<noteq> [] then Some (''options'', ns_options n) else None,
      if ns_labels n \<noteq> [] then
        Some (''labels'', json_members (map (\<lambda>(k, v). Some (k, JStr v)) (ns_labels n))) else None]"

definition Edge_ToJson :: "edge_spec \<Rightarrow> json" where
  "Edge_ToJson e = json_members
     [if es_id e \<noteq> [] then Some (''id'', JStr (es_id e)) else None,
      Some (''from'', JStr (PortRef_ToString (es_from e))), Some (''to'', JStr (PortRef_ToString (es_to e))),
      if es_queue e \<noteq> default_queue then
        Some (''queue'', json_members
          [Some (''capacity'', JInt (int (qs_capacity (es_queue e)))),
           Some (''policy'', JStr (DropPolicy_ToString (qs_policy (es_queue e)))),
           map_option (\<lambda>b. (''max_packet_bytes'', JInt (i64 (int b)))) (qs_max_packet_bytes (es_queue e))])
      else None,
      map_option (\<lambda>s. (''sync'', JStr (SyncPolicy_ToString s))) (es_sync e),
      if es_feedback e then Some (''feedback'', JBool True) else None]"

definition options_members :: "graph_options \<Rightarrow> (string \<times> json) list" where
  "options_members o' = emplace_all
     [map_option (\<lambda>d. (''default_device_id'', JInt d)) (go_default_device_id o'),
      if go_allow_default_operator_version o' then Some (''allow_default_operator_version'', JBool True) else None]
     (as_object (go_extra o'))"

definition Graph_ToJson :: "graph_spec \<Rightarrow> json" where
  "Graph_ToJson g = json_members
     [Some (''kind'', JStr ''GraphSpec''), Some (''schema_version'', JInt 1),
      Some (''$id'', JStr graph_schema_id),
      if gs_allow_unknown_fields g then Some (''allow_unknown_fields'', JBool True) else None,
      Some (''name'', JStr (gs_name g)),
      if gs_description g \<noteq> [] then Some (''description'', JStr (gs_description g)) else None,
      if options_members (gs_options g) \<noteq> [] then Some (''options'', JObj (options_members (gs_options g))) else None,
      Some (''nodes'', JArr (map Node_ToJson (gs_nodes g))),
      Some (''edges'', JArr (map Edge_ToJson (gs_edges g)))]"

definition SerializeGraph :: "fp_ops \<Rightarrow> graph_spec \<Rightarrow> string" where
  "SerializeGraph fp g = Serialize fp (Graph_ToJson g)"

subsection \<open>Patches\<close>

definition ParseRemovePolicyField :: "RemovePolicy option reader" where
  "ParseRemovePolicyField = rbind (OptionalString ''remove_policy'' []) (\<lambda>t r.
     if t = [] then Inr (None, r)
     else case ParseRemovePolicy t of
            None \<Rightarrow> Inl (graph_bad (''invalid remove_policy '' @ quoted t @ '' in '' @ or_path r))
          | Some p \<Rightarrow> Inr (Some p, r))"

definition ParseModeField :: "RemoveMode reader" where
  "ParseModeField = rbind (OptionalString ''mode'' []) (\<lambda>t r.
     if t = [] then Inr (kDisconnect, r)
     else case ParseRemoveMode t of
            None \<Rightarrow> Inl (graph_bad (''invalid mode '' @ quoted t @ '' in '' @ or_path r))
          | Some m \<Rightarrow> Inr (m, r))"

fun parse_chain_nodes :: "string \<Rightarrow> bool \<Rightarrow> nat \<Rightarrow> json list \<Rightarrow> node_spec list result" where
  "parse_chain_nodes path allow i [] = Inr []"
| "parse_chain_nodes path allow i (n # ns) =
     bind_result (ParseNode n (path @ ''.nodes['' @ nat_to_string i @ '']'') allow) (\<lambda>node.
     bind_result (parse_chain_nodes path allow (i + 1) ns) (\<lambda>rest. Inr (node # rest)))"

definition nonempty :: "string \<Rightarrow> string option" where
  "nonempty s = (if s = [] then None else Some s)"

definition parse_chain_ports :: "json \<Rightarrow> string \<Rightarrow> bool \<Rightarrow> chain_ports result" where
  "parse_chain_ports v path allow =
     read_object v (path @ ''.ports'') allow GE_STATUS_GRAPH_INVALID
       (graph_bad (path @ ''.ports must be an object''))
       (rbind (OptionalString ''chain_input'' []) (\<lambda>i.
        rbind (OptionalString ''chain_output'' []) (\<lambda>o'.
          rreturn \<lparr>cp_chain_input = nonempty i, cp_chain_output = nonempty o'\<rparr>)))"

definition parse_insert_chain :: "string \<Rightarrow> bool \<Rightarrow> MutationAction reader" where
  "parse_insert_chain path allow =
     rbind (RequireString ''edge'') (\<lambda>edge.
     rbind (require_member ''nodes'') (\<lambda>nodes.
     rbind (rlift (case nodes of
         JArr (n # ns) \<Rightarrow> parse_chain_nodes path allow 0 (n # ns)
       | _ \<Rightarrow> Inl (graph_bad (path @ ''.nodes must be a non-empty array'')))) (\<lambda>ns.
     rbind (Reader_Get ''ports'') (\<lambda>pv.
     rbind (rlift (optional_field \<lparr>cp_chain_input = None, cp_chain_output = None\<rparr>
              (\<lambda>p. parse_chain_ports p path allow) pv)) (\<lambda>ports.
       rreturn (InsertChainAction edge ns ports))))))"

definition parse_remove_chain :: "string \<Rightarrow> MutationAction reader" where
  "parse_remove_chain path =
     rbind (StringArray ''nodes'' True []) (\<lambda>ns.
     if ns = [] then rlift (Inl (graph_bad (path @ ''.nodes must be non-empty'')))
     else rbind ParseModeField (\<lambda>mode. rbind ParseRemovePolicyField (\<lambda>pol.
       rreturn (RemoveChainAction ns mode pol))))"

definition parse_replacement :: "json \<Rightarrow> string \<Rightarrow> bool \<Rightarrow> (operator_key \<times> json) result" where
  "parse_replacement v path allow =
     read_object v (path @ ''.replacement'') allow GE_STATUS_GRAPH_INVALID
       (graph_bad (path @ ''.replacement must be an object''))
       (rbind (RequireString ''operator'') (\<lambda>op.
        rbind (rlift (ParseOperatorKey op (path @ ''.replacement''))) (\<lambda>key.
        rbind (OptionalObject ''options'' (JObj [])) (\<lambda>opts.
          rreturn (key, opts)))))"

definition port_map_dir :: "string \<Rightarrow> string \<Rightarrow> (string \<times> string) list reader" where
  "port_map_dir path dir = rbind (Reader_Get dir) (\<lambda>m r.
     case m of
       None \<Rightarrow> Inr ([], r)
     | Some (JObj o') \<Rightarrow>
         rlift (string_members (\<lambda>k. graph_bad (path @ ''.port_mapping.'' @ dir @ ''.'' @ k @ '' must be a string'')) o') r
     | Some _ \<Rightarrow> Inl (Reader_WrongType r dir ''object''))"

definition parse_port_mapping :: "json \<Rightarrow> string \<Rightarrow> bool \<Rightarrow> port_mapping result" where
  "parse_port_mapping v path allow =
     read_object v (path @ ''.port_mapping'') allow GE_STATUS_GRAPH_INVALID
       (graph_bad (path @ ''.port_mapping must be an object''))
       (rbind (port_map_dir path ''inputs'') (\<lambda>ins.
        rbind (port_map_dir path ''outputs'') (\<lambda>outs.
          rreturn \<lparr>pm_inputs = ins, pm_outputs = outs\<rparr>)))"

definition parse_replace_node :: "string \<Rightarrow> bool \<Rightarrow> MutationAction reader" where
  "parse_replace_node path allow =
     rbind (RequireString ''node'') (\<lambda>node.
     rbind (require_member ''replacement'') (\<lambda>rep.
     rbind (rlift (parse_replacement rep path allow)) (\<lambda>(key, opts).
     rbind (Reader_Get ''port_mapping'') (\<lambda>pm.
     rbind (rlift (optional_field None
              (\<lambda>m. bind_result (parse_port_mapping m path allow) (\<lambda>x. Inr (Some x))) pm)) (\<lambda>mapping.
     rbind ParseRemovePolicyField (\<lambda>pol.
       rreturn (ReplaceNodeAction node key opts mapping pol)))))))"

definition parse_remove_branch :: "string \<Rightarrow> MutationAction reader" where
  "parse_remove_branch path =
     rbind (OptionalString ''entry_edge'' []) (\<lambda>entry.
     rbind (StringArray ''entry_edges'' False []) (\<lambda>entries.
     if entry = [] \<and> entries = [] then
       rlift (Inl (graph_bad (path @ '' needs entry_edge or a non-empty entry_edges'')))
     else
       let entry' = (if entry = [] then hd entries else entry) in
       rbind (StringArray ''nodes'' True []) (\<lambda>ns.
       if ns = [] then rlift (Inl (graph_bad (path @ ''.nodes must be non-empty'')))
       else rbind ParseRemovePolicyField (\<lambda>pol.
         rreturn (RemoveBranchAction entry' ns pol entries)))))"

definition parse_set_options :: "MutationAction reader" where
  "parse_set_options =
     rbind (RequireString ''node'') (\<lambda>node.
     rbind (require_member ''parameters'') (\<lambda>ps r.
       if is_object ps then Inr (SetNodeOptionsAction node ps, r)
       else Inl (Reader_WrongType r ''parameters'' ''object'')))"

definition ParseAction :: "json \<Rightarrow> string \<Rightarrow> bool \<Rightarrow> MutationAction result" where
  "ParseAction v path allow =
     read_object v path allow GE_STATUS_GRAPH_INVALID (graph_bad (path @ '' must be an object''))
       (rbind (RequireString ''type'') (\<lambda>type.
        if type = ''add_node'' then
          rbind (require_member ''node'') (\<lambda>n.
          rbind (rlift (ParseNode n (path @ ''.node'') allow)) (\<lambda>node. rreturn (AddNodeAction node)))
        else if type = ''remove_node'' then
          rbind (RequireString ''node'') (\<lambda>node. rbind ParseModeField (\<lambda>mode.
          rbind ParseRemovePolicyField (\<lambda>pol. rreturn (RemoveNodeAction node mode pol))))
        else if type = ''insert_chain'' then parse_insert_chain path allow
        else if type = ''remove_chain'' then parse_remove_chain path
        else if type = ''replace_node'' then parse_replace_node path allow
        else if type = ''remove_branch'' then parse_remove_branch path
        else if type = ''add_edge'' then
          rbind (require_member ''edge'') (\<lambda>e.
          rbind (rlift (ParseEdge e (path @ ''.edge'') allow)) (\<lambda>edge. rreturn (AddEdgeAction edge)))
        else if type = ''remove_edge'' then
          rbind (RequireString ''edge'') (\<lambda>edge. rreturn (RemoveEdgeAction edge))
        else if type = ''set_node_options'' then parse_set_options
        else rlift (Inl (graph_bad (''unknown action type '' @ quoted type @ '' in '' @ path)))))"

fun parse_actions :: "bool \<Rightarrow> nat \<Rightarrow> json list \<Rightarrow> MutationAction list result" where
  "parse_actions allow i [] = Inr []"
| "parse_actions allow i (a # as) =
     bind_result (ParseAction a (''actions['' @ nat_to_string i @ '']'') allow) (\<lambda>action.
     bind_result (parse_actions allow (i + 1) as) (\<lambda>rest. Inr (action # rest)))"

definition parse_patch_fields :: "bool \<Rightarrow> mutation_patch reader" where
  "parse_patch_fields allow =
     rbind MarkHeaderSeen (\<lambda>_.
     rbind (OptionalInteger ''base_topology_version'') (\<lambda>base.
     rbind (rlift (optional_field None (\<lambda>b.
              if b < 0 then Inl (graph_bad ''base_topology_version must be >= 0'')
              else Inr (Some (u64_of_int b))) base)) (\<lambda>bv.
     rbind ParseRemovePolicyField (\<lambda>pol.
     rbind (require_array ''actions'') (\<lambda>as.
     rbind (rlift (parse_actions allow 0 as)) (\<lambda>xs.
       rreturn \<lparr>mp_base_topology_version = bv, mp_remove_policy = (case pol of Some p \<Rightarrow> p | None \<Rightarrow> kDrain),
                mp_actions = xs, mp_allow_unknown_fields = allow\<rparr>))))))"

definition ParsePatch_doc :: "json \<Rightarrow> mutation_patch result" where
  "ParsePatch_doc doc =
     bind_result (CheckDocumentHeader doc ''MutationPatch'' 1 patch_schema_id GE_STATUS_GRAPH_INVALID) (\<lambda>allow.
       read_object doc ''MutationPatch'' allow GE_STATUS_GRAPH_INVALID (graph_bad []) (parse_patch_fields allow))"

definition ParsePatch :: "fp_ops \<Rightarrow> string \<Rightarrow> mutation_patch result" where
  "ParsePatch fp t =
     (case ParseJson fp t of
        Inl e \<Rightarrow> Inl (graph_bad (''invalid JSON: '' @ json_error_text t e))
      | Inr doc \<Rightarrow> ParsePatch_doc doc)"

definition policy_member :: "RemovePolicy option \<Rightarrow> member" where
  "policy_member p = map_option (\<lambda>p. (''remove_policy'', JStr (RemovePolicy_ToString p))) p"

definition string_map_json :: "(string \<times> string) list \<Rightarrow> json" where
  "string_map_json m = json_members (map (\<lambda>(k, v). Some (k, JStr v)) m)"

fun action_members :: "MutationAction \<Rightarrow> member list" where
  "action_members (AddNodeAction n) = [Some (''node'', Node_ToJson n)]"
| "action_members (RemoveNodeAction n m p) =
     [Some (''node'', JStr n), Some (''mode'', JStr (RemoveMode_ToString m)), policy_member p]"
| "action_members (InsertChainAction e ns ps) =
     [Some (''edge'', JStr e), Some (''nodes'', JArr (map Node_ToJson ns)),
      if cp_chain_input ps \<noteq> None \<or> cp_chain_output ps \<noteq> None then
        Some (''ports'', json_members
          [map_option (\<lambda>s. (''chain_input'', JStr s)) (cp_chain_input ps),
           map_option (\<lambda>s. (''chain_output'', JStr s)) (cp_chain_output ps)])
      else None]"
| "action_members (RemoveChainAction ns m p) =
     [Some (''nodes'', StringsJson ns), Some (''mode'', JStr (RemoveMode_ToString m)), policy_member p]"
| "action_members (ReplaceNodeAction n op opts pm p) =
     [Some (''node'', JStr n),
      Some (''replacement'', json_members
        [Some (''operator'', JStr (OperatorKey_ToString op)),
         if as_object opts \<noteq> [] then Some (''options'', opts) else None]),
      map_option (\<lambda>m. (''port_mapping'', json_members
        [Some (''inputs'', string_map_json (pm_inputs m)), Some (''outputs'', string_map_json (pm_outputs m))])) pm,
      policy_member p]"
| "action_members (RemoveBranchAction entry ns p entries) =
     [if entries = [] then Some (''entry_edge'', JStr entry) else Some (''entry_edges'', StringsJson entries),
      Some (''nodes'', StringsJson ns), policy_member p]"
| "action_members (AddEdgeAction e) = [Some (''edge'', Edge_ToJson e)]"
| "action_members (RemoveEdgeAction e) = [Some (''edge'', JStr e)]"
| "action_members (SetNodeOptionsAction n ps) = [Some (''node'', JStr n), Some (''parameters'', ps)]"

definition Action_ToJson :: "MutationAction \<Rightarrow> json" where
  "Action_ToJson a = json_members (Some (''type'', JStr (ActionTypeName a)) # action_members a)"

definition Patch_ToJson :: "mutation_patch \<Rightarrow> json" where
  "Patch_ToJson p = json_members
     [Some (''kind'', JStr ''MutationPatch''), Some (''schema_version'', JInt 1),
      Some (''$id'', JStr patch_schema_id),
      if mp_allow_unknown_fields p then Some (''allow_unknown_fields'', JBool True) else None,
      map_option (\<lambda>v. (''base_topology_version'', JInt (i64 (int v)))) (mp_base_topology_version p),
      Some (''remove_policy'', JStr (RemovePolicy_ToString (mp_remove_policy p))),
      Some (''actions'', JArr (map Action_ToJson (mp_actions p)))]"

definition SerializePatch :: "fp_ops \<Rightarrow> mutation_patch \<Rightarrow> string" where
  "SerializePatch fp p = Serialize fp (Patch_ToJson p)"

subsection \<open>Round trips\<close>

lemma string_members_sorted:
  assumes "om_wf m"
  shows "string_members bad (map (\<lambda>(k, v). (k, JStr v)) m) = Inr m"
proof -
  have "fold_result (\<lambda>(k, v) acc. case v of JStr s \<Rightarrow> Inr (om_put k s acc) | _ \<Rightarrow> Inl (bad k))
      (map (\<lambda>(k, v). (k, JStr v)) es) acc = Inr (fold (\<lambda>(k, v). om_put k v) es acc)" for es acc
    by (induction es arbitrary: acc) auto
  then show ?thesis
    using fold_om_put_sorted [OF assms, of om_put id] by (simp add: string_members_def case_prod_beta')
qed

lemma string_map_json_object: "om_wf m \<Longrightarrow> string_map_json m = JObj (map (\<lambda>(k, v). (k, JStr v)) m)"
  using emplace_all_sorted [of "map (\<lambda>(k, v). (k, JStr v)) m"]
  by (simp add: string_map_json_def json_members_def om_wf_def comp_def case_prod_beta')

text \<open>What the text format can carry: an operator key whose parts do not clash with the separator,
  integers of their C++ type, and options that are an object.\<close>

definition node_codec_ok :: "node_spec \<Rightarrow> bool" where
  "node_codec_ok n \<longleftrightarrow> key_ok (ns_op n) \<and> 1 \<le> ns_parallelism n \<and> ns_parallelism n < 2 ^ 32 \<and>
     is_object (ns_options n) \<and> om_wf (ns_labels n) \<and>
     (\<forall>d. ex_device_id (ns_executor n) = Some d \<longrightarrow>
        ex_kind (ns_executor n) = Executor_Gpu \<and> - (2 ^ 31) \<le> d \<and> d < 2 ^ 31)"

definition port_codec_ok :: "port_ref \<Rightarrow> bool" where
  "port_codec_ok p \<longleftrightarrow> IsValidStableId (pr_node_id p) \<and> CHR ''.'' \<notin> set (pr_node_id p) \<and> pr_port p \<noteq> []"

definition edge_codec_ok :: "edge_spec \<Rightarrow> bool" where
  "edge_codec_ok e \<longleftrightarrow> port_codec_ok (es_from e) \<and> port_codec_ok (es_to e) \<and>
     1 \<le> qs_capacity (es_queue e) \<and> qs_capacity (es_queue e) < 2 ^ 32 \<and>
     (\<forall>b. qs_max_packet_bytes (es_queue e) = Some b \<longrightarrow> 0 < b \<and> b < 2 ^ 63)"

lemma PortRef_text [simp]: "port_codec_ok p \<Longrightarrow> PortRef_Parse (PortRef_ToString p) = Some p"
  by (simp add: PortRef_Parse_iff port_codec_ok_def)

lemma ParseExecutor_text:
  assumes "\<And>d. dev = Some d \<Longrightarrow> k = Executor_Gpu \<and> - (2 ^ 31) \<le> d \<and> d < 2 ^ 31"
  shows "ParseExecutor (json_members
      [Some (''kind'', JStr (ExecutorKind_ToString k)), map_option (\<lambda>d. (''device_id'', JInt d)) dev]) path allow =
    Inr \<lparr>ex_kind = k, ex_device_id = dev\<rparr>"
  using assms by (cases dev; cases k) (simp_all add: ParseExecutor_def read_object_def reader_defs field_defs ParseExecutorKind_def)

lemma ParseLabels_text [simp]:
  "ParseLabels path None r = Inr ([], r)"
  "om_wf m \<Longrightarrow> ParseLabels path (Some (string_map_json m)) r = Inr (m, r)"
  by (simp_all add: ParseLabels_def string_map_json_object string_members_sorted rlift_def)

lemma node_fields:
  obtains i op k dev par opts labels where
    "n = \<lparr>ns_id = i, ns_op = op, ns_executor = \<lparr>ex_kind = k, ex_device_id = dev\<rparr>, ns_parallelism = par,
      ns_options = opts, ns_labels = labels\<rparr>"
  by (metis executor_spec.cases node_spec.cases)

lemma ParseNode_text:
  assumes "node_codec_ok n"
  shows "ParseNode (Node_ToJson n) path allow = Inr n"
proof -
  obtain i op k dev par m labels where n: "n = \<lparr>ns_id = i, ns_op = op, ns_executor = \<lparr>ex_kind = k, ex_device_id = dev\<rparr>,
      ns_parallelism = par, ns_options = JObj m, ns_labels = labels\<rparr>"
    using assms by (cases n rule: node_fields; cases "ns_options n") (auto simp: node_codec_ok_def)
  have x: "\<And>d. dev = Some d \<Longrightarrow> k = Executor_Gpu \<and> - (2 ^ 31) \<le> d \<and> d < 2 ^ 31"
    using assms by (simp add: node_codec_ok_def n)
  show ?thesis
    using assms
    unfolding ParseNode_def Node_ToJson_def read_object_def string_map_json_def [symmetric]
    by (simp add: reader_defs field_defs ParseOperatorKey_def node_codec_ok_def n ParseExecutor_text [OF x])
qed

lemma enum_text_nonempty [simp]:
  "DropPolicy_ToString d \<noteq> []" "SyncPolicy_ToString s \<noteq> []"
  "RemovePolicy_ToString r \<noteq> []" "RemoveMode_ToString m \<noteq> []"
  by (cases d; cases s; simp add: RemovePolicy_ToString_def RemoveMode_ToString_def)+

lemma ParseQueue_text:
  assumes "1 \<le> cap" "cap < 2 ^ 32" "\<And>b. mb = Some b \<Longrightarrow> 0 < b \<and> b < 2 ^ 63"
  shows "ParseQueue (json_members
      [Some (''capacity'', JInt (int cap)), Some (''policy'', JStr (DropPolicy_ToString p)),
       map_option (\<lambda>b. (''max_packet_bytes'', JInt (i64 (int b)))) mb]) path allow =
    Inr \<lparr>qs_capacity = cap, qs_policy = p, qs_max_packet_bytes = mb\<rparr>"
  using assms by (cases mb) (simp_all add: ParseQueue_def read_object_def reader_defs field_defs)

lemma edge_fields:
  obtains i f t cap p mb s fb where
    "e = \<lparr>es_id = i, es_from = f, es_to = t, es_queue = \<lparr>qs_capacity = cap, qs_policy = p, qs_max_packet_bytes = mb\<rparr>,
      es_sync = s, es_feedback = fb\<rparr>"
  by (metis queue_spec.cases edge_spec.cases)

lemma ParseEdge_text:
  assumes "edge_codec_ok e"
  shows "ParseEdge (Edge_ToJson e) path allow = Inr e"
proof -
  obtain i f t cap p mb s fb where e: "e = \<lparr>es_id = i, es_from = f, es_to = t,
      es_queue = \<lparr>qs_capacity = cap, qs_policy = p, qs_max_packet_bytes = mb\<rparr>, es_sync = s, es_feedback = fb\<rparr>"
    by (cases e rule: edge_fields)
  have q: "1 \<le> cap" "cap < 2 ^ 32" "\<And>b. mb = Some b \<Longrightarrow> 0 < b \<and> b < 2 ^ 63"
    using assms by (auto simp: edge_codec_ok_def e)
  show ?thesis
    using assms unfolding ParseEdge_def Edge_ToJson_def read_object_def
    by (cases s; cases fb) (simp_all add: reader_defs field_defs ParseEndpoint_def edge_codec_ok_def e ParseQueue_text [OF q])
qed

lemma parse_nodes_text:
  assumes "\<forall>n\<in>set ns. node_codec_ok n \<and> node_ok n" "distinct (map ns_id (gs_nodes g @ ns))"
  shows "parse_nodes allow i (map Node_ToJson ns) g = Inr (g\<lparr>gs_nodes := gs_nodes g @ ns\<rparr>)"
  using assms
proof (induction ns arbitrary: i g)
  case (Cons n ns)
  have "AddNode n g = Inr (g\<lparr>gs_nodes := gs_nodes g @ [n]\<rparr>)"
    using Cons.prems by (auto simp: AddNode_Inr node_ids_def)
  then show ?case using Cons by (simp add: ParseNode_text)
qed simp

lemma parse_edges_text:
  assumes "\<forall>e\<in>set es. edge_codec_ok e \<and> edge_ok (node_ids g) e" "distinct (map es_id (gs_edges g @ es))"
    "distinct (map (\<lambda>e. (es_from e, es_to e)) (gs_edges g @ es))"
  shows "parse_edges allow i (map Edge_ToJson es) g = Inr (g\<lparr>gs_edges := gs_edges g @ es\<rparr>)"
  using assms
proof (induction es arbitrary: i g)
  case (Cons e es)
  have "edge_named e = e" using Cons.prems(1) by (simp add: edge_named_def edge_ok_def)
  then have "AddEdge e g = Inr (g\<lparr>gs_edges := gs_edges g @ [e]\<rparr>)"
    using Cons.prems by (auto simp: AddEdge_Inr edge_ids_def)
  then show ?case using Cons by (simp add: ParseEdge_text node_ids_def)
qed simp

definition option_key :: "string \<Rightarrow> bool" where
  "option_key k \<longleftrightarrow> k = ''default_device_id'' \<or> k = ''allow_default_operator_version''"

definition options_codec_ok :: "graph_options \<Rightarrow> bool" where
  "options_codec_ok o' \<longleftrightarrow> (\<exists>m. go_extra o' = JObj m \<and> om_wf m \<and> (\<forall>k\<in>fst ` set m. \<not> option_key k)) \<and>
     (\<forall>d. go_default_device_id o' = Some d \<longrightarrow> - (2 ^ 31) \<le> d \<and> d < 2 ^ 31)"

lemma map_of_filter_key: "map_of (filter (\<lambda>(k, v). P k) m) k = (if P k then map_of m k else None)"
  by (induction m) auto

lemma om_wf_filter: "om_wf m \<Longrightarrow> om_wf (filter Q m)"
  by (simp add: om_wf_def sorted_wrt_map sorted_wrt_filter)

lemma option_key_simps [simp]:
  "option_key ''default_device_id''" "option_key ''allow_default_operator_version''"
  by (simp_all add: option_key_def)

lemma parse_option_simps [simp]:
  "parse_option (''default_device_id'', JInt i) (go, x) = Inr (go\<lparr>go_default_device_id := Some (i32 i)\<rparr>, x)"
  "parse_option (''allow_default_operator_version'', JBool b) (go, x) =
     Inr (go\<lparr>go_allow_default_operator_version := b\<rparr>, x)"
  "\<not> option_key k \<Longrightarrow> parse_option (k, v) (go, x) = Inr (go, om_emplace k v x)"
  by (auto simp: parse_option_def option_key_def)

lemma parse_option_fold:
  assumes "om_wf m" "om_wf (acc @ filter (\<lambda>(k, v). \<not> option_key k) m)"
    "\<forall>v. map_of m ''default_device_id'' = Some v \<longrightarrow> (\<exists>i. v = JInt i)"
    "\<forall>v. map_of m ''allow_default_operator_version'' = Some v \<longrightarrow> (\<exists>b. v = JBool b)"
  shows "fold_result parse_option m (go, acc) =
    Inr (go\<lparr>go_default_device_id :=
              (case map_of m ''default_device_id'' of Some (JInt i) \<Rightarrow> Some (i32 i) | _ \<Rightarrow> go_default_device_id go),
            go_allow_default_operator_version :=
              (case map_of m ''allow_default_operator_version'' of Some (JBool b) \<Rightarrow> b
               | _ \<Rightarrow> go_allow_default_operator_version go)\<rparr>,
         acc @ filter (\<lambda>(k, v). \<not> option_key k) m)"
  using assms
proof (induction m arbitrary: go acc)
  case (Cons kv m)
  obtain k v where kv: "kv = (k, v)" by force
  have wf: "om_wf m" and k: "map_of m k = None"
    using Cons.prems(1) by (auto simp: kv om_wf_Cons map_of_eq_None_iff)
  consider "k = ''default_device_id''" | "k = ''allow_default_operator_version''" | "\<not> option_key k"
    by (auto simp: option_key_def)
  then show ?case
  proof cases
    case 1
    then obtain i where v: "v = JInt i" using Cons.prems(3) by (auto simp: kv)
    have c: "om_wf (acc @ filter (\<lambda>(k, v). \<not> option_key k) m)" "map_of m ''default_device_id'' = None"
      using Cons.prems(2) k 1 by (auto simp: kv option_key_def)
    have al: "\<forall>w. map_of m ''allow_default_operator_version'' = Some w \<longrightarrow> (\<exists>b. w = JBool b)"
      using Cons.prems(4) 1 by (simp add: kv)
    have dd: "\<forall>w. map_of m ''default_device_id'' = Some w \<longrightarrow> (\<exists>i. w = JInt i)" using c(2) by simp
    show ?thesis using c(2) by (simp add: kv v 1 Cons.IH [OF wf c(1) dd al] split: option.split json.split)
  next
    case 2
    then obtain b where v: "v = JBool b" using Cons.prems(4) by (auto simp: kv)
    have c: "om_wf (acc @ filter (\<lambda>(k, v). \<not> option_key k) m)" "map_of m ''allow_default_operator_version'' = None"
      using Cons.prems(2) k 2 by (auto simp: kv option_key_def)
    have dd: "\<forall>w. map_of m ''default_device_id'' = Some w \<longrightarrow> (\<exists>i. w = JInt i)"
      using Cons.prems(3) 2 by (simp add: kv)
    have al: "\<forall>w. map_of m ''allow_default_operator_version'' = Some w \<longrightarrow> (\<exists>b. w = JBool b)" using c(2) by simp
    show ?thesis using c(2) by (simp add: kv v 2 Cons.IH [OF wf c(1) dd al] split: option.split json.split)
  next
    case 3
    then have ne: "''default_device_id'' \<noteq> k" "''allow_default_operator_version'' \<noteq> k" by auto
    have acc: "om_wf acc" "map_of acc k = None" "om_wf (acc @ (k, v) # filter (\<lambda>(k, v). \<not> option_key k) m)"
      using Cons.prems(2) 3 by (auto simp: kv om_wf_def sorted_wrt_append map_of_eq_None_iff)
    then have "om_emplace k v acc = acc @ [(k, v)]"
      using om_put_last [OF acc(3)] by (simp add: om_emplace_def)
    moreover have "fold_result parse_option m (go, acc @ [(k, v)]) =
      Inr (go\<lparr>go_default_device_id :=
              (case map_of m ''default_device_id'' of Some (JInt i) \<Rightarrow> Some (i32 i) | _ \<Rightarrow> go_default_device_id go),
            go_allow_default_operator_version :=
              (case map_of m ''allow_default_operator_version'' of Some (JBool b) \<Rightarrow> b
               | _ \<Rightarrow> go_allow_default_operator_version go)\<rparr>,
         (acc @ [(k, v)]) @ filter (\<lambda>(k, v). \<not> option_key k) m)"
      by (rule Cons.IH [OF wf]) (use acc(3) Cons.prems(3,4) ne in \<open>simp_all add: kv\<close>)
    ultimately show ?thesis using 3 ne by (simp add: kv)
  qed
qed simp

lemma options_members_at:
  assumes "om_wf m" "\<forall>k\<in>fst ` set m. \<not> option_key k"
    and M: "M = options_members \<lparr>go_default_device_id = dev, go_allow_default_operator_version = al, go_extra = JObj m\<rparr>"
  shows "om_wf M" "map_of M ''default_device_id'' = map_option JInt dev"
    "map_of M ''allow_default_operator_version'' = (if al then Some (JBool True) else None)"
    "filter (\<lambda>(k, v). \<not> option_key k) M = m"
proof -
  have none: "map_of m k = None" if "option_key k" for k using assms(2) that by (auto simp: map_of_eq_None_iff)
  show wf: "om_wf M" using assms by (simp add: options_members_def)
  have at: "map_of M k = (case map_of m k of Some v \<Rightarrow> Some v | None \<Rightarrow> member_at
      [map_option (\<lambda>d. (''default_device_id'', JInt d)) dev,
       if al then Some (''allow_default_operator_version'', JBool True) else None] k)" for k
    using assms by (simp add: options_members_def map_of_emplace_all)
  show "map_of M ''default_device_id'' = map_option JInt dev"
    unfolding at by (cases dev) (simp_all add: none)
  show "map_of M ''allow_default_operator_version'' = (if al then Some (JBool True) else None)"
    unfolding at by (simp add: none)
  show "filter (\<lambda>(k, v). \<not> option_key k) M = m"
  proof (rule om_eqI)
    have "map_of (filter (\<lambda>(k, v). \<not> option_key k) M) k = map_of m k" for k
    proof (cases "option_key k")
      case False
      then have "''default_device_id'' \<noteq> k" "''allow_default_operator_version'' \<noteq> k" by auto
      then show ?thesis using False by (simp add: map_of_filter_key at split: option.split)
    qed (simp add: map_of_filter_key none)
    then show "map_of (filter (\<lambda>(k, v). \<not> option_key k) M) = map_of m" by blast
  qed (rule om_wf_filter [OF wf], rule assms(1))
qed

lemma parse_options_text:
  assumes "options_codec_ok opts"
  shows "parse_options (if options_members opts = [] then None else Some (JObj (options_members opts)))
      (gs_options (GraphSpec_new nm)) r = Inr (opts, r)"
proof -
  obtain m dev al where o': "opts = \<lparr>go_default_device_id = dev, go_allow_default_operator_version = al, go_extra = JObj m\<rparr>"
    and m: "om_wf m" "\<forall>k\<in>fst ` set m. \<not> option_key k" and dev: "\<forall>d. dev = Some d \<longrightarrow> i32 d = d"
    using assms by (cases opts) (auto simp: options_codec_ok_def)
  define M where "M = options_members \<lparr>go_default_device_id = dev, go_allow_default_operator_version = al, go_extra = JObj m\<rparr>"
  note at = options_members_at [OF m M_def]
  have "fold_result parse_option M (gs_options (GraphSpec_new nm), []) =
      Inr (\<lparr>go_default_device_id = dev, go_allow_default_operator_version = al, go_extra = JObj []\<rparr>, m)"
    using dev m by (subst parse_option_fold)
      (auto simp: at GraphSpec_new_def split: option.split)
  moreover have "M = [] \<Longrightarrow> dev = None \<and> \<not> al \<and> m = []"
    using at(2-4) by (auto split: if_splits)
  ultimately show ?thesis
    unfolding o' M_def [symmetric] by (auto simp: parse_options_def rlift_def GraphSpec_new_def)
qed

definition graph_codec_ok :: "graph_spec \<Rightarrow> bool" where
  "graph_codec_ok g \<longleftrightarrow> gs_wf g \<and> gs_nodes g \<noteq> [] \<and> (\<forall>n\<in>set (gs_nodes g). node_codec_ok n) \<and>
     (\<forall>e\<in>set (gs_edges g). edge_codec_ok e) \<and> options_codec_ok (gs_options g)"

lemma ParseGraph_doc_text:
  assumes "graph_codec_ok g"
  shows "ParseGraph_doc (Graph_ToJson g) = Inr g"
proof -
  obtain nm d opts au ns es where g: "g = \<lparr>gs_name = nm, gs_description = d, gs_options = opts,
      gs_allow_unknown_fields = au, gs_nodes = ns, gs_edges = es\<rparr>" by (cases g)
  have ok: "gs_wf g" "ns \<noteq> []" "options_codec_ok opts" using assms by (simp_all add: graph_codec_ok_def g)
  define spec where "spec = (GraphSpec_new nm)\<lparr>gs_description := d, gs_options := opts, gs_allow_unknown_fields := au\<rparr>"
  have n: "parse_nodes au 0 (map Node_ToJson ns) spec = Inr (spec\<lparr>gs_nodes := ns\<rparr>)"
    using assms by (subst parse_nodes_text) (auto simp: spec_def GraphSpec_new_def graph_codec_ok_def gs_wf_def g)
  have e: "parse_edges au 0 (map Edge_ToJson es) (spec\<lparr>gs_nodes := ns\<rparr>) = Inr g"
    using assms by (subst parse_edges_text) (auto simp: spec_def GraphSpec_new_def graph_codec_ok_def gs_wf_def node_ids_def g)
  have po: "parse_options (if options_members opts = [] then None else Some (JObj (options_members opts)))
      (gs_options (GraphSpec_new nm)) r = Inr (opts, r)" for r
    by (rule parse_options_text [OF ok(3)])
  have po': "options_members opts = [] \<Longrightarrow> parse_options None (gs_options (GraphSpec_new nm)) r = Inr (opts, r)"
    "options_members opts \<noteq> [] \<Longrightarrow> parse_options (Some (JObj (options_members opts)))
      (gs_options (GraphSpec_new nm)) r = Inr (opts, r)" for r
    using po [of r] by simp_all
  have hd: "CheckDocumentHeader (Graph_ToJson g) ''GraphSpec'' 1 graph_schema_id GE_STATUS_GRAPH_INVALID = Inr au"
    unfolding Graph_ToJson_def by (simp add: CheckDocumentHeader_def Let_def json_GetString_def g)
  have n': "parse_nodes au 0 (map Node_ToJson ns) (GraphSpec_new nm
      \<lparr>gs_description := d, gs_options := opts, gs_allow_unknown_fields := au\<rparr>) = Inr (spec\<lparr>gs_nodes := ns\<rparr>)"
    using n by (simp add: spec_def)
  show ?thesis
    unfolding ParseGraph_doc_def hd bind_result_simps
    unfolding read_object_def parse_graph_fields_def Graph_ToJson_def
    using ok(2) n' e po'
    by (cases au; cases d; cases "options_members opts = []") (simp_all add: g reader_defs MarkHeaderSeen_def require_array_def)
qed

lemma is_object_iff: "is_object v \<longleftrightarrow> (\<exists>m. v = JObj m)"
  by (cases v) auto

lemma string_members_wf: "string_members bad m = Inr m' \<Longrightarrow> om_wf m'"
  unfolding string_members_def
  by (rule fold_result_inv [where P = om_wf]) (auto split: json.splits prod.splits)

lemma ParseExecutor_Inr:
  "ParseExecutor v path allow = Inr ex \<Longrightarrow> ex_device_id ex = Some d \<Longrightarrow>
     ex_kind ex = Executor_Gpu \<and> - (2 ^ 31) \<le> d \<and> d < 2 ^ 31"
  by (auto simp: ParseExecutor_def read_object_Inr rbind_Inr i32_def optional_field_Inr parse_device_def split: if_splits)

lemma ParseOperatorKey_Inr: "ParseOperatorKey t path = Inr k \<longleftrightarrow> OperatorKey_Parse t = Some k"
  by (auto simp: ParseOperatorKey_def split: option.splits)

lemma ParseLabels_wf: "ParseLabels path lv r = Inr (m, r') \<Longrightarrow> om_wf m"
  by (auto simp: ParseLabels_def split: option.splits json.splits dest: string_members_wf)

lemma ParseNode_Inr:
  assumes "ParseNode v path allow = Inr n"
  shows "node_codec_ok n \<or> ns_parallelism n = 0"
proof -
  note unfolded = assms [unfolded ParseNode_def read_object_Inr rbind_Inr]
  have f: "\<exists>op. OperatorKey_Parse op = Some (ns_op n)"
      "ex_device_id (ns_executor n) = None \<or> (\<exists>e. ParseExecutor e path allow = Inr (ns_executor n))"
      "ns_parallelism n = 1 \<or> (\<exists>p. ns_parallelism n = u32_of_int p)" "is_object (ns_options n)"
      "om_wf (ns_labels n)"
    using unfolded by (auto dest: ParseLabels_wf simp: ParseOperatorKey_Inr optional_field_Inr parse_parallelism_def split: if_splits)
  have "key_ok (ns_op n)" using f(1) by (auto simp: OperatorKey_Parse_iff key_ok_def)
  moreover have "ns_parallelism n < 2 ^ 32" using f(3) by (auto simp: u32_of_int_def nat_less_iff)
  moreover have "\<forall>d. ex_device_id (ns_executor n) = Some d \<longrightarrow>
      ex_kind (ns_executor n) = Executor_Gpu \<and> - (2 ^ 31) \<le> d \<and> d < 2 ^ 31"
    using f(2) ParseExecutor_Inr by auto
  ultimately show ?thesis using f(4,5) by (cases "ns_parallelism n = 0") (auto simp: node_codec_ok_def)
qed

lemma ParseEndpoint_Inr:
  "ParseEndpoint key r = Inr (p, r') \<Longrightarrow>
     port_codec_ok p \<and> json_Find (or_value r) key = Some (JStr (PortRef_ToString p)) \<and> r' = mark key r"
  by (auto simp: ParseEndpoint_def rbind_Inr PortRef_Parse_iff port_codec_ok_def split: option.splits)

lemma ParseQueue_Inr:
  assumes "ParseQueue v path allow = Inr q" "json_wf (Suc d) v"
  shows "qs_capacity q < 2 ^ 32 \<and> (\<forall>b. qs_max_packet_bytes q = Some b \<longrightarrow> 0 < b \<and> b < 2 ^ 63)"
proof -
  note unfolded = assms(1) [unfolded ParseQueue_def read_object_Inr rbind_Inr]
  have "qs_capacity q = 64 \<or> (\<exists>c. qs_capacity q = u32_of_int c)"
    using unfolded by (auto simp: optional_field_Inr parse_capacity_def default_queue_def split: if_splits)
  moreover have "qs_max_packet_bytes q = None \<or>
      (\<exists>b. json_Find v ''max_packet_bytes'' = Some (JInt b) \<and> 0 < b \<and> qs_max_packet_bytes q = Some (u64_of_int b))"
    using unfolded by (auto simp: optional_field_Inr parse_max_bytes_def split: if_splits)
  ultimately show ?thesis
    using json_wf_Find [OF assms(2)] json_wf_mono_int
    by (auto simp: u32_of_int_def u64_of_int_def nat_less_iff) (fastforce dest: json_wf_mono_int)+
qed

lemma ParseEdge_Inr:
  assumes "ParseEdge v path allow = Inr e" "json_wf (Suc (Suc d)) v"
  shows "edge_codec_ok e \<or> qs_capacity (es_queue e) = 0"
proof -
  note unfolded = assms(1) [unfolded ParseEdge_def read_object_Inr rbind_Inr]
  have "port_codec_ok (es_from e)" "port_codec_ok (es_to e)" using unfolded by (auto dest!: ParseEndpoint_Inr)
  moreover have "es_queue e = default_queue \<or>
      (\<exists>q. json_Find v ''queue'' = Some q \<and> ParseQueue q path allow = Inr (es_queue e))"
    using unfolded by (auto simp: optional_field_Inr dest!: ParseEndpoint_Inr)
  then have "qs_capacity (es_queue e) < 2 ^ 32 \<and> (\<forall>b. qs_max_packet_bytes (es_queue e) = Some b \<longrightarrow> 0 < b \<and> b < 2 ^ 63)"
    by (elim disjE exE conjE) (simp add: default_queue_def, erule ParseQueue_Inr, erule json_wf_Find [OF assms(2)])
  ultimately show ?thesis by (cases "qs_capacity (es_queue e) = 0") (auto simp: edge_codec_ok_def)
qed

lemma parse_nodes_Inr:
  "parse_nodes allow i vs g = Inr g' \<Longrightarrow> gs_wf g \<Longrightarrow> (\<forall>n\<in>set (gs_nodes g). node_codec_ok n) \<Longrightarrow>
     gs_wf g' \<and> (\<forall>n\<in>set (gs_nodes g'). node_codec_ok n) \<and> gs_edges g' = gs_edges g \<and> gs_options g' = gs_options g \<and>
     length (gs_nodes g') = length (gs_nodes g) + length vs"
proof (induction allow i vs g rule: parse_nodes.induct)
  case (2 allow i v vs g)
  from "2.prems"(1) obtain n g1 where n: "ParseNode v (''nodes['' @ nat_to_string i @ '']'') allow = Inr n" "AddNode n g = Inr g1"
    "parse_nodes allow (i + 1) vs g1 = Inr g'" by (auto simp: bind_result_Inr)
  have "node_codec_ok n" using ParseNode_Inr [OF n(1)] n(2) by (auto simp: AddNode_Inr node_ok_def)
  moreover have g1: "gs_wf g1" using AddNode_wf [OF n(2)] "2.prems"(2) by blast
  moreover have eq: "g1 = g\<lparr>gs_nodes := gs_nodes g @ [n]\<rparr>" using n(2) by (simp add: AddNode_Inr)
  ultimately have "\<forall>n\<in>set (gs_nodes g1). node_codec_ok n" using "2.prems"(3) by simp
  from "2.IH" [OF n g1 this] show ?case by (simp add: eq)
qed simp

lemma edge_codec_ok_named [simp]: "edge_codec_ok (edge_named e) = edge_codec_ok e"
  by (simp only: edge_codec_ok_def edge_named_simps)

lemma parse_edges_Inr:
  "parse_edges allow i vs g = Inr g' \<Longrightarrow> gs_wf g \<Longrightarrow> (\<forall>e\<in>set (gs_edges g). edge_codec_ok e) \<Longrightarrow>
     (\<forall>v\<in>set vs. json_wf (Suc (Suc d)) v) \<Longrightarrow>
     gs_wf g' \<and> (\<forall>e\<in>set (gs_edges g'). edge_codec_ok e) \<and> gs_nodes g' = gs_nodes g \<and> gs_options g' = gs_options g"
proof (induction allow i vs g rule: parse_edges.induct)
  case (2 allow i v vs g)
  from "2.prems"(1) obtain e g1 where e: "ParseEdge v (''edges['' @ nat_to_string i @ '']'') allow = Inr e" "AddEdge e g = Inr g1"
    "parse_edges allow (i + 1) vs g1 = Inr g'" by (auto simp: bind_result_Inr)
  have "json_wf (Suc (Suc d)) v" using "2.prems"(4) by simp
  then have "edge_codec_ok e" using ParseEdge_Inr [OF e(1)] e(2) by (auto simp: AddEdge_Inr edge_ok_def)
  moreover have g1: "gs_wf g1" using AddEdge_wf [OF e(2)] "2.prems"(2) by blast
  moreover have eq: "g1 = g\<lparr>gs_edges := gs_edges g @ [edge_named e]\<rparr>" using e(2) by (simp add: AddEdge_Inr)
  ultimately have "\<forall>e\<in>set (gs_edges g1). edge_codec_ok e" using "2.prems"(3) by simp
  from "2.IH" [OF e g1 this] "2.prems"(4) show ?case by (simp add: eq)
qed simp

lemma parse_option_Inr:
  assumes "fold_result parse_option m (go, []) = Inr (go', extra)" "options_codec_ok go" "go_extra go = JObj []"
  shows "options_codec_ok (go'\<lparr>go_extra := JObj extra\<rparr>)"
proof -
  let ?P = "\<lambda>(o', x). om_wf x \<and> (\<forall>k\<in>fst ` set x. \<not> option_key k) \<and>
      (\<forall>d. go_default_device_id o' = Some d \<longrightarrow> - (2 ^ 31) \<le> d \<and> d < 2 ^ 31)"
  have k: "fst ` set (om_emplace k v x) \<subseteq> insert k (fst ` set x)" for k v and x :: "(string \<times> json) list"
    by (simp add: om_emplace_def split: option.splits) blast
  have "?P (go', extra)"
  proof (rule fold_result_inv [OF assms(1), where P = ?P])
    show "?P (go, [])" using assms(2) by (auto simp: options_codec_ok_def)
    show "?P s'" if "?P s" "parse_option kv s = Inr s'" for kv s s'
      using that k
      by (auto simp: parse_option_def option_key_def i32_def split: prod.splits if_splits json.splits)
        (fastforce simp: image_iff)+
  qed
  then show ?thesis by (auto simp: options_codec_ok_def)
qed

lemma parse_options_Inr:
  assumes "parse_options ov (gs_options (GraphSpec_new nm)) r = Inr (opts, r')"
  shows "options_codec_ok opts \<and> r' = r"
proof -
  have d: "options_codec_ok (gs_options (GraphSpec_new nm))" "go_extra (gs_options (GraphSpec_new nm)) = JObj []"
    by (simp_all add: options_codec_ok_def GraphSpec_new_def)
  show ?thesis
    using assms d by (auto simp: parse_options_def bind_result_Inr split: option.splits json.splits dest: parse_option_Inr)
qed

lemma parse_graph_fields_Inr:
  assumes "parse_graph_fields allow r = Inr (g, r')"
  obtains nm d opts ns es spec where "options_codec_ok opts" "ns \<noteq> []"
    "parse_nodes allow 0 ns ((GraphSpec_new nm)\<lparr>gs_description := d, gs_options := opts, gs_allow_unknown_fields := allow\<rparr>) = Inr spec"
    "json_Find (or_value r) ''edges'' = Some (JArr es)" "parse_edges allow 0 es spec = Inr g"
  using assms
  by (auto simp: parse_graph_fields_def rbind_Inr split: if_splits dest!: parse_options_Inr)

lemma ParseGraph_doc_Inr:
  assumes "ParseGraph_doc doc = Inr g" "json_wf (Suc (Suc (Suc (Suc d)))) doc"
  shows "graph_codec_ok g"
proof -
  obtain allow r r' where r: "parse_graph_fields allow r = Inr (g, r')" "or_value r = doc"
    using assms(1) by (auto simp: ParseGraph_doc_def bind_result_Inr read_object_Inr)
  obtain nm de opts ns es spec where f: "options_codec_ok opts" "ns \<noteq> []"
    "parse_nodes allow 0 ns ((GraphSpec_new nm)\<lparr>gs_description := de, gs_options := opts, gs_allow_unknown_fields := allow\<rparr>) = Inr spec"
    "json_Find doc ''edges'' = Some (JArr es)" "parse_edges allow 0 es spec = Inr g"
    using r by (auto elim: parse_graph_fields_Inr)
  let ?g0 = "(GraphSpec_new nm)\<lparr>gs_description := de, gs_options := opts, gs_allow_unknown_fields := allow\<rparr>"
  have g0: "gs_wf ?g0" "gs_nodes ?g0 = []" "gs_edges ?g0 = []" "gs_options ?g0 = opts"
    by (simp_all add: GraphSpec_new_def gs_wf_def)
  have n: "gs_wf spec" "\<forall>n\<in>set (gs_nodes spec). node_codec_ok n" "gs_edges spec = []" "gs_options spec = opts"
      "length (gs_nodes spec) = length ns"
    using parse_nodes_Inr [OF f(3)] g0 by simp_all
  have "\<forall>v\<in>set es. json_wf (Suc (Suc d)) v"
    using json_wf_Find [OF assms(2) f(4)] by (simp add: list_all_iff)
  from parse_edges_Inr [OF f(5) n(1) _ this] n show ?thesis
    using f(1,2) by (auto simp: graph_codec_ok_def)
qed

fun action_codec_ok :: "MutationAction \<Rightarrow> bool" where
  "action_codec_ok (AddNodeAction n) = node_codec_ok n"
| "action_codec_ok (InsertChainAction e ns ps) =
     (ns \<noteq> [] \<and> list_all node_codec_ok ns \<and> cp_chain_input ps \<noteq> Some [] \<and> cp_chain_output ps \<noteq> Some [])"
| "action_codec_ok (RemoveChainAction ns m p) = (ns \<noteq> [])"
| "action_codec_ok (ReplaceNodeAction n op opts pm p) =
     (key_ok op \<and> is_object opts \<and> (\<forall>m. pm = Some m \<longrightarrow> om_wf (pm_inputs m) \<and> om_wf (pm_outputs m)))"
| "action_codec_ok (RemoveBranchAction entry ns p entries) =
     (ns \<noteq> [] \<and> (if entries = [] then entry \<noteq> [] else entry = hd entries))"
| "action_codec_ok (AddEdgeAction e) = edge_codec_ok e"
| "action_codec_ok (SetNodeOptionsAction n ps) = is_object ps"
| "action_codec_ok _ = True"

definition patch_codec_ok :: "mutation_patch \<Rightarrow> bool" where
  "patch_codec_ok p \<longleftrightarrow> list_all action_codec_ok (mp_actions p) \<and>
     (\<forall>v. mp_base_topology_version p = Some v \<longrightarrow> v < 2 ^ 63)"

lemma parse_chain_nodes_text:
  "list_all node_codec_ok ns \<Longrightarrow> parse_chain_nodes path allow i (map Node_ToJson ns) = Inr ns"
  by (induction ns arbitrary: i) (simp_all add: ParseNode_text)

lemma port_map_dir_text:
  "om_wf m \<Longrightarrow> json_Find (or_value r) dir = Some (string_map_json m) \<Longrightarrow> port_map_dir path dir r = Inr (m, mark dir r)"
  by (simp add: port_map_dir_def reader_defs string_map_json_object string_members_sorted)

lemma parse_port_mapping_text:
  "om_wf ins \<Longrightarrow> om_wf outs \<Longrightarrow>
   parse_port_mapping (json_members [Some (''inputs'', string_map_json ins), Some (''outputs'', string_map_json outs)]) path allow =
     Inr \<lparr>pm_inputs = ins, pm_outputs = outs\<rparr>"
  by (simp add: parse_port_mapping_def read_object_def rbind_def port_map_dir_text ObjectReader_def rreturn_def)

lemma parse_replacement_text:
  assumes "key_ok op" "is_object opts"
  shows "parse_replacement (json_members [Some (''operator'', JStr (OperatorKey_ToString op)),
      if as_object opts \<noteq> [] then Some (''options'', opts) else None]) path allow = Inr (op, opts)"
proof -
  obtain m where "opts = JObj m" using assms(2) by (cases opts) auto
  then show ?thesis
    using assms(1) by (simp add: parse_replacement_def read_object_def reader_defs ParseOperatorKey_def)
qed

lemma parse_chain_ports_text:
  "ci \<noteq> Some [] \<Longrightarrow> co \<noteq> Some [] \<Longrightarrow>
   parse_chain_ports (json_members [map_option (\<lambda>s. (''chain_input'', JStr s)) ci,
       map_option (\<lambda>s. (''chain_output'', JStr s)) co]) path allow = Inr \<lparr>cp_chain_input = ci, cp_chain_output = co\<rparr>"
  by (cases ci; cases co) (simp_all add: parse_chain_ports_def read_object_def reader_defs nonempty_def)

lemmas action_defs = ParseAction_def Action_ToJson_def read_object_def reader_defs require_member_def
  ParseModeField_def ParseRemovePolicyField_def policy_member_def

lemma ParseAction_text:
  assumes "action_codec_ok a"
  shows "ParseAction (Action_ToJson a) path allow = Inr a"
proof (cases a)
  case (AddNodeAction n)
  then show ?thesis using assms by (simp add: action_defs ParseNode_text)
next
  case (RemoveNodeAction n m p)
  then show ?thesis by (cases p) (simp_all add: action_defs)
next
  case (InsertChainAction e ns ps)
  obtain ci co where ps: "ps = \<lparr>cp_chain_input = ci, cp_chain_output = co\<rparr>" by (cases ps)
  obtain n ns' where ns: "ns = n # ns'" using assms InsertChainAction by (cases ns) auto
  have c: "parse_chain_nodes path allow 0 (Node_ToJson n # map Node_ToJson ns') = Inr ns"
    using parse_chain_nodes_text [of ns path allow 0] assms InsertChainAction by (simp add: ns)
  show ?thesis
    using assms InsertChainAction parse_chain_ports_text [of ci co]
    by (simp add: action_defs parse_insert_chain_def ps ns del: parse_chain_nodes.simps) (simp add: c ns del: parse_chain_nodes.simps)
next
  case (RemoveChainAction ns m p)
  then show ?thesis using assms by (cases p) (simp_all add: action_defs parse_remove_chain_def)
next
  case (ReplaceNodeAction n op opts pm p)
  show ?thesis
  proof (cases pm)
    case None
    then show ?thesis using assms ReplaceNodeAction
      by (cases p) (simp_all add: action_defs parse_replace_node_def parse_replacement_text)
  next
    case (Some m)
    then show ?thesis using assms ReplaceNodeAction
      by (cases p) (simp_all add: action_defs parse_replace_node_def parse_replacement_text parse_port_mapping_text)
  qed
next
  case (RemoveBranchAction entry ns p entries)
  then show ?thesis using assms
    by (cases p; cases entries) (simp_all add: action_defs parse_remove_branch_def)
next
  case (AddEdgeAction e)
  then show ?thesis using assms by (simp add: action_defs ParseEdge_text)
next
  case (RemoveEdgeAction e)
  then show ?thesis by (simp add: action_defs)
next
  case (SetNodeOptionsAction n ps)
  then show ?thesis using assms by (simp add: action_defs parse_set_options_def)
qed

lemma parse_actions_text:
  "list_all action_codec_ok as \<Longrightarrow> parse_actions allow i (map Action_ToJson as) = Inr as"
  by (induction as arbitrary: i) (simp_all add: ParseAction_text)

lemma ParsePatch_doc_text:
  assumes "patch_codec_ok p"
  shows "ParsePatch_doc (Patch_ToJson p) = Inr p"
proof -
  obtain bv pol as au where p: "p = \<lparr>mp_base_topology_version = bv, mp_remove_policy = pol, mp_actions = as,
      mp_allow_unknown_fields = au\<rparr>" by (cases p)
  have hd: "CheckDocumentHeader (Patch_ToJson p) ''MutationPatch'' 1 patch_schema_id GE_STATUS_GRAPH_INVALID = Inr au"
    unfolding Patch_ToJson_def by (simp add: CheckDocumentHeader_def Let_def json_GetString_def p)
  show ?thesis
    unfolding ParsePatch_doc_def hd bind_result_simps
    unfolding read_object_def parse_patch_fields_def Patch_ToJson_def
    using assms
    by (cases au; cases bv) (simp_all add: p reader_defs MarkHeaderSeen_def require_array_def ParseRemovePolicyField_def
        patch_codec_ok_def parse_actions_text)
qed

subsection \<open>The codec's promises\<close>

definition sample_graph :: graph_spec where
  "sample_graph = (GraphSpec_new ''g'')\<lparr>gs_nodes := [sample_node ''a'', (sample_node ''b'')\<lparr>ns_parallelism := 2\<rparr>],
     gs_edges := [\<lparr>es_id = ''e1'', es_from = \<lparr>pr_node_id = ''a'', pr_port = ''out''\<rparr>,
       es_to = \<lparr>pr_node_id = ''b'', pr_port = ''in''\<rparr>, es_queue = sample_queue, es_sync = Some kLatest,
       es_feedback = False\<rparr>]\<rparr>"

lemma sample_graph_ok: "graph_codec_ok sample_graph"
proof -
  have "IsValidStableId ''a''" "IsValidStableId ''b''" "IsValidStableId ''e1''" by code_simp+
  then show ?thesis
    by (simp add: graph_codec_ok_def sample_graph_def GraphSpec_new_def gs_wf_def node_ok_def edge_ok_def node_ids_def
        sample_node_def sample_queue_def node_codec_ok_def key_ok_def edge_codec_ok_def port_codec_ok_def
        options_codec_ok_def)
qed

lemma sample_graph_json: "json_ok 5 (Graph_ToJson sample_graph)"
  by code_simp

text \<open>C17. Graph documents round trip: for a well-formed graph that the format can carry (integers of their
  C++ types, operator keys without a separator in the name, endpoints without a dot in the node id,
  no floating-point number) the parser reads the text of the serialiser back to the same graph.\<close>

theorem graph_text_round_trip:
  assumes "graph_codec_ok g" "json_ok kMaxDepth (Graph_ToJson g)"
  shows "ParseGraph fp (SerializeGraph fp g) = Inr g"
  using assms by (simp add: ParseGraph_def SerializeGraph_def ParseJson_Serialize ParseGraph_doc_text)

theorem graph_text_round_trip_witness:
  "ParseGraph no_fp (SerializeGraph no_fp sample_graph) = Inr sample_graph"
  by (rule graph_text_round_trip [OF sample_graph_ok])
    (rule json_ok_mono [OF sample_graph_json], simp add: kMaxDepth_def)

text \<open>C18. Whatever text the graph parser accepts, the graph it returns is well formed, has a node, and is
  one that the serialiser can carry, so writing and reading it again gives the same graph.\<close>

theorem parsed_graph_stable:
  assumes "ParseGraph fp t = Inr g"
  shows "gs_wf g \<and> gs_nodes g \<noteq> [] \<and> graph_codec_ok g \<and>
    (json_ok kMaxDepth (Graph_ToJson g) \<longrightarrow> ParseGraph fp (SerializeGraph fp g) = Inr g)"
proof -
  obtain doc where "ParseJson fp t = Inr doc" "ParseGraph_doc doc = Inr g"
    using assms by (auto simp: ParseGraph_def split: sum.splits)
  moreover have "kMaxDepth = Suc (Suc (Suc (Suc 252)))" by (simp add: kMaxDepth_def)
  ultimately have "graph_codec_ok g" using ParseJson_wf [of fp t doc] ParseGraph_doc_Inr [of doc g 252] by simp
  then show ?thesis
    by (simp add: graph_codec_ok_def ParseGraph_def SerializeGraph_def ParseJson_Serialize ParseGraph_doc_text)
qed

theorem parsed_graph_stable_witness:
  "\<exists>g. ParseGraph no_fp (SerializeGraph no_fp sample_graph) = Inr g \<and> gs_wf g \<and> gs_nodes g \<noteq> []"
proof -
  have "ParseGraph no_fp (SerializeGraph no_fp sample_graph) = Inr sample_graph"
    using sample_graph_ok json_ok_mono [OF sample_graph_json, of kMaxDepth]
    by (simp add: ParseGraph_def SerializeGraph_def ParseJson_Serialize ParseGraph_doc_text kMaxDepth_def)
  from parsed_graph_stable [OF this] this show ?thesis by blast
qed

text \<open>C30. A graph document with a field that is not in the schema is refused unless it allows unknown
  fields itself: the keys of an accepted strict document are all known ones.\<close>

theorem strict_graph_has_known_fields:
  assumes "ParseGraph_doc (JObj m) = Inr g" "\<not> gs_allow_unknown_fields g"
  shows "fst ` set m \<subseteq> {''kind'', ''schema_version'', ''$id'', ''allow_unknown_fields'', ''name'',
    ''description'', ''options'', ''nodes'', ''edges''}"
proof -
  obtain allow r where r: "parse_graph_fields allow (ObjectReader (JObj m) ''GraphSpec'' allow GE_STATUS_GRAPH_INVALID) = Inr (g, r)"
      "Reader_Finish r = Inr ()"
    using assms(1) by (auto simp: ParseGraph_doc_def bind_result_Inr read_object_Inr)
  have frame: "gs_allow_unknown_fields g' = gs_allow_unknown_fields g0"
    if "parse_nodes a i ns g0 = Inr g1" "parse_edges a j es g1 = Inr g'" for a i j ns es g0 g1 g'
  proof -
    have "gs_allow_unknown_fields g1 = gs_allow_unknown_fields g0" using that(1)
      by (induction a i ns g0 rule: parse_nodes.induct) (auto simp: bind_result_Inr AddNode_Inr)
    moreover have "gs_allow_unknown_fields g' = gs_allow_unknown_fields g1" using that(2)
      by (induction a j es g1 rule: parse_edges.induct) (auto simp: bind_result_Inr AddEdge_Inr)
    ultimately show ?thesis by simp
  qed
  have "or_seen r = {''kind'', ''schema_version'', ''$id'', ''allow_unknown_fields'', ''name'',
      ''description'', ''options'', ''nodes'', ''edges''} \<and> or_value r = JObj m \<and> or_allow_unknown r = allow \<and>
      gs_allow_unknown_fields g = allow"
    using r(1) by (auto simp: parse_graph_fields_def rbind_Inr ObjectReader_def split: if_splits
        dest!: parse_options_Inr dest: frame)
  then show ?thesis using Reader_Finish_Inr [OF r(2)] assms(2) by (metis as_object.simps(1))
qed

theorem strict_graph_has_known_fields_witness:
  "\<exists>m. Graph_ToJson sample_graph = JObj m \<and> ParseGraph_doc (JObj m) = Inr sample_graph \<and>
     fst ` set m \<subseteq> {''kind'', ''schema_version'', ''$id'', ''allow_unknown_fields'', ''name'',
       ''description'', ''options'', ''nodes'', ''edges''}"
proof -
  obtain m where m: "Graph_ToJson sample_graph = JObj m" by (simp add: Graph_ToJson_def json_members_def)
  then have "ParseGraph_doc (JObj m) = Inr sample_graph" using ParseGraph_doc_text [OF sample_graph_ok] by simp
  from strict_graph_has_known_fields [OF this] this m show ?thesis
    by (auto simp: sample_graph_def GraphSpec_new_def)
qed


definition sample_patch :: mutation_patch where
  "sample_patch = Mutation_RemoveBranches [''e1'', ''e2''] [''n''] (Some kFast)
     (Mutation_RemoveNode ''a'' None (Mutation_SetBaseVersion 3 MutationPatch_new))"


text \<open>A branch removal whose \<open>entry_edge\<close> is not the first of its \<open>entry_edges\<close> comes back changed.\<close>

lemma branch_patch_changed:
  "ParsePatch_doc (Patch_ToJson (MutationPatch_new\<lparr>mp_actions := [RemoveBranchAction ''x'' [''n''] None [''y'']]\<rparr>)) =
     Inr (MutationPatch_new\<lparr>mp_actions := [RemoveBranchAction ''y'' [''n''] None [''y'']]\<rparr>)"
  by code_simp

end
