(* ===== verification/Graph_Validator.thy ===== *)
theory Graph_Validator
  imports Negotiation Capability_Json Graph_Spec_Json
begin

section \<open>Graph validation\<close>

text \<open>
  \<open>GraphValidator\<close> (\<open>src/graph_validator.cpp\<close>): the checks on nodes, edges, ports and cycles, the
  negotiation of every used output, and the two static checks on selections and chains. The resolver of
  operators and the traversal order of the hash table of nodes are arguments. The correctness of the
  topological sort, what an accepted graph satisfies, and the effect of \<open>fail_fast\<close> follow.
\<close>

subsection \<open>Data\<close>

record validation_issue =
  vi_code :: status_code
  vi_message :: string
  vi_node_id :: string
  vi_edge_id :: string

fun status_number :: "status_code \<Rightarrow> int" where
  "status_number GE_STATUS_OK = 0"
| "status_number GE_STATUS_INVALID_ARGUMENT = 1"
| "status_number GE_STATUS_NOT_FOUND = 2"
| "status_number GE_STATUS_ALREADY_EXISTS = 3"
| "status_number GE_STATUS_VERSION_CONFLICT = 4"
| "status_number GE_STATUS_GRAPH_INVALID = 5"
| "status_number GE_STATUS_CAPABILITY_CONFLICT = 6"
| "status_number GE_STATUS_SHARED_DEPENDENCY = 7"
| "status_number GE_STATUS_RESOURCE_EXHAUSTED = 8"
| "status_number GE_STATUS_NODE_WARMUP_FAILED = 9"
| "status_number GE_STATUS_PARAMETER_UNSUPPORTED = 10"
| "status_number GE_STATUS_PARAMETER_APPLY_FAILED = 11"
| "status_number GE_STATUS_PLUGIN_ABI_MISMATCH = 12"
| "status_number GE_STATUS_PLUGIN_MANIFEST_INVALID = 13"
| "status_number GE_STATUS_PLUGIN_RETIRED = 14"
| "status_number GE_STATUS_PLUGIN_PHYSICAL_UNLOAD_UNSAFE = 15"
| "status_number GE_STATUS_WOULD_BLOCK = 16"
| "status_number GE_STATUS_CANCELLED = 17"
| "status_number GE_STATUS_INTERNAL = 18"

definition Issue_ToJson :: "validation_issue \<Rightarrow> json" where
  "Issue_ToJson i = json_members
     [Some (''code'', JInt (status_number (vi_code i))), Some (''message'', JStr (vi_message i)),
      if vi_node_id i \<noteq> [] then Some (''node'', JStr (vi_node_id i)) else None,
      if vi_edge_id i \<noteq> [] then Some (''edge'', JStr (vi_edge_id i)) else None]"

record shared_dependency =
  sd_node_id :: string
  sd_edge_id :: string
  sd_external_node :: string

definition SharedDependency_ToJson :: "shared_dependency \<Rightarrow> json" where
  "SharedDependency_ToJson d = json_members
     [Some (''node'', JStr (sd_node_id d)), Some (''edge'', JStr (sd_edge_id d)),
      Some (''external_node'', JStr (sd_external_node d))]"

record validated_graph =
  vg_edge_contracts :: "(string \<times> connection_contract) list"
  vg_output_contracts :: "(string \<times> connection_contract) list"
  vg_topological_order :: "string list"
  vg_sources :: "string list"
  vg_sinks :: "string list"

record validate_options =
  vo_preferences :: preference_set
  vo_fail_fast :: bool

type_synonym resolver = "operator_key \<Rightarrow> capability_descriptor option"

record node_info =
  ni_spec :: node_spec
  ni_cap :: "capability_descriptor option"
  ni_index :: nat

type_synonym node_table = "(string \<times> node_info) list"

definition IssuesToStatus :: "validation_issue list \<Rightarrow> status" where
  "IssuesToStatus issues =
     Status (vi_code (hd issues))
       (vi_message (hd issues) @
        (if length issues > 1 then '' (+'' @ nat_to_string (length issues - 1) @ '' more)'' else []))
       False (Some (json_members [Some (''issues'', JArr (map Issue_ToJson issues))]))"

text \<open>A loop of \<open>Validate\<close>: the body gives the new state, the issues it found and whether it reaches
  the \<open>stop()\<close> test; the last component of the result tells that the test returned.\<close>

fun vloop :: "bool \<Rightarrow> ('x \<Rightarrow> 's \<Rightarrow> 's \<times> validation_issue list \<times> bool) \<Rightarrow> 'x list \<Rightarrow> 's \<Rightarrow> validation_issue list \<Rightarrow>
    's \<times> validation_issue list \<times> bool" where
  "vloop ff f [] s is = (s, is, False)"
| "vloop ff f (x # xs) s is =
     (let (s', new, chk) = f x s; is' = is @ new in
      if chk \<and> ff \<and> is' \<noteq> [] then (s', is', True) else vloop ff f xs s' is')"

definition graph_issue :: "string \<Rightarrow> string \<Rightarrow> string \<Rightarrow> validation_issue" where
  "graph_issue m n e = \<lparr>vi_code = GE_STATUS_GRAPH_INVALID, vi_message = m, vi_node_id = n, vi_edge_id = e\<rparr>"

definition issue_if :: "bool \<Rightarrow> 'a \<Rightarrow> 'a list" where
  "issue_if c x = (if c then [x] else [])"

subsection \<open>Nodes\<close>

definition empty_graph_issues :: "graph_spec \<Rightarrow> validation_issue list" where
  "empty_graph_issues spec =
     issue_if (gs_nodes spec = []) (graph_issue (''graph '' @ quoted (gs_name spec) @ '' has no nodes'') [] [])"

definition exec_issues :: "node_spec \<Rightarrow> capability_descriptor \<Rightarrow> validation_issue list" where
  "exec_issues n cap =
     (let q = quoted (ns_id n); k = ex_kind (ns_executor n); ds = xc_devices (cd_execution cap);
          op = quoted (OperatorKey_ToString (ns_op n)) in
      issue_if (k = Executor_Gpu \<and> ds \<noteq> [] \<and> Device_Gpu \<notin> set ds)
        (graph_issue (''node '' @ q @ '' requests gpu executor but operator '' @ op @ '' does not support gpu'') (ns_id n) []) @
      issue_if (k = Executor_Cpu \<and> ds \<noteq> [] \<and> Device_Cpu \<notin> set ds)
        (graph_issue (''node '' @ q @ '' requests cpu executor but operator '' @ op @ '' does not support cpu'') (ns_id n) []) @
      issue_if (ns_parallelism n > xc_max_parallelism (cd_execution cap))
        (graph_issue (''node '' @ q @ '' parallelism '' @ nat_to_string (ns_parallelism n) @
           '' exceeds operator max_parallelism '' @ nat_to_string (xc_max_parallelism (cd_execution cap))) (ns_id n) []))"

definition check_node ::
  "resolver \<Rightarrow> nat \<times> node_spec \<Rightarrow> node_table \<Rightarrow> node_table \<times> validation_issue list \<times> bool" where
  "check_node resolver x nodes =
     (let (i, n) = x; q = quoted (ns_id n);
          bad_id = issue_if (\<not> IsValidStableId (ns_id n)) (graph_issue (''invalid node id '' @ q) (ns_id n) []) in
      if map_of nodes (ns_id n) \<noteq> None then
        (nodes, bad_id @ [graph_issue (''duplicate node id '' @ q) (ns_id n) []], False)
      else
        (nodes @ [(ns_id n, \<lparr>ni_spec = n, ni_cap = resolver (ns_op n), ni_index = i\<rparr>)],
         bad_id @
         (case resolver (ns_op n) of
            None \<Rightarrow> [\<lparr>vi_code = GE_STATUS_NOT_FOUND,
                      vi_message = ''node '' @ q @ '' uses unknown operator '' @ quoted (OperatorKey_ToString (ns_op n)),
                      vi_node_id = ns_id n, vi_edge_id = []\<rparr>]
          | Some cap \<Rightarrow> exec_issues n cap),
         True))"

subsection \<open>Edges\<close>

record output_use =
  ou_port :: port_capability
  ou_consumers :: "edge_spec list"

record edge_tables =
  et_ids :: "string list"
  et_outputs :: "(string \<times> output_use) list"
  et_inputs :: "(string \<times> edge_spec list) list"

definition node_cap :: "node_table \<Rightarrow> string \<Rightarrow> capability_descriptor option" where
  "node_cap nodes i = Option.bind (map_of nodes i) ni_cap"

definition out_port_of :: "node_table \<Rightarrow> edge_spec \<Rightarrow> port_capability option" where
  "out_port_of nodes e =
     Option.bind (node_cap nodes (pr_node_id (es_from e))) (\<lambda>c. FindOutput c (pr_port (es_from e)))"

definition in_port_of :: "node_table \<Rightarrow> edge_spec \<Rightarrow> port_capability option" where
  "in_port_of nodes e =
     Option.bind (node_cap nodes (pr_node_id (es_to e))) (\<lambda>c. FindInput c (pr_port (es_to e)))"

definition edge_issues :: "node_table \<Rightarrow> string list \<Rightarrow> edge_spec \<Rightarrow> validation_issue list" where
  "edge_issues nodes ids e =
     (let q = quoted (es_id e); f = pr_node_id (es_from e); t = pr_node_id (es_to e) in
      issue_if (es_id e = [] \<or> es_id e \<in> set ids) (graph_issue (''duplicate or empty edge id '' @ q) [] (es_id e)) @
      issue_if (map_of nodes f = None) (graph_issue (''edge '' @ q @ '' from unknown node '' @ quoted f) [] (es_id e)) @
      issue_if (map_of nodes t = None) (graph_issue (''edge '' @ q @ '' to unknown node '' @ quoted t) [] (es_id e)) @
      issue_if (f = t \<and> \<not> es_feedback e)
        (graph_issue (''edge '' @ q @ '' is a self-loop without feedback=true'') f (es_id e)) @
      issue_if (es_feedback e \<and> qs_policy (es_queue e) = kBlock)
        (graph_issue (''feedback edge '' @ q @ '' must use a non-blocking queue policy'') [] (es_id e)) @
      issue_if (node_cap nodes f \<noteq> None \<and> out_port_of nodes e = None)
        (graph_issue (''edge '' @ q @ '': node '' @ quoted f @ '' has no output port '' @ quoted (pr_port (es_from e)))
           f (es_id e)) @
      issue_if (node_cap nodes t \<noteq> None \<and> in_port_of nodes e = None)
        (graph_issue (''edge '' @ q @ '': node '' @ quoted t @ '' has no input port '' @ quoted (pr_port (es_to e)))
           t (es_id e)))"

definition use_output :: "port_capability option \<Rightarrow> edge_spec \<Rightarrow> (string \<times> output_use) list \<Rightarrow> (string \<times> output_use) list" where
  "use_output p e outs =
     (case p of
        None \<Rightarrow> outs
      | Some port \<Rightarrow>
          let key = PortRef_ToString (es_from e);
              old = (case map_of outs key of Some u \<Rightarrow> ou_consumers u | None \<Rightarrow> []) in
          om_put key \<lparr>ou_port = port, ou_consumers = old @ [e]\<rparr> outs)"

definition use_input :: "port_capability option \<Rightarrow> edge_spec \<Rightarrow> (string \<times> edge_spec list) list \<Rightarrow> (string \<times> edge_spec list) list" where
  "use_input p e ins =
     (case p of
        None \<Rightarrow> ins
      | Some _ \<Rightarrow>
          let key = PortRef_ToString (es_to e);
              old = (case map_of ins key of Some l \<Rightarrow> l | None \<Rightarrow> []) in
          om_put key (old @ [e]) ins)"

definition check_edge ::
  "node_table \<Rightarrow> edge_spec \<Rightarrow> edge_tables \<Rightarrow> edge_tables \<times> validation_issue list \<times> bool" where
  "check_edge nodes e t =
     (\<lparr>et_ids = (if es_id e = [] then et_ids t else es_id e # et_ids t), et_outputs = use_output (out_port_of nodes e) e (et_outputs t),
       et_inputs = use_input (in_port_of nodes e) e (et_inputs t)\<rparr>,
      edge_issues nodes (et_ids t) e, True)"

subsection \<open>Required inputs and cardinality\<close>

definition input_issues :: "edge_tables \<Rightarrow> string \<Rightarrow> port_capability \<Rightarrow> validation_issue list" where
  "input_issues t i p =
     (let key = i @ ''.'' @ pc_name p;
          count = (case map_of (et_inputs t) key of Some l \<Rightarrow> length l | None \<Rightarrow> 0) in
      issue_if (pc_required p \<and> count = 0)
        (graph_issue (''required input port '' @ quoted key @ '' is not connected'') i []) @
      issue_if (pc_cardinality p = kSingle \<and> count > 1)
        (graph_issue (''input port '' @ quoted key @ '' accepts a single edge but has '' @ nat_to_string count) i []))"

definition output_issues :: "edge_tables \<Rightarrow> string \<Rightarrow> port_capability \<Rightarrow> validation_issue list" where
  "output_issues t i p =
     (let key = i @ ''.'' @ pc_name p in
      case map_of (et_outputs t) key of
        None \<Rightarrow> []
      | Some u \<Rightarrow>
          issue_if (pc_cardinality p = kSingle \<and> length (ou_consumers u) > 1)
            (graph_issue (''output port '' @ quoted key @ '' allows a single consumer but has '' @
               nat_to_string (length (ou_consumers u))) i []))"

definition port_issues :: "edge_tables \<Rightarrow> string \<times> node_info \<Rightarrow> validation_issue list" where
  "port_issues t x =
     (case ni_cap (snd x) of
        None \<Rightarrow> []
      | Some cap \<Rightarrow> concat (map (input_issues t (fst x)) (cd_inputs cap)) @
                   concat (map (output_issues t (fst x)) (cd_outputs cap)))"

subsection \<open>Topological order\<close>

text \<open>The non-feedback edges between known nodes, as pairs of ids.\<close>

definition flow_edges :: "node_table \<Rightarrow> edge_spec list \<Rightarrow> (string \<times> string) list" where
  "flow_edges nodes es =
     map (\<lambda>e. (pr_node_id (es_from e), pr_node_id (es_to e)))
       (filter (\<lambda>e. \<not> (es_feedback e \<or> map_of nodes (pr_node_id (es_from e)) = None \<or>
                        map_of nodes (pr_node_id (es_to e)) = None)) es)"

definition adj_of :: "(string \<times> string) list \<Rightarrow> string \<Rightarrow> string list" where
  "adj_of E x = map snd (filter (\<lambda>p. fst p = x) E)"

definition indegree0 :: "(string \<times> string) list \<Rightarrow> string \<Rightarrow> nat" where
  "indegree0 E = fold (\<lambda>p d. d(snd p := d (snd p) + 1)) E (\<lambda>_. 0)"

record kahn_state =
  ks_ready :: "string list"
  ks_indegree :: "string \<Rightarrow> nat"
  ks_order :: "string list"

fun relax :: "string list \<Rightarrow> (string \<Rightarrow> nat) \<Rightarrow> string list \<Rightarrow> (string \<Rightarrow> nat) \<times> string list" where
  "relax [] d ready = (d, ready)"
| "relax (t # ts) d ready =
     (let d' = d(t := sub64 (d t) 1) in relax ts d' (if d' t = 0 then ready @ [t] else ready))"

definition kahn_step :: "(string \<Rightarrow> nat) \<Rightarrow> (string \<times> string) list \<Rightarrow> kahn_state \<Rightarrow> kahn_state" where
  "kahn_step index E s =
     (let i = arg_min_list index (ks_ready s);
          (d, ready) = relax (adj_of E i) (ks_indegree s) (remove1 i (ks_ready s)) in
      \<lparr>ks_ready = ready, ks_indegree = d, ks_order = ks_order s @ [i]\<rparr>)"

fun kahn :: "nat \<Rightarrow> (string \<Rightarrow> nat) \<Rightarrow> (string \<times> string) list \<Rightarrow> kahn_state \<Rightarrow> kahn_state" where
  "kahn 0 index E s = s"
| "kahn (Suc n) index E s = (if ks_ready s = [] then s else kahn n index E (kahn_step index E s))"

definition node_index :: "node_table \<Rightarrow> string \<Rightarrow> nat" where
  "node_index nodes i = (case map_of nodes i of Some x \<Rightarrow> ni_index x | None \<Rightarrow> 0)"

text \<open>The loop pops each node at most once when ids are distinct; twice the number of nodes bounds the
  pops also if the graph lists an id more than once.\<close>

definition kahn_run :: "node_table \<Rightarrow> graph_spec \<Rightarrow> kahn_state" where
  "kahn_run nodes spec =
     (let E = flow_edges nodes (gs_edges spec); d = indegree0 E in
      kahn (2 * length (gs_nodes spec)) (node_index nodes) E
        \<lparr>ks_ready = map ns_id (filter (\<lambda>n. d (ns_id n) = 0) (gs_nodes spec)), ks_indegree = d, ks_order = []\<rparr>)"

definition comma_list :: "string list \<Rightarrow> string" where
  "comma_list xs = fold (\<lambda>x l. l @ (if l = [] then [] else '','') @ x) xs []"

definition cycle_issues :: "graph_spec \<Rightarrow> kahn_state \<Rightarrow> validation_issue list" where
  "cycle_issues spec k =
     (if length (ks_order k) = length (gs_nodes spec) then []
      else
        let in_cycle = map ns_id (filter (\<lambda>n. ks_indegree k (ns_id n) \<noteq> 0) (gs_nodes spec)) in
        [graph_issue (''graph contains a cycle without feedback edges among ['' @ comma_list in_cycle @ '']'')
           (if in_cycle = [] then [] else hd in_cycle) []])"

definition graph_sources :: "graph_spec \<Rightarrow> string list" where
  "graph_sources spec = map ns_id (filter (\<lambda>n. \<not> list_ex (\<lambda>e. pr_node_id (es_to e) = ns_id n \<and> \<not> es_feedback e)
     (gs_edges spec)) (gs_nodes spec))"

definition graph_sinks :: "graph_spec \<Rightarrow> string list" where
  "graph_sinks spec = map ns_id (filter (\<lambda>n. \<not> list_ex (\<lambda>e. pr_node_id (es_from e) = ns_id n) (gs_edges spec)) (gs_nodes spec))"

subsection \<open>Contracts\<close>

record contract_tables =
  ct_edges :: "(string \<times> connection_contract) list"
  ct_outputs :: "(string \<times> connection_contract) list"
  ct_negotiator :: negotiator

definition consumer_of :: "fp_ops \<Rightarrow> node_table \<Rightarrow> edge_spec \<Rightarrow> fanout_consumer option" where
  "consumer_of fp nodes e =
     Option.bind (map_of nodes (pr_node_id (es_to e))) (\<lambda>dst.
     Option.bind (ni_cap dst) (\<lambda>cap.
     Option.bind (FindInput cap (pr_port (es_to e))) (\<lambda>p.
       Some \<lparr>fc_node_id = pr_node_id (es_to e), fc_op = ns_op (ni_spec dst),
             fc_capability = Descriptor_Version fp cap, fc_port = p, fc_edge_sync = es_sync e\<rparr>)))"

text \<open>The contract of one output; the initial value of \<open>contract\<close> is left where a lookup fails, which
  a graph without issues excludes.\<close>

definition negotiate_use ::
  "fp_ops \<Rightarrow> node_table \<Rightarrow> preference_set \<Rightarrow> output_use \<Rightarrow> negotiator \<Rightarrow> connection_contract result \<times> negotiator" where
  "negotiate_use fp nodes pref u ng =
     (let first = hd (ou_consumers u); unreachable = (Inl (Status_Internal ''unreachable''), ng) in
      case map_of nodes (pr_node_id (es_from first)) of
        None \<Rightarrow> unreachable
      | Some src \<Rightarrow>
          (case ni_cap src of
             None \<Rightarrow> unreachable
           | Some scap \<Rightarrow>
               if length (ou_consumers u) = 1 then
                 (case consumer_of fp nodes first of
                    None \<Rightarrow> unreachable
                  | Some c \<Rightarrow>
                      NegotiateEdge fp (ns_op (ni_spec src)) (Descriptor_Version fp scap) (ou_port u)
                        (fc_op c) (fc_capability c) (fc_port c) (es_sync first) pref ng)
               else
                 (case those (map (consumer_of fp nodes) (ou_consumers u)) of
                    None \<Rightarrow> unreachable
                  | Some cs \<Rightarrow> NegotiateFanout fp (Descriptor_Version fp scap) (ou_port u) cs pref None ng)))"

definition contract_issue ::
  "fp_ops \<Rightarrow> string \<Rightarrow> output_use \<Rightarrow> status \<Rightarrow> negotiator \<Rightarrow> validation_issue" where
  "contract_issue fp key u s ng =
     \<lparr>vi_code = st_code s,
      vi_message = ''output '' @ quoted key @ '' ['' @ comma_list (map es_id (ou_consumers u)) @ '']: '' @ st_message s @
        (case ng_last_conflict ng of
           Some c \<Rightarrow> '' conflict='' @ Serialize fp (Conflict_ToJson c) | None \<Rightarrow> []),
      vi_node_id = pr_node_id (es_from (hd (ou_consumers u))),
      vi_edge_id = (if length (ou_consumers u) = 1 then es_id (hd (ou_consumers u)) else [])\<rparr>"

definition check_use ::
  "fp_ops \<Rightarrow> node_table \<Rightarrow> preference_set \<Rightarrow> string \<times> output_use \<Rightarrow> contract_tables \<Rightarrow>
   contract_tables \<times> validation_issue list \<times> bool" where
  "check_use fp nodes pref x t =
     (let (key, u) = x; (r, ng) = negotiate_use fp nodes pref u (ct_negotiator t) in
      case r of
        Inl s \<Rightarrow> (t\<lparr>ct_negotiator := ng\<rparr>, [contract_issue fp key u s ng], True)
      | Inr c \<Rightarrow>
          (\<lparr>ct_edges = fold (\<lambda>e m. om_put (es_id e) c m) (ou_consumers u) (ct_edges t),
            ct_outputs = om_put key c (ct_outputs t), ct_negotiator = ng\<rparr>, [], False))"

subsection \<open>Validation\<close>

text \<open>\<open>order\<close> is the traversal order of the hash table of nodes. The result comes with the new
  \<open>issues_\<close> and the negotiator afterwards.\<close>

definition Validate ::
  "fp_ops \<Rightarrow> resolver \<Rightarrow> (node_table \<Rightarrow> node_table) \<Rightarrow> graph_spec \<Rightarrow> validate_options \<Rightarrow> negotiator \<Rightarrow>
   validated_graph result \<times> validation_issue list \<times> negotiator" where
  "Validate fp resolver order spec opts ng =
     (let ff = vo_fail_fast opts; stop = (\<lambda>is. ff \<and> is \<noteq> []);
          (nodes, is1, st1) = vloop ff (check_node resolver) (enumerate 0 (gs_nodes spec)) [] (empty_graph_issues spec) in
      if st1 then (Inl (IssuesToStatus is1), is1, ng)
      else
        let (t, is2, st2) = vloop ff (check_edge nodes) (gs_edges spec)
              \<lparr>et_ids = [], et_outputs = [], et_inputs = []\<rparr> is1 in
        if st2 then (Inl (IssuesToStatus is2), is2, ng)
        else
          let is3 = is2 @ concat (map (port_issues t) (order nodes)) in
          if stop is3 then (Inl (IssuesToStatus is3), is3, ng)
          else
            let k = kahn_run nodes spec; is4 = is3 @ cycle_issues spec k in
            if is4 \<noteq> [] then (Inl (IssuesToStatus is4), is4, ng)
            else
              let (ct, is5, _) = vloop ff (check_use fp nodes (vo_preferences opts)) (et_outputs t)
                    \<lparr>ct_edges = [], ct_outputs = [], ct_negotiator = ng\<rparr> [] in
              if is5 \<noteq> [] then (Inl (IssuesToStatus is5), is5, ct_negotiator ct)
              else
                (Inr \<lparr>vg_edge_contracts = ct_edges ct, vg_output_contracts = ct_outputs ct,
                      vg_topological_order = ks_order k, vg_sources = graph_sources spec,
                      vg_sinks = graph_sinks spec\<rparr>, [], ct_negotiator ct))"

subsection \<open>Selections and chains\<close>

definition FindSharedDependencies :: "graph_spec \<Rightarrow> string list \<Rightarrow> string list \<Rightarrow> shared_dependency list" where
  "FindSharedDependencies spec selection entries =
     concat (map (\<lambda>e.
       let f = pr_node_id (es_from e); t = pr_node_id (es_to e); from_in = (f \<in> set selection); to_in = (t \<in> set selection) in
       if es_id e \<in> set entries \<or> from_in = to_in then []
       else [\<lparr>sd_node_id = (if from_in then f else t), sd_edge_id = es_id e,
              sd_external_node = (if from_in then t else f)\<rparr>]) (gs_edges spec))"

definition FindSharedDependencies1 :: "graph_spec \<Rightarrow> string list \<Rightarrow> string \<Rightarrow> shared_dependency list" where
  "FindSharedDependencies1 spec selection entry_edge =
     FindSharedDependencies spec selection (if entry_edge = [] then [] else [entry_edge])"

record chain_boundary =
  cb_inbound :: string
  cb_outbound :: string

fun chain_members :: "graph_spec \<Rightarrow> string list \<Rightarrow> string list \<Rightarrow> unit result" where
  "chain_members spec seen [] = Inr ()"
| "chain_members spec seen (i # is) =
     (if FindNode spec i = None then Inl (Status_NotFound (''chain node '' @ quoted i @ '' not found''))
      else if i \<in> set seen then Inl (Status_GraphInvalid (''chain repeats node '' @ quoted i) None)
      else chain_members spec (i # seen) is)"

definition links :: "graph_spec \<Rightarrow> string \<Rightarrow> string \<Rightarrow> nat" where
  "links spec a b =
     length (filter (\<lambda>e. pr_node_id (es_from e) = a \<and> pr_node_id (es_to e) = b) (gs_edges spec))"

fun chain_links :: "graph_spec \<Rightarrow> string list \<Rightarrow> unit result" where
  "chain_links spec (a # b # is) =
     (if links spec a b \<noteq> 1 then
        Inl (Status_GraphInvalid (''chain nodes '' @ quoted a @ '' and '' @ quoted b @
          '' must be connected by exactly one edge, found '' @ nat_to_string (links spec a b)) None)
      else chain_links spec (b # is))"
| "chain_links spec _ = Inr ()"

definition position :: "string \<Rightarrow> string list \<Rightarrow> nat" where
  "position x xs = length (takeWhile (\<lambda>y. y \<noteq> x) xs)"

definition chain_edge ::
  "string list \<Rightarrow> edge_spec \<Rightarrow> chain_boundary \<times> json list \<Rightarrow> (chain_boundary \<times> json list) result" where
  "chain_edge chain e s =
     (let (b, shared) = s; f = pr_node_id (es_from e); t = pr_node_id (es_to e) in
      if f \<in> set chain \<and> t \<in> set chain then
        (if position t chain \<noteq> position f chain + 1 then
           Inl (Status_GraphInvalid (''edge '' @ quoted (es_id e) @ '' makes the chain non-linear'') None)
         else Inr (b, shared))
      else if t \<in> set chain then
        (if t = hd chain \<and> cb_inbound b = [] then Inr (b\<lparr>cb_inbound := es_id e\<rparr>, shared)
         else Inr (b, shared @ [SharedDependency_ToJson \<lparr>sd_node_id = t, sd_edge_id = es_id e, sd_external_node = f\<rparr>]))
      else if f \<in> set chain then
        (if f = last chain \<and> cb_outbound b = [] then Inr (b\<lparr>cb_outbound := es_id e\<rparr>, shared)
         else Inr (b, shared @ [SharedDependency_ToJson \<lparr>sd_node_id = f, sd_edge_id = es_id e, sd_external_node = t\<rparr>]))
      else Inr (b, shared))"

definition CheckLinearChain :: "graph_spec \<Rightarrow> string list \<Rightarrow> chain_boundary result" where
  "CheckLinearChain spec chain =
     (if chain = [] then Inl (Status_GraphInvalid ''chain is empty'' None)
      else
        bind_result (chain_members spec [] chain) (\<lambda>_.
        bind_result (chain_links spec chain) (\<lambda>_.
        bind_result (fold_result (chain_edge chain) (gs_edges spec) (\<lparr>cb_inbound = [], cb_outbound = []\<rparr>, [])) (\<lambda>(b, shared).
          if shared \<noteq> [] then
            Inl (Status_SharedDependency ''chain has external dependencies beyond one input and one output''
              (Some (json_members [Some (''dependencies'', JArr shared)])))
          else if cb_inbound b = [] \<or> cb_outbound b = [] then
            Inl (Status_GraphInvalid ''chain must have exactly one inbound and one outbound edge'' None)
          else Inr b))))"

subsection \<open>Correctness of the topological order\<close>

lemma indegree0_count: "indegree0 E y = length (filter (\<lambda>p. snd p = y) E)"
proof -
  have "fold (\<lambda>p d. d(snd p := d (snd p) + 1)) E d y = d y + length (filter (\<lambda>p. snd p = y) E)" for d
    by (induction E arbitrary: d) auto
  then show ?thesis by (simp add: indegree0_def)
qed

lemma count_adj_of: "count_list (adj_of E i) y = length (filter (\<lambda>p. snd p = y \<and> fst p = i) E)"
  by (induction E) (auto simp: adj_of_def)

lemma relax_spec:
  assumes "\<forall>y. count_list ts y \<le> d y" and "\<forall>y. d y < 2 ^ 64" and "relax ts d r = (d', r')"
  shows "(\<forall>y. d' y = d y - count_list ts y) \<and>
    (\<exists>new. r' = r @ new \<and> distinct new \<and> set new = {y \<in> set ts. d y = count_list ts y})"
  using assms
proof (induction ts arbitrary: d r)
  case (Cons t ts)
  let ?d = "d(t := d t - 1)" and ?r = "if d t - 1 = 0 then r @ [t] else r"
  have pos: "1 \<le> d t" using Cons.prems(1)[rule_format, of t] by simp
  have dt: "sub64 (d t) 1 = d t - 1" using pos Cons.prems(2) by (intro sub64_eq) auto
  have le: "\<forall>y. count_list ts y \<le> ?d y"
  proof
    fix y show "count_list ts y \<le> ?d y" using Cons.prems(1)[rule_format, of y] by auto
  qed
  have lt: "\<forall>y. ?d y < 2 ^ 64" using Cons.prems(2) by (auto simp: less_imp_diff_less)
  have "relax ts ?d ?r = (d', r')" using Cons.prems(3) by (simp only: relax.simps Let_def dt fun_upd_same)
  from Cons.IH[OF le lt this] obtain new where
    d: "\<forall>y. d' y = ?d y - count_list ts y" and
    new: "r' = ?r @ new" "distinct new" "set new = {y \<in> set ts. ?d y = count_list ts y}" by blast
  have "\<forall>y. d' y = d y - count_list (t # ts) y" using d by auto
  moreover have "\<exists>new. r' = r @ new \<and> distinct new \<and> set new = {y \<in> set (t # ts). d y = count_list (t # ts) y}"
  proof (cases "d t = 1")
    case True
    then have z: "count_list ts t = 0" using Cons.prems(1)[rule_format, of t] by simp
    then have t: "t \<notin> set ts" by (simp add: count_list_0_iff)
    have "set (t # new) = {y \<in> set (t # ts). d y = count_list (t # ts) y}"
      using t z True by (auto simp: new(3))
    moreover have "r' = r @ (t # new)" using new(1) True by simp
    moreover have "distinct (t # new)" using new(2,3) t by auto
    ultimately show ?thesis by blast
  next
    case False
    have "d t = count_list (t # ts) t \<longleftrightarrow> t \<in> set ts \<and> d t - 1 = count_list ts t"
      using pos False count_list_0_iff[of ts t] by auto
    then have "set new = {y \<in> set (t # ts). d y = count_list (t # ts) y}"
      unfolding new(3) by auto
    moreover have "r' = r @ new" using new(1) False pos by simp
    ultimately show ?thesis using new(2) by blast
  qed
  ultimately show ?case by blast
qed simp

definition before_ok :: "(string \<times> string) list \<Rightarrow> string list \<Rightarrow> bool" where
  "before_ok E order \<longleftrightarrow> (\<forall>ys y zs. order = ys @ y # zs \<longrightarrow> (\<forall>a. (a, y) \<in> set E \<longrightarrow> a \<in> set ys))"

definition kahn_inv :: "string list \<Rightarrow> (string \<times> string) list \<Rightarrow> kahn_state \<Rightarrow> bool" where
  "kahn_inv ids E s \<longleftrightarrow>
     distinct (ks_order s @ ks_ready s) \<and> set (ks_order s @ ks_ready s) \<subseteq> set ids \<and>
     (\<forall>y. ks_indegree s y = length (filter (\<lambda>p. snd p = y \<and> fst p \<notin> set (ks_order s)) E)) \<and>
     (\<forall>y \<in> set ids. y \<in> set (ks_order s @ ks_ready s) \<longleftrightarrow> ks_indegree s y = 0) \<and>
     before_ok E (ks_order s)"

lemma before_ok_snoc:
  assumes "before_ok E xs" and "\<forall>a. (a, x) \<in> set E \<longrightarrow> a \<in> set xs"
  shows "before_ok E (xs @ [x])"
  unfolding before_ok_def
proof (intro allI impI)
  fix ys y zs a assume eq: "xs @ [x] = ys @ y # zs" and a: "(a, y) \<in> set E"
  show "a \<in> set ys"
  proof (cases zs rule: rev_cases)
    case Nil then show ?thesis using eq a assms(2) by simp
  next
    case (snoc zs' z)
    then have "xs = ys @ y # zs'" using eq by simp
    then show ?thesis using assms(1) a unfolding before_ok_def by blast
  qed
qed

lemma arg_min_list_mem: "xs \<noteq> [] \<Longrightarrow> arg_min_list f xs \<in> set xs"
  by (rule arg_min_list_in)

lemma filter_split_len:
  assumes "i \<notin> D"
  shows "length (filter (\<lambda>p. snd p = y \<and> fst p \<notin> D) E) =
    length (filter (\<lambda>p. snd p = y \<and> fst p = i) E) + length (filter (\<lambda>p. snd p = y \<and> fst p \<notin> insert i D) E)"
  using assms by (induction E) auto

lemma kahn_step_inv:
  assumes I: "kahn_inv ids E s" and E: "length E < 2 ^ 64" "snd ` set E \<subseteq> set ids" and r: "ks_ready s \<noteq> []"
  shows "kahn_inv ids E (kahn_step index E s) \<and>
    length (ks_order (kahn_step index E s)) = Suc (length (ks_order s))"
proof -
  let ?i = "arg_min_list index (ks_ready s)" and ?d = "ks_indegree s" and ?O = "ks_order s"
  have i: "?i \<in> set (ks_ready s)" by (rule arg_min_list_in[OF r])
  note I' = I[unfolded kahn_inv_def]
  have dist: "distinct (?O @ ks_ready s)" and sub: "set (?O @ ks_ready s) \<subseteq> set ids"
    and deg: "\<forall>y. ?d y = length (filter (\<lambda>p. snd p = y \<and> fst p \<notin> set ?O) E)"
    and zero: "\<forall>y \<in> set ids. y \<in> set (?O @ ks_ready s) \<longleftrightarrow> ?d y = 0" and bef: "before_ok E ?O"
    using I' by blast+
  have iO: "?i \<notin> set ?O" using dist i by auto
  obtain d' r' where rel: "relax (adj_of E ?i) ?d (remove1 ?i (ks_ready s)) = (d', r')" by fastforce
  have split: "?d y = count_list (adj_of E ?i) y + length (filter (\<lambda>p. snd p = y \<and> fst p \<notin> insert ?i (set ?O)) E)" for y
    using filter_split_len[OF iO, of y E] deg by (simp add: count_adj_of)
  have "\<forall>y. count_list (adj_of E ?i) y \<le> ?d y" using split by simp
  moreover have "\<forall>y. ?d y < 2 ^ 64"
    using E(1) by (simp only: deg) (blast intro: le_less_trans length_filter_le)
  ultimately obtain new where d': "\<forall>y. d' y = ?d y - count_list (adj_of E ?i) y"
    and new: "r' = remove1 ?i (ks_ready s) @ new" "distinct new"
      "set new = {y \<in> set (adj_of E ?i). ?d y = count_list (adj_of E ?i) y}"
    using relax_spec[OF _ _ rel] by blast
  have step: "kahn_step index E s = \<lparr>ks_ready = r', ks_indegree = d', ks_order = ?O @ [?i]\<rparr>"
    by (simp add: kahn_step_def rel Let_def)
  have adj_ids: "set (adj_of E ?i) \<subseteq> set ids" using E(2) by (auto simp: adj_of_def)
  have new_pos: "?d y > 0" if "y \<in> set new" for y
    using that new(3) count_list_0_iff[of "adj_of E ?i" y] by auto
  have new_ids: "set new \<subseteq> set ids" using new(3) adj_ids by auto
  have new_out: "y \<notin> set (?O @ ks_ready s)" if "y \<in> set new" for y
    using bspec[OF zero, of y] new_ids new_pos[OF that] that by auto
  have deg': "\<forall>y. d' y = length (filter (\<lambda>p. snd p = y \<and> fst p \<notin> set (?O @ [?i])) E)"
    using d' split by simp
  have i_pred: "\<forall>a. (a, ?i) \<in> set E \<longrightarrow> a \<in> set ?O"
  proof -
    have "?d ?i = 0" using zero sub i by auto
    then show ?thesis using deg by (auto simp: filter_empty_conv)
  qed
  have dist': "distinct ((?O @ [?i]) @ r')"
    using dist i new(1,2) new_out by (auto simp: set_remove1_eq)
  have sub': "set ((?O @ [?i]) @ r') \<subseteq> set ids" using sub i new(1) new_ids by (auto dest: notin_set_remove1)
  have zero': "\<forall>y \<in> set ids. y \<in> set ((?O @ [?i]) @ r') \<longleftrightarrow> d' y = 0"
  proof
    fix y assume y: "y \<in> set ids"
    have mem: "y \<in> set ((?O @ [?i]) @ r') \<longleftrightarrow> y \<in> set (?O @ ks_ready s) \<or> y \<in> set new"
      using dist i new(1) by (auto simp: set_remove1_eq)
    show "y \<in> set ((?O @ [?i]) @ r') \<longleftrightarrow> d' y = 0"
    proof (cases "?d y = 0")
      case True then show ?thesis using mem zero y d' by auto
    next
      case False
      have "d' y = 0 \<longleftrightarrow> y \<in> set new"
        using False new(3) d' split[of y] by (auto simp: count_list_0_iff)
      then show ?thesis using mem zero y False by auto
    qed
  qed
  have "before_ok E (?O @ [?i])" using before_ok_snoc[OF bef i_pred] .
  then show ?thesis unfolding step kahn_inv_def using dist' sub' deg' zero' by simp
qed

lemma kahn_inv_length: "kahn_inv ids E s \<Longrightarrow> length (ks_order s @ ks_ready s) \<le> length ids"
  unfolding kahn_inv_def by (metis card_length card_mono distinct_card finite_set le_trans)

lemma kahn_inv_kahn:
  assumes "kahn_inv ids E s" and "length E < 2 ^ 64" "snd ` set E \<subseteq> set ids"
    and "length ids \<le> length (ks_order s) + n"
  shows "kahn_inv ids E (kahn n index E s) \<and> ks_ready (kahn n index E s) = []"
  using assms
proof (induction n arbitrary: s)
  case 0
  have "length (ks_ready s) = 0" using kahn_inv_length[OF 0(1)] 0(4) by (simp only: length_append)
  then show ?case using 0 by simp
next
  case (Suc n)
  show ?case
  proof (cases "ks_ready s = []")
    case True then show ?thesis using Suc.prems by simp
  next
    case False
    note st = kahn_step_inv[OF Suc.prems(1,2,3) False, of index]
    then show ?thesis using Suc.IH[of "kahn_step index E s"] Suc.prems False by simp
  qed
qed

lemma position_split: "y \<notin> set ys \<Longrightarrow> position y (ys @ y # zs) = length ys"
  unfolding position_def by (induction ys) auto

lemma position_less: "a \<in> set ys \<Longrightarrow> position a (ys @ zs) < length ys"
  unfolding position_def by (induction ys) auto

lemma before_ok_position:
  assumes "before_ok E order" and "y \<in> set order" and "(a, y) \<in> set E"
  shows "position a order < position y order"
proof -
  obtain ys zs where o: "order = ys @ y # zs" "y \<notin> set ys" using assms(2) by (meson split_list_first)
  then have "a \<in> set ys" using assms unfolding before_ok_def by blast
  then show ?thesis using o position_less position_split by metis
qed

lemma before_ok_acyclic:
  assumes "before_ok E order" and "snd ` set E \<subseteq> set order"
  shows "acyclic (set E)"
proof -
  have "set E \<subseteq> measure (\<lambda>x. position x order)"
    using before_ok_position[OF assms(1)] assms(2) by force
  then show ?thesis using wf_acyclic wf_measure wf_subset by metis
qed

lemma acyclic_order_complete:
  assumes "kahn_inv ids E s" and "ks_ready s = []" and "fst ` set E \<subseteq> set ids" and "acyclic (set E)"
  shows "set (ks_order s) = set ids"
proof (rule ccontr)
  assume "set (ks_order s) \<noteq> set ids"
  then obtain u where u: "u \<in> set ids - set (ks_order s)" using assms(1) unfolding kahn_inv_def by auto
  have "wf (set E)" using assms(4) by (simp add: finite_acyclic_wf)
  from wfE_min[OF this u] obtain z where z: "z \<in> set ids - set (ks_order s)"
    and min: "\<And>y. (y, z) \<in> set E \<Longrightarrow> y \<notin> set ids - set (ks_order s)"
    by blast
  have "ks_indegree s z \<noteq> 0" using z assms(1,2) unfolding kahn_inv_def by auto
  then have "filter (\<lambda>p. snd p = z \<and> fst p \<notin> set (ks_order s)) E \<noteq> []"
    using assms(1) unfolding kahn_inv_def by auto
  then obtain a where "(a, z) \<in> set E" "a \<notin> set (ks_order s)" by (auto simp: filter_empty_conv)
  then show False using min assms(3) by force
qed

text \<open>The loop over a graph: with distinct ids it ends with nothing ready, and it has listed every
  node exactly when the edges have no cycle.\<close>

lemma kahn_correct:
  fixes index :: "string \<Rightarrow> nat"
  assumes "distinct ids" and "length E < 2 ^ 64" and "set E \<subseteq> set ids \<times> set ids" and "length ids \<le> n"
  defines "k \<equiv> kahn n index E
    \<lparr>ks_ready = filter (\<lambda>i. indegree0 E i = 0) ids, ks_indegree = indegree0 E, ks_order = []\<rparr>"
  shows "ks_ready k = [] \<and> kahn_inv ids E k \<and> (length (ks_order k) = length ids \<longleftrightarrow> acyclic (set E))"
proof -
  let ?s = "\<lparr>ks_ready = filter (\<lambda>i. indegree0 E i = 0) ids, ks_indegree = indegree0 E, ks_order = []\<rparr>"
  have "kahn_inv ids E ?s"
    using assms(1) by (auto simp: kahn_inv_def indegree0_count before_ok_def)
  moreover have E: "snd ` set E \<subseteq> set ids" "fst ` set E \<subseteq> set ids" using assms(3) by auto
  ultimately have k: "kahn_inv ids E k" "ks_ready k = []"
    using kahn_inv_kahn[of ids E ?s n index] assms(2,4) by (simp_all add: k_def)
  have inv: "distinct (ks_order k)" "set (ks_order k) \<subseteq> set ids" "before_ok E (ks_order k)"
    using k(1) unfolding kahn_inv_def by auto
  have len: "length (ks_order k) = length ids \<longleftrightarrow> set (ks_order k) = set ids"
    using inv(1,2) assms(1) by (metis card_subset_eq distinct_card finite_set)
  have "acyclic (set E)" if "set (ks_order k) = set ids" using before_ok_acyclic inv(3) that E(1) by metis
  then show ?thesis using k len acyclic_order_complete[OF k E(2)] by blast
qed

subsection \<open>Loops without issues\<close>

lemma issue_if_Nil [simp]: "issue_if c x = [] \<longleftrightarrow> \<not> c"
  by (simp add: issue_if_def)

lemma vloop_extends: "vloop ff f xs s is = (s', is', st) \<Longrightarrow> \<exists>new. is' = is @ new"
  by (induction xs arbitrary: s "is") (fastforce simp: Let_def split: prod.splits if_splits)+

lemma vloop_not_stopped: "vloop ff f xs s is = (s', [], st) \<Longrightarrow> is = [] \<and> \<not> st"
  using vloop_extends[of ff f xs s "is" s' "[]" st]
  by (induction xs arbitrary: s "is") (fastforce simp: Let_def dest: vloop_extends split: prod.splits if_splits)+

lemma vloop_inv:
  assumes "vloop ff f xs s [] = (s', [], st)" and "P ys s"
    and "\<And>ys x s s1 c. P ys s \<Longrightarrow> x \<in> set xs \<Longrightarrow> f x s = (s1, [], c) \<Longrightarrow> P (ys @ [x]) s1"
  shows "P (ys @ xs) s'"
  using assms
proof (induction xs arbitrary: ys s)
  case (Cons x xs)
  obtain s1 new c where f: "f x s = (s1, new, c)" by (cases "f x s") auto
  have new: "new = []" "vloop ff f xs s1 [] = (s', [], st)"
    using Cons.prems(1) vloop_extends[of ff f xs s1 new s' "[]" st] by (auto simp: f Let_def split: if_splits)
  have "P (ys @ [x]) s1" using Cons.prems(2,3) f new(1) by (metis list.set_intros(1))
  then show ?case using Cons.IH[OF new(2), of "ys @ [x]"] Cons.prems(3) by simp
qed simp

text \<open>With \<open>fail_fast\<close> a loop either runs as without it or stops with the first of the issues.\<close>

lemma vloop_fail_fast:
  assumes "vloop True f xs s is = (s1, is1, st1)" and "vloop False f xs s is = (s2, is2, st2)"
  shows "\<not> st2 \<and> (if st1 then is1 \<noteq> [] \<and> (\<exists>more. is2 = is1 @ more) else s1 = s2 \<and> is1 = is2)"
  using assms
proof (induction xs arbitrary: s "is")
  case (Cons x xs)
  obtain s' new c where f: "f x s = (s', new, c)" by (cases "f x s") auto
  show ?case
  proof (cases "c \<and> is @ new \<noteq> []")
    case True
    then have "s1 = s'" "is1 = is @ new" "st1" "vloop False f xs s' (is @ new) = (s2, is2, st2)"
      using Cons.prems by (auto simp: f Let_def)
    moreover have "\<not> st2" using Cons.prems(2)
    proof -
      have "\<not> snd (snd (vloop False f ys s is))" for ys s "is"
        by (induction ys arbitrary: s "is") (auto simp: Let_def split: prod.splits)
      then show ?thesis using Cons.prems(2) by (metis snd_conv)
    qed
    ultimately show ?thesis using True vloop_extends[of False f xs s' "is @ new" s2 is2 st2] by auto
  next
    case False
    then show ?thesis using Cons.IH[of s' "is @ new"] Cons.prems by (auto simp: f Let_def split: if_splits)
  qed
qed simp

subsection \<open>What an accepted graph satisfies\<close>

definition table_of :: "resolver \<Rightarrow> nat \<Rightarrow> node_spec list \<Rightarrow> node_table" where
  "table_of R k ns = map (\<lambda>(i, n). (ns_id n, \<lparr>ni_spec = n, ni_cap = R (ns_op n), ni_index = i\<rparr>)) (enumerate k ns)"

definition node_good :: "resolver \<Rightarrow> node_spec \<Rightarrow> bool" where
  "node_good R n \<longleftrightarrow> IsValidStableId (ns_id n) \<and> (\<exists>cap. R (ns_op n) = Some cap \<and> exec_issues n cap = [])"

lemma check_node_clean:
  "check_node R (i, n) tab = (tab', [], c) \<Longrightarrow>
    tab' = tab @ [(ns_id n, \<lparr>ni_spec = n, ni_cap = R (ns_op n), ni_index = i\<rparr>)] \<and>
    ns_id n \<notin> fst ` set tab \<and> node_good R n"
  by (auto simp: check_node_def node_good_def Let_def map_of_eq_None_iff split: if_splits option.splits)

lemma node_loop:
  assumes "vloop ff (check_node R) (enumerate k ns) tab [] = (nodes, [], st)"
  shows "nodes = tab @ table_of R k ns \<and> distinct (map ns_id ns) \<and> (\<forall>n\<in>set ns. node_good R n \<and> ns_id n \<notin> fst ` set tab)"
  using assms
proof (induction ns arbitrary: k tab)
  case (Cons n ns)
  obtain t1 new c where f: "check_node R (k, n) tab = (t1, new, c)" by (cases "check_node R (k, n) tab") auto
  have new: "new = []" "vloop ff (check_node R) (enumerate (Suc k) ns) t1 [] = (nodes, [], st)"
    using Cons.prems vloop_extends[of ff _ _ t1 new nodes "[]" st] by (auto simp: f Let_def split: if_splits)
  from check_node_clean[OF f[unfolded new(1)]] Cons.IH[OF new(2)]
  show ?case by (auto simp: table_of_def)
qed (simp add: table_of_def)

lemma table_of_keys: "map fst (table_of R k ns) = map ns_id ns"
  by (induction ns arbitrary: k) (auto simp: table_of_def)

lemma table_of_Some:
  "map_of (table_of R k ns) i = Some x \<Longrightarrow> ni_spec x \<in> set ns \<and> ns_id (ni_spec x) = i \<and> ni_cap x = R (ns_op (ni_spec x))"
  by (drule map_of_SomeD) (auto simp: table_of_def in_set_enumerate_eq)

lemma table_of_None: "map_of (table_of R k ns) i = None \<longleftrightarrow> i \<notin> ns_id ` set ns"
  using table_of_keys[of R k ns] by (metis (no_types) image_set map_of_eq_None_iff list.set_map)

lemma table_of_node:
  assumes "distinct (map ns_id ns)" "n \<in> set ns"
  shows "\<exists>x. map_of (table_of R k ns) (ns_id n) = Some x \<and> ni_spec x = n \<and> ni_cap x = R (ns_op n)"
proof -
  obtain x where "map_of (table_of R k ns) (ns_id n) = Some x"
    using assms(2) table_of_None[of R k ns "ns_id n"] by blast
  moreover from table_of_Some[OF this] have "ni_spec x = n"
    using assms by (metis distinct_map inj_on_eq_iff)
  ultimately show ?thesis using table_of_Some[of R k ns "ns_id n" x] by auto
qed

definition edge_good :: "node_table \<Rightarrow> edge_spec \<Rightarrow> bool" where
  "edge_good nodes e \<longleftrightarrow> es_id e \<noteq> [] \<and> out_port_of nodes e \<noteq> None \<and> in_port_of nodes e \<noteq> None \<and>
     (pr_node_id (es_from e) = pr_node_id (es_to e) \<longrightarrow> es_feedback e) \<and>
     (es_feedback e \<longrightarrow> qs_policy (es_queue e) \<noteq> kBlock)"

definition edge_inv :: "node_table \<Rightarrow> edge_spec list \<Rightarrow> edge_tables \<Rightarrow> bool" where
  "edge_inv nodes ys t \<longleftrightarrow> set (et_ids t) = es_id ` set ys \<and> distinct (map es_id ys) \<and> (\<forall>e\<in>set ys. edge_good nodes e) \<and>
     om_wf (et_outputs t) \<and> om_wf (et_inputs t) \<and>
     (\<forall>key. case map_of (et_outputs t) key of
        None \<Rightarrow> filter (\<lambda>e. PortRef_ToString (es_from e) = key) ys = []
      | Some u \<Rightarrow> ou_consumers u = filter (\<lambda>e. PortRef_ToString (es_from e) = key) ys \<and> ou_consumers u \<noteq> [] \<and>
          out_port_of nodes (last (ou_consumers u)) = Some (ou_port u)) \<and>
     (\<forall>key. (case map_of (et_inputs t) key of None \<Rightarrow> [] | Some l \<Rightarrow> l) = filter (\<lambda>e. PortRef_ToString (es_to e) = key) ys)"

lemma edge_step:
  assumes "edge_inv nodes ys t" and "check_edge nodes e t = (t', [], c)" and "\<forall>x\<in>ran (map_of nodes). ni_cap x \<noteq> None"
  shows "edge_inv nodes (ys @ [e]) t'"
proof -
  have iss: "edge_issues nodes (et_ids t) e = []" using assms(2) by (simp add: check_edge_def)
  then have known: "map_of nodes (pr_node_id (es_from e)) \<noteq> None" "map_of nodes (pr_node_id (es_to e)) \<noteq> None"
    by (auto simp: edge_issues_def Let_def)
  then have caps: "node_cap nodes (pr_node_id (es_from e)) \<noteq> None" "node_cap nodes (pr_node_id (es_to e)) \<noteq> None"
    using assms(3) by (auto simp: node_cap_def ran_def)
  then have good: "edge_good nodes e" and id: "es_id e \<noteq> []" "es_id e \<notin> set (et_ids t)"
    using iss by (auto simp: edge_issues_def edge_good_def Let_def)
  then obtain op ip where p: "out_port_of nodes e = Some op" "in_port_of nodes e = Some ip"
    by (auto simp: edge_good_def)
  have t': "t' = \<lparr>et_ids = es_id e # et_ids t, et_outputs = use_output (Some op) e (et_outputs t),
      et_inputs = use_input (Some ip) e (et_inputs t)\<rparr>"
    using assms(2) id(1) p by (simp add: check_edge_def)
  note I = assms(1)[unfolded edge_inv_def]
  have wf: "om_wf (et_outputs t)" "om_wf (et_inputs t)" using I by blast+
  have outs: "case map_of (et_outputs t) key of
        None \<Rightarrow> filter (\<lambda>e. PortRef_ToString (es_from e) = key) ys = []
      | Some u \<Rightarrow> ou_consumers u = filter (\<lambda>e. PortRef_ToString (es_from e) = key) ys \<and> ou_consumers u \<noteq> [] \<and>
          out_port_of nodes (last (ou_consumers u)) = Some (ou_port u)" for key
    using I by blast
  have ins: "(case map_of (et_inputs t) key of None \<Rightarrow> [] | Some l \<Rightarrow> l) =
      filter (\<lambda>e. PortRef_ToString (es_to e) = key) ys" for key
    using I by blast
  have o: "case map_of (et_outputs t') key of
        None \<Rightarrow> filter (\<lambda>e. PortRef_ToString (es_from e) = key) (ys @ [e]) = []
      | Some u \<Rightarrow> ou_consumers u = filter (\<lambda>e. PortRef_ToString (es_from e) = key) (ys @ [e]) \<and> ou_consumers u \<noteq> [] \<and>
          out_port_of nodes (last (ou_consumers u)) = Some (ou_port u)" for key
  proof (cases "PortRef_ToString (es_from e) = key")
    case True
    have "(case map_of (et_outputs t) key of Some u \<Rightarrow> ou_consumers u | None \<Rightarrow> []) =
        filter (\<lambda>e. PortRef_ToString (es_from e) = key) ys"
      using outs[of key] by (cases "map_of (et_outputs t) key") simp_all
    then show ?thesis using True wf p by (simp add: t' use_output_def Let_def)
  next
    case False
    then show ?thesis using outs[of key] wf by (simp add: t' use_output_def Let_def cong: option.case_cong)
  qed
  have i: "(case map_of (et_inputs t') key of None \<Rightarrow> [] | Some l \<Rightarrow> l) =
      filter (\<lambda>e. PortRef_ToString (es_to e) = key) (ys @ [e])" for key
    using ins[of key] wf by (cases "map_of (et_inputs t) key") (auto simp: t' use_input_def Let_def)
  show ?thesis unfolding edge_inv_def
  proof (intro conjI allI)
    show "set (et_ids t') = es_id ` set (ys @ [e])" "distinct (map es_id (ys @ [e]))"
      "\<forall>e\<in>set (ys @ [e]). edge_good nodes e" using I id good by (auto simp: t')
    show "om_wf (et_outputs t')" "om_wf (et_inputs t')"
      using wf by (simp_all add: t' use_output_def use_input_def Let_def)
  qed (rule o, rule i)
qed

lemma edge_inv_users:
  assumes "edge_inv nodes es t"
  shows "(case map_of (et_inputs t) key of None \<Rightarrow> [] | Some l \<Rightarrow> l) = filter (\<lambda>e. PortRef_ToString (es_to e) = key) es"
    and "length (filter (\<lambda>e. PortRef_ToString (es_from e) = key) es) =
      (case map_of (et_outputs t) key of None \<Rightarrow> 0 | Some u \<Rightarrow> length (ou_consumers u))"
proof -
  note I = assms [unfolded edge_inv_def]
  show "(case map_of (et_inputs t) key of None \<Rightarrow> [] | Some l \<Rightarrow> l) = filter (\<lambda>e. PortRef_ToString (es_to e) = key) es"
    using I by blast
  have "case map_of (et_outputs t) key of None \<Rightarrow> filter (\<lambda>e. PortRef_ToString (es_from e) = key) es = []
      | Some u \<Rightarrow> ou_consumers u = filter (\<lambda>e. PortRef_ToString (es_from e) = key) es \<and> ou_consumers u \<noteq> [] \<and>
          out_port_of nodes (last (ou_consumers u)) = Some (ou_port u)"
    using I by blast
  then show "length (filter (\<lambda>e. PortRef_ToString (es_from e) = key) es) =
      (case map_of (et_outputs t) key of None \<Rightarrow> 0 | Some u \<Rightarrow> length (ou_consumers u))"
    by (simp split: option.splits)
qed

lemma edge_loop:
  assumes "vloop ff (check_edge nodes) es \<lparr>et_ids = [], et_outputs = [], et_inputs = []\<rparr> [] = (t, [], st)"
    and "\<forall>x\<in>ran (map_of nodes). ni_cap x \<noteq> None"
  shows "edge_inv nodes es t"
proof -
  have "edge_inv nodes ([] @ es) t"
    by (rule vloop_inv[OF assms(1)]) (simp add: edge_inv_def, rule edge_step[OF _ _ assms(2)])
  then show ?thesis by simp
qed

definition edge_out_port :: "resolver \<Rightarrow> graph_spec \<Rightarrow> edge_spec \<Rightarrow> port_capability option" where
  "edge_out_port R spec e = Option.bind (FindNode spec (pr_node_id (es_from e)))
     (\<lambda>n. Option.bind (R (ns_op n)) (\<lambda>c. FindOutput c (pr_port (es_from e))))"

definition edge_in_port :: "resolver \<Rightarrow> graph_spec \<Rightarrow> edge_spec \<Rightarrow> port_capability option" where
  "edge_in_port R spec e = Option.bind (FindNode spec (pr_node_id (es_to e)))
     (\<lambda>n. Option.bind (R (ns_op n)) (\<lambda>c. FindInput c (pr_port (es_to e))))"

lemma FindNode_table: "FindNode spec i = map_option ni_spec (map_of (table_of R k (gs_nodes spec)) i)"
proof -
  have "find_node i ns = map_option ni_spec (map_of (table_of R k ns) i)" for ns
    by (induction ns arbitrary: k) (auto simp: table_of_def)
  then show ?thesis by (simp add: FindNode_def)
qed

lemma node_cap_table: "node_cap (table_of R k (gs_nodes spec)) i = Option.bind (FindNode spec i) (\<lambda>n. R (ns_op n))"
  using table_of_Some[of R k "gs_nodes spec" i]
  by (auto simp: node_cap_def FindNode_table[of spec i R k] bind_eq_Some_conv split: Option.bind_splits)

lemma ports_of_table:
  "out_port_of (table_of R k (gs_nodes spec)) e = edge_out_port R spec e"
  "in_port_of (table_of R k (gs_nodes spec)) e = edge_in_port R spec e"
  by (auto simp: out_port_of_def in_port_of_def edge_out_port_def edge_in_port_def node_cap_table
      split: Option.bind_splits)

subsection \<open>Contracts under a sound cache\<close>

text \<open>What the cache of the negotiator holds was negotiated for the ports the resolver gives.\<close>

definition cache_ok :: "resolver \<Rightarrow> negotiator \<Rightarrow> bool" where
  "cache_ok R ng \<longleftrightarrow> (\<forall>k c sd td out inp. ng_cache ng k = Some c \<longrightarrow>
     R (nk_source_operator k) = Some sd \<longrightarrow> FindOutput sd (nk_source_port k) = Some out \<longrightarrow>
     R (nk_target_operator k) = Some td \<longrightarrow> FindInput td (nk_target_port k) = Some inp \<longrightarrow>
     port_accepts out c \<and> port_accepts inp c)"

lemma NegotiateEdge_cache:
  assumes ok: "cache_ok R ng"
    and R: "R sop = Some sd" "FindOutput sd (pc_name out) = Some out" "R tgt = Some td" "FindInput td (pc_name inp) = Some inp"
    and r: "NegotiateEdge fp sop scap out tgt tcap inp es pref ng = (r, ng')"
  shows "cache_ok R ng' \<and> (\<forall>c. r = Inr c \<longrightarrow> port_accepts out c \<and> port_accepts inp c)"
proof (cases "ng_cache ng (edge_key fp sop scap out tgt tcap inp es pref)")
  case (Some c)
  have "port_accepts out c \<and> port_accepts inp c"
    using ok[unfolded cache_ok_def, rule_format, OF Some] R by (simp add: edge_key_def Let_def)
  then show ?thesis using ok r Some by (auto simp: NegotiateEdge_def)
next
  case None
  obtain q conflict where q: "NegotiateUncached fp out [inp] es pref [] = (q, conflict)" by fastforce
  show ?thesis
  proof (cases q)
    case (Inl s)
    then show ?thesis using ok r None q by (auto simp: NegotiateEdge_def Let_def cache_ok_def)
  next
    case (Inr c0)
    let ?c = "c0\<lparr>cc_source_capability := scap, cc_target_capability := tcap\<rparr>"
    have same: "port_accepts p ?c \<longleftrightarrow> port_accepts p c0" for p by (simp add: port_accepts_def)
    have "port_accepts p c0" if "p = out \<or> p = inp" for p
      using NegotiateUncached_sound[of fp out "[inp]" es pref "[]" c0 p] q Inr that by auto
    then have fits: "port_accepts out ?c \<and> port_accepts inp ?c" using same by blast
    have "r = Inr ?c" "ng_cache ng' = (ng_cache ng)(edge_key fp sop scap out tgt tcap inp es pref \<mapsto> ?c)"
      using r None q Inr by (auto simp: NegotiateEdge_def Let_def)
    then show ?thesis using fits ok R by (auto simp: cache_ok_def edge_key_def Let_def)
  qed
qed

lemma NegotiateFanout_cache: "NegotiateFanout fp scap out cs pref existing ng = (r, ng') \<Longrightarrow> ng_cache ng' = ng_cache ng"
  by (auto simp: NegotiateFanout_def Let_def split: if_splits sum.splits option.splits prod.splits)

lemma find_port_name: "find_port n ps = Some p \<Longrightarrow> pc_name p = n"
  by (induction ps) (auto split: if_splits)

lemma those_map_Some: "those (map f xs) = Some ys \<Longrightarrow> x \<in> set xs \<Longrightarrow> \<exists>y\<in>set ys. f x = Some y"
  by (induction xs arbitrary: ys) (auto split: option.splits)

lemma consumer_of_Some:
  "consumer_of fp (table_of R k (gs_nodes spec)) e = Some c \<Longrightarrow>
   edge_in_port R spec e = Some (fc_port c) \<and> (\<exists>cap. R (fc_op c) = Some cap \<and> FindInput cap (pr_port (es_to e)) = Some (fc_port c)) \<and>
   pc_name (fc_port c) = pr_port (es_to e)"
  using table_of_Some[of R k "gs_nodes spec" "pr_node_id (es_to e)"]
  by (fastforce simp: consumer_of_def edge_in_port_def bind_eq_Some_conv FindNode_table[of spec _ R k] FindInput_def
      dest: find_port_name)

lemma negotiate_use_sound:
  assumes nodes: "nodes = table_of R 0 (gs_nodes spec)" and ok: "cache_ok R ng"
    and out: "\<forall>e\<in>set (ou_consumers u). edge_out_port R spec e = Some (ou_port u)" and ne: "ou_consumers u \<noteq> []"
    and r: "negotiate_use fp nodes pref u ng = (r, ng')"
  shows "cache_ok R ng' \<and> (\<forall>c. r = Inr c \<longrightarrow> port_accepts (ou_port u) c \<and>
    (\<forall>e\<in>set (ou_consumers u). \<exists>ip. edge_in_port R spec e = Some ip \<and> port_accepts ip c))"
proof -
  define first where "first = hd (ou_consumers u)"
  have f: "first \<in> set (ou_consumers u)" using ne by (simp add: first_def)
  obtain n scap where n: "FindNode spec (pr_node_id (es_from first)) = Some n" "R (ns_op n) = Some scap"
      "FindOutput scap (pr_port (es_from first)) = Some (ou_port u)"
    using out f by (fastforce simp: edge_out_port_def bind_eq_Some_conv)
  then obtain src where src: "map_of nodes (pr_node_id (es_from first)) = Some src" "ni_spec src = n"
    by (auto simp: FindNode_table[of spec _ R 0] nodes)
  have cap: "ni_cap src = Some scap" using table_of_Some src n(2) nodes by fastforce
  have name: "FindOutput scap (pc_name (ou_port u)) = Some (ou_port u)"
    using n(3) find_port_name by (metis FindOutput_def)
  show ?thesis
  proof (cases "length (ou_consumers u) = 1")
    case True
    then have one: "ou_consumers u = [first]" by (auto simp: first_def length_Suc_conv)
    show ?thesis
    proof (cases "consumer_of fp nodes first")
      case None
      then show ?thesis using r ok True src cap by (auto simp: negotiate_use_def Let_def first_def)
    next
      case (Some c)
      have "NegotiateEdge fp (ns_op n) (Descriptor_Version fp scap) (ou_port u) (fc_op c) (fc_capability c) (fc_port c)
          (es_sync first) pref ng = (r, ng')"
        using r True src cap Some by (simp add: negotiate_use_def Let_def first_def)
      moreover obtain tcap where t: "edge_in_port R spec first = Some (fc_port c)" "R (fc_op c) = Some tcap"
          "FindInput tcap (pc_name (fc_port c)) = Some (fc_port c)"
        using consumer_of_Some Some nodes by fastforce
      ultimately show ?thesis
        using NegotiateEdge_cache[OF ok n(2) name t(2,3)] one by auto
    qed
  next
    case False
    show ?thesis
    proof (cases "those (map (consumer_of fp nodes) (ou_consumers u))")
      case None
      then show ?thesis using r ok False src cap by (auto simp: negotiate_use_def Let_def first_def)
    next
      case (Some cs)
      have N: "NegotiateFanout fp (Descriptor_Version fp scap) (ou_port u) cs pref None ng = (r, ng')"
        using r False src cap Some by (simp add: negotiate_use_def Let_def first_def)
      have "cache_ok R ng'" using ok NegotiateFanout_cache[OF N] by (simp add: cache_ok_def)
      moreover have "port_accepts p c" if "r = Inr c" "p = ou_port u \<or> p \<in> fc_port ` set cs" for p c
        using NegotiateFanout_sound N that by blast
      moreover have "\<exists>ip. edge_in_port R spec e = Some ip \<and> ip \<in> fc_port ` set cs" if e: "e \<in> set (ou_consumers u)" for e
      proof -
        obtain c where "c \<in> set cs" "consumer_of fp nodes e = Some c"
          using those_map_Some[OF Some e] by blast
        then show ?thesis using consumer_of_Some nodes by blast
      qed
      ultimately show ?thesis by blast
    qed
  qed
qed

lemma fold_om_put_same:
  assumes "om_wf m"
  shows "om_wf (fold (\<lambda>e. om_put (f e) c) es m) \<and>
    map_of (fold (\<lambda>e. om_put (f e) c) es m) k = (if k \<in> f ` set es then Some c else map_of m k)"
  using assms by (induction es arbitrary: m) auto

definition use_ok :: "resolver \<Rightarrow> graph_spec \<Rightarrow> contract_tables \<Rightarrow> string \<Rightarrow> output_use \<Rightarrow> bool" where
  "use_ok R spec t key u \<longleftrightarrow> (\<exists>c. map_of (ct_outputs t) key = Some c \<and> port_accepts (ou_port u) c \<and>
     (\<forall>e\<in>set (ou_consumers u). map_of (ct_edges t) (es_id e) = Some c \<and>
        (\<exists>ip. edge_in_port R spec e = Some ip \<and> port_accepts ip c)))"

lemma use_loop:
  assumes loop: "vloop ff (check_use fp nodes pref) outs \<lparr>ct_edges = [], ct_outputs = [], ct_negotiator = ng\<rparr> [] = (t, [], st)"
    and nodes: "nodes = table_of R 0 (gs_nodes spec)" and ok: "cache_ok R ng"
    and out: "\<forall>(key, u)\<in>set outs. ou_consumers u \<noteq> [] \<and> (\<forall>e\<in>set (ou_consumers u). edge_out_port R spec e = Some (ou_port u))"
    and sep: "\<forall>(key, u)\<in>set outs. \<forall>(key', u')\<in>set outs. (key, u) = (key', u') \<or>
      key \<noteq> key' \<and> es_id ` set (ou_consumers u) \<inter> es_id ` set (ou_consumers u') = {}"
  shows "\<forall>(key, u)\<in>set outs. use_ok R spec t key u"
proof -
  define P where "P ys t \<longleftrightarrow> set ys \<subseteq> set outs \<and> cache_ok R (ct_negotiator t) \<and> om_wf (ct_edges t) \<and> om_wf (ct_outputs t) \<and>
    (\<forall>(key, u)\<in>set ys. use_ok R spec t key u)" for ys t
  have "P ([] @ outs) t"
  proof (rule vloop_inv[OF loop])
    show "P [] \<lparr>ct_edges = [], ct_outputs = [], ct_negotiator = ng\<rparr>" using ok by (simp add: P_def)
  next
    fix ys x s s1 c assume P: "P ys s" and x: "x \<in> set outs" and step: "check_use fp nodes pref x s = (s1, [], c)"
    obtain key u where xu: "x = (key, u)" by fastforce
    obtain r ng' where r: "negotiate_use fp nodes pref u (ct_negotiator s) = (r, ng')" by fastforce
    then obtain cc where cc: "r = Inr cc" and s1: "s1 = \<lparr>ct_edges = fold (\<lambda>e. om_put (es_id e) cc) (ou_consumers u) (ct_edges s),
        ct_outputs = om_put key cc (ct_outputs s), ct_negotiator = ng'\<rparr>"
      using step by (auto simp: check_use_def xu Let_def split: sum.splits)
    have wf: "om_wf (ct_edges s)" "om_wf (ct_outputs s)" and sub: "set ys \<subseteq> set outs" and cok: "cache_ok R (ct_negotiator s)"
      using P by (simp_all add: P_def)
    have sound: "cache_ok R ng'" "port_accepts (ou_port u) cc"
        "\<forall>e\<in>set (ou_consumers u). \<exists>ip. edge_in_port R spec e = Some ip \<and> port_accepts ip cc"
      using negotiate_use_sound[OF nodes cok _ _ r] bspec[OF out x] cc by (auto simp: xu)
    note m = fold_om_put_same[OF wf(1), of es_id cc "ou_consumers u"]
    have new: "use_ok R spec s1 key u" unfolding use_ok_def using sound wf m by (simp add: s1)
    have "use_ok R spec s1 key' u'" if y: "(key', u') \<in> set ys" for key' u'
    proof (cases "(key', u') = (key, u)")
      case True then show ?thesis using new by simp
    next
      case False
      then have "key' \<noteq> key \<and> es_id ` set (ou_consumers u') \<inter> es_id ` set (ou_consumers u) = {}"
        using sep subsetD[OF sub y] x unfolding xu by blast
      moreover have "use_ok R spec s key' u'" using P y by (auto simp: P_def)
      ultimately show ?thesis unfolding use_ok_def using wf m by (fastforce simp: s1)
    qed
    then show "P (ys @ [x]) s1" using new sub x sound wf m by (auto simp: P_def xu s1)
  qed
  then show ?thesis by (simp add: P_def)
qed

subsection \<open>Accepted graphs\<close>

lemma Validate_Inr:
  assumes "Validate fp R order spec opts ng = (Inr vg, is, ng')"
  obtains t ct st where "distinct (map ns_id (gs_nodes spec))" "\<forall>n\<in>set (gs_nodes spec). node_good R n"
    "edge_inv (table_of R 0 (gs_nodes spec)) (gs_edges spec) t"
    "\<forall>x\<in>set (order (table_of R 0 (gs_nodes spec))). port_issues t x = []"
    "cycle_issues spec (kahn_run (table_of R 0 (gs_nodes spec)) spec) = []"
    "vloop (vo_fail_fast opts) (check_use fp (table_of R 0 (gs_nodes spec)) (vo_preferences opts)) (et_outputs t)
       \<lparr>ct_edges = [], ct_outputs = [], ct_negotiator = ng\<rparr> [] = (ct, [], st)"
    "vg = \<lparr>vg_edge_contracts = ct_edges ct, vg_output_contracts = ct_outputs ct,
       vg_topological_order = ks_order (kahn_run (table_of R 0 (gs_nodes spec)) spec),
       vg_sources = graph_sources spec, vg_sinks = graph_sinks spec\<rparr>"
proof -
  let ?is0 = "empty_graph_issues spec"
  obtain nodes is1 st1 where l1: "vloop (vo_fail_fast opts) (check_node R) (enumerate 0 (gs_nodes spec)) [] ?is0 = (nodes, is1, st1)"
    by (metis prod_cases3)
  obtain t is2 st2 where l2: "vloop (vo_fail_fast opts) (check_edge nodes) (gs_edges spec)
      \<lparr>et_ids = [], et_outputs = [], et_inputs = []\<rparr> is1 = (t, is2, st2)" by (metis prod_cases3)
  obtain ct is5 st5 where l5: "vloop (vo_fail_fast opts) (check_use fp nodes (vo_preferences opts)) (et_outputs t)
      \<lparr>ct_edges = [], ct_outputs = [], ct_negotiator = ng\<rparr> [] = (ct, is5, st5)" by (metis prod_cases3)
  have all: "is2 = []" "concat (map (port_issues t) (order nodes)) = []" "cycle_issues spec (kahn_run nodes spec) = []" "is5 = []"
    and vg: "vg = \<lparr>vg_edge_contracts = ct_edges ct, vg_output_contracts = ct_outputs ct,
       vg_topological_order = ks_order (kahn_run nodes spec), vg_sources = graph_sources spec, vg_sinks = graph_sinks spec\<rparr>"
    using assms by (auto simp: Validate_def l1 l2 l5 Let_def split: if_splits)
  have is1: "is1 = []" using vloop_not_stopped[OF l2[unfolded all(1)]] by simp
  have "?is0 = []" using vloop_not_stopped[OF l1[unfolded is1]] by simp
  then have n: "nodes = table_of R 0 (gs_nodes spec)" "distinct (map ns_id (gs_nodes spec))"
      "\<forall>n\<in>set (gs_nodes spec). node_good R n"
    using node_loop[of "vo_fail_fast opts" R 0 "gs_nodes spec" "[]" nodes st1] l1 is1 by auto
  have caps: "\<forall>x\<in>ran (map_of nodes). ni_cap x \<noteq> None"
    using n(3) table_of_Some by (fastforce simp: ran_def n(1) node_good_def)
  have "edge_inv nodes (gs_edges spec) t" by (rule edge_loop[OF l2[unfolded is1 all(1)] caps])
  then show thesis using all(2) by (intro that[OF n(2,3) _ _ all(3)[unfolded n(1)] l5[unfolded all(4) n(1)] vg[unfolded n(1)]]) (auto simp: n(1))
qed

text \<open>Ports are keyed by \<open>node.port\<close>, which names one port when no node id contains a dot.\<close>

definition dotless :: "graph_spec \<Rightarrow> bool" where
  "dotless spec \<longleftrightarrow> (\<forall>n\<in>set (gs_nodes spec). CHR ''.'' \<notin> set (ns_id n))"

lemma dot_text_inj:
  "CHR ''.'' \<notin> set a \<Longrightarrow> CHR ''.'' \<notin> set a' \<Longrightarrow> a @ CHR ''.'' # b = a' @ CHR ''.'' # b' \<longleftrightarrow> a = a' \<and> b = b'"
proof (induction a arbitrary: a')
  case Nil then show ?case by (cases a') auto
next
  case (Cons x a) then show ?case by (cases a') auto
qed

lemma ToString_inj:
  "CHR ''.'' \<notin> set (pr_node_id r) \<Longrightarrow> CHR ''.'' \<notin> set (pr_node_id r') \<Longrightarrow>
   PortRef_ToString r = PortRef_ToString r' \<longleftrightarrow> r = r'"
  using dot_text_inj[of "pr_node_id r" "pr_node_id r'" "pr_port r" "pr_port r'"] by (auto simp: PortRef_ToString_def)

lemma FindNode_known: "FindNode g i = Some n \<Longrightarrow> i \<in> node_ids g"
  by (metis FindNode_None option.distinct(1))

lemma edge_good_known:
  assumes "edge_good (table_of R 0 (gs_nodes spec)) e"
  shows "pr_node_id (es_from e) \<in> node_ids spec \<and> pr_node_id (es_to e) \<in> node_ids spec"
  using assms by (auto simp: edge_good_def ports_of_table edge_out_port_def edge_in_port_def bind_eq_Some_conv
      dest: FindNode_known)

lemma dotless_ids: "dotless spec \<Longrightarrow> i \<in> node_ids spec \<Longrightarrow> CHR ''.'' \<notin> set i"
  by (auto simp: dotless_def node_ids_def)

lemma edge_inv_outputs:
  assumes I: "edge_inv (table_of R 0 (gs_nodes spec)) (gs_edges spec) t" and d: "dotless spec"
  shows "\<forall>(key, u)\<in>set (et_outputs t). ou_consumers u \<noteq> [] \<and>
      (\<forall>e\<in>set (ou_consumers u). edge_out_port R spec e = Some (ou_port u))" (is ?A)
    and "\<forall>(key, u)\<in>set (et_outputs t). \<forall>(key', u')\<in>set (et_outputs t). (key, u) = (key', u') \<or>
      key \<noteq> key' \<and> es_id ` set (ou_consumers u) \<inter> es_id ` set (ou_consumers u') = {}" (is ?B)
    and "e \<in> set (gs_edges spec) \<Longrightarrow> \<exists>u. (PortRef_ToString (es_from e), u) \<in> set (et_outputs t) \<and> e \<in> set (ou_consumers u)"
proof -
  let ?nodes = "table_of R 0 (gs_nodes spec)"
  have wf: "om_wf (et_outputs t)" and dist: "distinct (map es_id (gs_edges spec))"
    and good: "\<forall>e\<in>set (gs_edges spec). edge_good ?nodes e" using I unfolding edge_inv_def by blast+
  have outs: "case map_of (et_outputs t) key of
        None \<Rightarrow> filter (\<lambda>e. PortRef_ToString (es_from e) = key) (gs_edges spec) = []
      | Some u \<Rightarrow> ou_consumers u = filter (\<lambda>e. PortRef_ToString (es_from e) = key) (gs_edges spec) \<and> ou_consumers u \<noteq> [] \<and>
          out_port_of ?nodes (last (ou_consumers u)) = Some (ou_port u)" for key
    using I unfolding edge_inv_def by blast
  have u: "ou_consumers u = filter (\<lambda>e. PortRef_ToString (es_from e) = key) (gs_edges spec) \<and> ou_consumers u \<noteq> [] \<and>
      edge_out_port R spec (last (ou_consumers u)) = Some (ou_port u)" if "(key, u) \<in> set (et_outputs t)" for key u
    using outs[of key] om_wf_map_of_iff[OF wf, of key u] that by (auto simp: ports_of_table)
  have nodot: "CHR ''.'' \<notin> set (pr_node_id (es_from e))" if "e \<in> set (gs_edges spec)" for e
    using edge_good_known good dotless_ids[OF d] that by blast
  show ?A
  proof (clarify, intro conjI ballI)
    fix key u assume ku: "(key, u) \<in> set (et_outputs t)"
    note u = u[OF ku]
    then show "ou_consumers u \<noteq> []" by blast
    fix e assume e: "e \<in> set (ou_consumers u)"
    let ?l = "last (ou_consumers u)"
    have l: "?l \<in> set (ou_consumers u)" using u last_in_set by blast
    have key: "x \<in> set (ou_consumers u) \<longleftrightarrow> x \<in> set (gs_edges spec) \<and> PortRef_ToString (es_from x) = key" for x
      using u by simp
    have "es_from e = es_from ?l"
      using e l key nodot ToString_inj by metis
    then have "edge_out_port R spec e = edge_out_port R spec ?l" by (simp only: edge_out_port_def)
    then show "edge_out_port R spec e = Some (ou_port u)" using u by metis
  qed
  have B: "es_id ` set (ou_consumers u) \<inter> es_id ` set (ou_consumers u') = {}"
    if k: "(key, u) \<in> set (et_outputs t)" "(key', u') \<in> set (et_outputs t)" "key \<noteq> key'" for key u key' u'
  proof (rule equals0I)
    fix i assume "i \<in> es_id ` set (ou_consumers u) \<inter> es_id ` set (ou_consumers u')"
    then obtain e e' where e: "e \<in> set (ou_consumers u)" "e' \<in> set (ou_consumers u')" "es_id e = es_id e'" by auto
    then have m: "e \<in> set (gs_edges spec)" "PortRef_ToString (es_from e) = key"
        "e' \<in> set (gs_edges spec)" "PortRef_ToString (es_from e') = key'"
      using u[OF k(1)] u[OF k(2)] by auto
    then have "e = e'" using dist e(3) by (metis distinct_map inj_on_eq_iff)
    then show False using m k(3) by simp
  qed
  have "u = u'" if "(key, u) \<in> set (et_outputs t)" "(key, u') \<in> set (et_outputs t)" for key u u'
    using that om_wf_map_of_iff[OF wf] by (metis option.inject)
  then show ?B using B by blast
  show "\<exists>u. (PortRef_ToString (es_from e), u) \<in> set (et_outputs t) \<and> e \<in> set (ou_consumers u)" if e: "e \<in> set (gs_edges spec)"
  proof (cases "map_of (et_outputs t) (PortRef_ToString (es_from e))")
    case None
    then show ?thesis using outs[of "PortRef_ToString (es_from e)"] e by (auto simp: filter_empty_conv)
  next
    case (Some u)
    then have m: "(PortRef_ToString (es_from e), u) \<in> set (et_outputs t)" using om_wf_map_of_iff[OF wf] by blast
    then have "e \<in> set (ou_consumers u)" using u[OF m] e by simp
    then show ?thesis using m by blast
  qed
qed

lemma Validate_contracts:
  assumes V: "Validate fp R order spec opts ng = (Inr vg, is, ng')" and "cache_ok R ng" "dotless spec"
    and e: "e \<in> set (gs_edges spec)"
  shows "\<exists>c out inp. map_of (vg_edge_contracts vg) (es_id e) = Some c \<and>
    map_of (vg_output_contracts vg) (PortRef_ToString (es_from e)) = Some c \<and>
    edge_out_port R spec e = Some out \<and> port_accepts out c \<and> edge_in_port R spec e = Some inp \<and> port_accepts inp c"
proof -
  from V obtain t ct st where I: "edge_inv (table_of R 0 (gs_nodes spec)) (gs_edges spec) t"
    and loop: "vloop (vo_fail_fast opts) (check_use fp (table_of R 0 (gs_nodes spec)) (vo_preferences opts)) (et_outputs t)
       \<lparr>ct_edges = [], ct_outputs = [], ct_negotiator = ng\<rparr> [] = (ct, [], st)"
    and vg: "vg_edge_contracts vg = ct_edges ct" "vg_output_contracts vg = ct_outputs ct"
    by (elim Validate_Inr) auto
  note o = edge_inv_outputs[OF I assms(3)]
  obtain u where u: "(PortRef_ToString (es_from e), u) \<in> set (et_outputs t)" "e \<in> set (ou_consumers u)" using o(3)[OF e] by blast
  have "use_ok R spec ct (PortRef_ToString (es_from e)) u"
    using use_loop[OF loop refl assms(2) o(1,2)] u(1) by blast
  moreover have "edge_out_port R spec e = Some (ou_port u)" using o(1) u by blast
  ultimately show ?thesis using u(2) vg unfolding use_ok_def by auto
qed

subsection \<open>The order of an accepted graph\<close>

definition flow_relation :: "graph_spec \<Rightarrow> (string \<times> string) set" where
  "flow_relation spec =
     (\<lambda>e. (pr_node_id (es_from e), pr_node_id (es_to e))) ` {e \<in> set (gs_edges spec). \<not> es_feedback e}"

lemma flow_relationI:
  "e \<in> set (gs_edges spec) \<Longrightarrow> \<not> es_feedback e \<Longrightarrow> pr_node_id (es_from e) = a \<Longrightarrow> pr_node_id (es_to e) = b \<Longrightarrow>
     (a, b) \<in> flow_relation spec"
  by (auto simp: flow_relation_def)

lemma kahn_run_correct:
  assumes "distinct (map ns_id (gs_nodes spec))" and "length (gs_edges spec) < 2 ^ 64"
    and "dom (map_of nodes) = node_ids spec"
    and "\<forall>e\<in>set (gs_edges spec). pr_node_id (es_from e) \<in> node_ids spec \<and> pr_node_id (es_to e) \<in> node_ids spec"
  defines "k \<equiv> kahn_run nodes spec"
  shows "ks_ready k = [] \<and> (cycle_issues spec k = [] \<longleftrightarrow> acyclic (flow_relation spec)) \<and>
    distinct (ks_order k) \<and> set (ks_order k) \<subseteq> node_ids spec \<and>
    (\<forall>(a, b)\<in>flow_relation spec. b \<in> set (ks_order k) \<longrightarrow> position a (ks_order k) < position b (ks_order k))"
proof -
  let ?ids = "map ns_id (gs_nodes spec)" and ?E = "flow_edges nodes (gs_edges spec)"
  have none: "map_of nodes i \<noteq> None" if "i \<in> node_ids spec" for i using assms(3) that by blast
  have flow: "set ?E = flow_relation spec"
    using assms(4) none by (fastforce simp: flow_edges_def flow_relation_def)
  have len: "length ?E < 2 ^ 64"
    using assms(2) unfolding flow_edges_def length_map by (rule le_less_trans[OF length_filter_le])
  have sub: "set ?E \<subseteq> set ?ids \<times> set ?ids" unfolding flow using assms(4) by (auto simp: flow_relation_def node_ids_def)
  have k: "k = kahn (2 * length (gs_nodes spec)) (node_index nodes) ?E
    \<lparr>ks_ready = filter (\<lambda>i. indegree0 ?E i = 0) ?ids, ks_indegree = indegree0 ?E, ks_order = []\<rparr>"
    by (simp add: k_def kahn_run_def Let_def filter_map o_def)
  have K: "ks_ready k = []" "kahn_inv ?ids ?E k" "length (ks_order k) = length ?ids \<longleftrightarrow> acyclic (set ?E)"
    using kahn_correct[OF assms(1) len sub, of "2 * length (gs_nodes spec)" "node_index nodes"] unfolding k by simp_all
  then have inv: "distinct (ks_order k)" "set (ks_order k) \<subseteq> set ?ids" "before_ok ?E (ks_order k)"
    unfolding kahn_inv_def by auto
  show ?thesis
    using K inv before_ok_position[OF inv(3)] by (auto simp: cycle_issues_def Let_def flow node_ids_def)
qed

definition stage :: "port_capability list \<Rightarrow> port_capability list \<Rightarrow> capability_descriptor" where
  "stage ins outs = sample_descriptor\<lparr>cd_inputs := ins, cd_outputs := outs, cd_execution := default_execution\<rparr>"

definition sample_resolver :: resolver where
  "sample_resolver op = (if ok_type_name op = ''Src'' then Some (stage [] [plain_port ''out'' kOutput])
     else if ok_type_name op = ''Sink'' then Some (stage [plain_port ''in'' kInput] []) else None)"

definition sample_edge :: edge_spec where
  "sample_edge = \<lparr>es_id = ''e'', es_from = \<lparr>pr_node_id = ''a'', pr_port = ''out''\<rparr>,
     es_to = \<lparr>pr_node_id = ''b'', pr_port = ''in''\<rparr>, es_queue = sample_queue, es_sync = Some kLatest, es_feedback = False\<rparr>"

definition sample_flow :: graph_spec where
  "sample_flow = (GraphSpec_new ''g'')\<lparr>gs_nodes :=
     [(sample_node ''b'')\<lparr>ns_op := \<lparr>ok_type_name = ''Sink'', ok_semantic_version = ''1''\<rparr>\<rparr>,
      (sample_node ''a'')\<lparr>ns_op := \<lparr>ok_type_name = ''Src'', ok_semantic_version = ''1''\<rparr>\<rparr>],
     gs_edges := [sample_edge]\<rparr>"

definition sample_options :: validate_options where
  "sample_options = \<lparr>vo_preferences = no_preference, vo_fail_fast = False\<rparr>"


definition sample_tables :: edge_tables where
  "sample_tables = \<lparr>et_ids = [''e''], et_outputs = [(''a.out'', \<lparr>ou_port = plain_port ''out'' kOutput, ou_consumers = [sample_edge]\<rparr>)],
     et_inputs = [(''b.in'', [sample_edge])]\<rparr>"

lemma sample_steps:
  "vloop False (check_node sample_resolver) (enumerate 0 (gs_nodes sample_flow)) [] (empty_graph_issues sample_flow) =
     (table_of sample_resolver 0 (gs_nodes sample_flow), [], False)"
  "vloop False (check_edge (table_of sample_resolver 0 (gs_nodes sample_flow))) (gs_edges sample_flow)
     \<lparr>et_ids = [], et_outputs = [], et_inputs = []\<rparr> [] = (sample_tables, [], False)"
  "concat (map (port_issues sample_tables) (rev (table_of sample_resolver 0 (gs_nodes sample_flow)))) = []"
  by code_simp+

lemma sample_order:
  "ks_order (kahn_run (table_of sample_resolver 0 (gs_nodes sample_flow)) sample_flow) = [''a'', ''b'']"
proof -
  have four: "kahn 4 i E s = kahn (Suc (Suc (Suc (Suc 0)))) i E s" for i E s by (simp add: eval_nat_numeral)
  show ?thesis
    by (simp add: kahn_run_def sample_flow_def sample_edge_def GraphSpec_new_def sample_node_def table_of_def flow_edges_def
        indegree0_def kahn_step_def adj_of_def node_index_def Let_def four)
qed

lemma sample_uncached:
  "\<exists>c. NegotiateUncached no_fp (plain_port ''out'' kOutput) [plain_port ''in'' kInput] (Some kLatest) no_preference [] = (Inr c, None)"
proof -
  have "(case NegotiateUncached no_fp (plain_port ''out'' kOutput) [plain_port ''in'' kInput] (Some kLatest) no_preference [] of
      (r, f) \<Rightarrow> \<not> isl r \<and> f = None)" by code_simp
  then show ?thesis by (auto split: prod.splits) (metis isl_def old.sum.exhaust)
qed

lemma sample_flow_valid:
  "\<exists>vg ng'. Validate no_fp sample_resolver rev sample_flow sample_options new_negotiator = (Inr vg, [], ng') \<and>
     vg_topological_order vg = [''a'', ''b''] \<and> map fst (vg_edge_contracts vg) = [''e'']"
proof -
  let ?nodes = "table_of sample_resolver 0 (gs_nodes sample_flow)"
  let ?u = "\<lparr>ou_port = plain_port ''out'' kOutput, ou_consumers = [sample_edge]\<rparr>"
  obtain c0 where c0: "NegotiateUncached no_fp (plain_port ''out'' kOutput) [plain_port ''in'' kInput] (Some kLatest) no_preference [] = (Inr c0, None)"
    using sample_uncached by blast
  have cyc: "cycle_issues sample_flow (kahn_run ?nodes sample_flow) = []"
    by (simp add: cycle_issues_def sample_order) (simp add: sample_flow_def)
  have "\<exists>c ng'. negotiate_use no_fp ?nodes no_preference ?u new_negotiator = (Inr c, ng')"
    using c0 by (simp add: negotiate_use_def consumer_of_def NegotiateEdge_def Let_def new_negotiator_def sample_flow_def sample_edge_def
      GraphSpec_new_def sample_node_def table_of_def sample_resolver_def stage_def FindInput_def plain_port_def sample_descriptor_def)
  then obtain c ng' where u: "negotiate_use no_fp ?nodes no_preference ?u new_negotiator = (Inr c, ng')" by blast
  show ?thesis
    by (simp add: Validate_def sample_options_def sample_steps cyc Let_def sample_order)
      (simp add: sample_tables_def check_use_def u sample_edge_def[symmetric] Let_def, simp add: sample_edge_def sample_order)
qed



lemma sample_flow_dotless: "dotless sample_flow" "cache_ok R new_negotiator"
  by (simp_all add: dotless_def sample_flow_def sample_node_def cache_ok_def new_negotiator_def)


text \<open>C15. The topological order of an accepted graph lists every node exactly once, and every edge that is
  not a feedback edge goes from an earlier node to a later one.\<close>

theorem validated_order_topological:
  assumes "Validate fp R order spec opts ng = (Inr vg, is, ng')" and "length (gs_edges spec) < 2 ^ 64"
  shows "distinct (vg_topological_order vg) \<and> set (vg_topological_order vg) = node_ids spec \<and>
    (\<forall>(a, b)\<in>flow_relation spec. position a (vg_topological_order vg) < position b (vg_topological_order vg))"
proof -
  let ?nodes = "table_of R 0 (gs_nodes spec)"
  from assms(1) obtain t where d: "distinct (map ns_id (gs_nodes spec))" and I: "edge_inv ?nodes (gs_edges spec) t"
    and c: "cycle_issues spec (kahn_run ?nodes spec) = []" and o: "vg_topological_order vg = ks_order (kahn_run ?nodes spec)"
    by (elim Validate_Inr) auto
  have ends: "\<forall>e\<in>set (gs_edges spec). pr_node_id (es_from e) \<in> node_ids spec \<and> pr_node_id (es_to e) \<in> node_ids spec"
    using I edge_good_known unfolding edge_inv_def by blast
  have dom: "dom (map_of ?nodes) = node_ids spec"
    using table_of_None[of R 0 "gs_nodes spec"] by (auto simp: node_ids_def dom_def)
  note k = kahn_run_correct[OF d assms(2) dom ends]
  have len: "length (ks_order (kahn_run ?nodes spec)) = length (gs_nodes spec)"
    using c by (simp add: cycle_issues_def Let_def split: if_splits)
  have "card (set (ks_order (kahn_run ?nodes spec))) = card (node_ids spec)"
    using k len d by (metis distinct_card length_map node_ids_def set_map)
  then have all: "set (ks_order (kahn_run ?nodes spec)) = node_ids spec"
    using k by (simp add: card_subset_eq node_ids_def)
  have "b \<in> node_ids spec" if "(a, b) \<in> flow_relation spec" for a b using that ends by (auto simp: flow_relation_def)
  then show ?thesis using k all by (auto simp: o)
qed

theorem validated_order_topological_witness:
  "\<exists>vg ng'. Validate no_fp sample_resolver rev sample_flow sample_options new_negotiator = (Inr vg, [], ng') \<and>
     set (vg_topological_order vg) = {''a'', ''b''} \<and>
     position ''a'' (vg_topological_order vg) < position ''b'' (vg_topological_order vg)"
proof -
  obtain vg ng' where V: "Validate no_fp sample_resolver rev sample_flow sample_options new_negotiator = (Inr vg, [], ng')"
    using sample_flow_valid by blast
  have "length (gs_edges sample_flow) < 2 ^ 64" by (simp add: sample_flow_def)
  from validated_order_topological [OF V this] V show ?thesis
    by (auto simp: sample_flow_def sample_node_def node_ids_def flow_relation_def sample_edge_def)
qed

text \<open>C5. The cycle check is exact: for a graph with distinct node ids and known endpoints the sort ends with
  nothing left to visit, and it reports a cycle exactly when the edges that are not feedback edges have one.\<close>

theorem cycle_check_exact:
  assumes "distinct (map ns_id (gs_nodes spec))" and "length (gs_edges spec) < 2 ^ 64"
    and "dom (map_of nodes) = node_ids spec"
    and "\<forall>e\<in>set (gs_edges spec). pr_node_id (es_from e) \<in> node_ids spec \<and> pr_node_id (es_to e) \<in> node_ids spec"
  shows "ks_ready (kahn_run nodes spec) = [] \<and>
    (cycle_issues spec (kahn_run nodes spec) = [] \<longleftrightarrow> acyclic (flow_relation spec))"
  using kahn_run_correct[OF assms] by blast

theorem cycle_check_exact_witness:
  "acyclic (flow_relation sample_flow) \<and>
   cycle_issues (sample_flow\<lparr>gs_edges := [sample_edge, sample_edge\<lparr>es_from := es_to sample_edge, es_to := es_from sample_edge\<rparr>]\<rparr>)
     (kahn_run (table_of sample_resolver 0 (gs_nodes sample_flow))
       (sample_flow\<lparr>gs_edges := [sample_edge, sample_edge\<lparr>es_from := es_to sample_edge, es_to := es_from sample_edge\<rparr>]\<rparr>)) \<noteq> []"
proof -
  let ?loop_edge = "sample_edge\<lparr>es_from := es_to sample_edge, es_to := es_from sample_edge\<rparr>"
  let ?spec = "sample_flow\<lparr>gs_edges := [sample_edge, ?loop_edge]\<rparr>"
  let ?nodes = "table_of sample_resolver 0 (gs_nodes sample_flow)"
  have ids: "node_ids sample_flow = {''a'', ''b''}" "node_ids ?spec = {''a'', ''b''}"
    by (auto simp: node_ids_def sample_flow_def sample_node_def)
  have dom: "dom (map_of ?nodes) = {''a'', ''b''}"
    using table_of_None[of sample_resolver 0 "gs_nodes sample_flow"] ids(1) by (auto simp: node_ids_def dom_def)
  have "cycle_issues sample_flow (kahn_run ?nodes sample_flow) = []"
    by (simp add: cycle_issues_def sample_order) (simp add: sample_flow_def)
  then have ok: "acyclic (flow_relation sample_flow)"
    using cycle_check_exact [of sample_flow ?nodes] dom ids(1) by (simp add: sample_flow_def sample_node_def sample_edge_def)
  have there: "(''a'', ''b'') \<in> flow_relation ?spec"
    by (rule flow_relationI [of sample_edge]) (simp_all add: sample_edge_def)
  have again: "(''b'', ''a'') \<in> flow_relation ?spec"
    by (rule flow_relationI [of ?loop_edge]) (simp_all add: sample_edge_def)
  have "(''a'', ''a'') \<in> (flow_relation ?spec)\<^sup>+" by (rule trancl_into_trancl2 [OF there r_into_trancl [OF again]])
  then have "\<not> acyclic (flow_relation ?spec)" unfolding acyclic_def by blast
  then have "cycle_issues ?spec (kahn_run ?nodes ?spec) \<noteq> []"
    using cycle_check_exact [of ?spec ?nodes] dom ids(2) by (simp add: sample_flow_def sample_node_def sample_edge_def)
  then show ?thesis using ok by blast
qed


lemma IssuesToStatus_code [simp]: "st_code (IssuesToStatus is) = vi_code (hd is)"
  by (simp add: IssuesToStatus_def Status_def)

text \<open>C13. \<open>fail_fast\<close> only shortens the report: with it, validation stops with a non-empty first part of the
  issues it finds without it, so the verdict and the status code are the same, and an accepted graph gets the same
  contracts and order.\<close>

theorem fail_fast_same_verdict:
  assumes "Validate fp R order spec \<lparr>vo_preferences = p, vo_fail_fast = True\<rparr> ng = (r1, is1, ng1)"
    and "Validate fp R order spec \<lparr>vo_preferences = p, vo_fail_fast = False\<rparr> ng = (r2, is2, ng2)"
  shows "(\<exists>more. is2 = is1 @ more) \<and> (is1 = [] \<longleftrightarrow> is2 = []) \<and>
    (case (r1, r2) of (Inl s1, Inl s2) \<Rightarrow> st_code s1 = st_code s2 \<and> is1 \<noteq> [] | (Inr v1, Inr v2) \<Rightarrow> v1 = v2 \<and> ng1 = ng2 | _ \<Rightarrow> False)"
proof -
  obtain n1 a1 s1 where l1: "vloop True (check_node R) (enumerate 0 (gs_nodes spec)) [] (empty_graph_issues spec) = (n1, a1, s1)"
    by (metis prod_cases3)
  obtain n2 a2 s2 where l2: "vloop False (check_node R) (enumerate 0 (gs_nodes spec)) [] (empty_graph_issues spec) = (n2, a2, s2)"
    by (metis prod_cases3)
  note N = vloop_fail_fast[OF l1 l2]
  obtain t1 b1 u1 where m1: "vloop True (check_edge n2) (gs_edges spec) \<lparr>et_ids = [], et_outputs = [], et_inputs = []\<rparr> a2 = (t1, b1, u1)"
    by (metis prod_cases3)
  obtain t2 b2 u2 where m2: "vloop False (check_edge n2) (gs_edges spec) \<lparr>et_ids = [], et_outputs = [], et_inputs = []\<rparr> a2 = (t2, b2, u2)"
    by (metis prod_cases3)
  note E = vloop_fail_fast[OF m1 m2]
  obtain c1 d1 v1 where k1: "vloop True (check_use fp n2 p) (et_outputs t2) \<lparr>ct_edges = [], ct_outputs = [], ct_negotiator = ng\<rparr> [] = (c1, d1, v1)"
    by (metis prod_cases3)
  obtain c2 d2 v2 where k2: "vloop False (check_use fp n2 p) (et_outputs t2) \<lparr>ct_edges = [], ct_outputs = [], ct_negotiator = ng\<rparr> [] = (c2, d2, v2)"
    by (metis prod_cases3)
  note U = vloop_fail_fast[OF k1 k2]
  obtain more where more: "b2 = a2 @ more" using vloop_extends[OF m2] by blast
  define X where "X = b2 @ concat (map (port_issues t2) (order n2))"
  define C where "C = cycle_issues spec (kahn_run n2 spec)"
  define vg where "vg c = \<lparr>vg_edge_contracts = ct_edges c, vg_output_contracts = ct_outputs c,
     vg_topological_order = ks_order (kahn_run n2 spec), vg_sources = graph_sources spec, vg_sinks = graph_sinks spec\<rparr>" for c :: contract_tables
  have full: "(r2, is2, ng2) = (if X @ C \<noteq> [] then (Inl (IssuesToStatus (X @ C)), X @ C, ng)
      else if d2 \<noteq> [] then (Inl (IssuesToStatus d2), d2, ct_negotiator c2) else (Inr (vg c2), [], ct_negotiator c2))"
    unfolding assms(2)[symmetric] X_def C_def vg_def using N E by (simp add: Validate_def l2 m2 k2 Let_def)
  show ?thesis
  proof (cases "s1 \<or> u1")
    case True
    then obtain rest where "r1 = Inl (IssuesToStatus is1)" "is1 \<noteq> []" "b2 = is1 @ rest"
      using assms(1) N E more by (auto simp: Validate_def l1 m1 Let_def split: if_splits)
    then show ?thesis using full by (simp add: X_def)
  next
    case False
    then have eq: "n1 = n2" "a1 = a2" "t1 = t2" "b1 = b2" using N E by auto
    have "(r1, is1, ng1) = (if X \<noteq> [] then (Inl (IssuesToStatus X), X, ng) else if X @ C \<noteq> [] then (Inl (IssuesToStatus (X @ C)), X @ C, ng)
      else if d1 \<noteq> [] then (Inl (IssuesToStatus d1), d1, ct_negotiator c1) else (Inr (vg c1), [], ct_negotiator c1))"
      unfolding assms(1)[symmetric] X_def C_def vg_def using False l1 m1 k1 unfolding eq by (simp add: Validate_def Let_def)
    then show ?thesis using full U by (cases v1) (auto split: if_splits)
  qed
qed

theorem fail_fast_same_verdict_witness:
  "\<exists>r1 is1 ng1 r2 is2 ng2 more.
     Validate no_fp (\<lambda>_. None) id sample_flow \<lparr>vo_preferences = no_preference, vo_fail_fast = True\<rparr> new_negotiator = (r1, is1, ng1) \<and>
     Validate no_fp (\<lambda>_. None) id sample_flow \<lparr>vo_preferences = no_preference, vo_fail_fast = False\<rparr> new_negotiator = (r2, is2, ng2) \<and>
     is2 = is1 @ more"
proof -
  obtain r1 is1 ng1 where 1: "Validate no_fp (\<lambda>_. None) id sample_flow \<lparr>vo_preferences = no_preference, vo_fail_fast = True\<rparr>
      new_negotiator = (r1, is1, ng1)" by (metis prod_cases3)
  obtain r2 is2 ng2 where 2: "Validate no_fp (\<lambda>_. None) id sample_flow \<lparr>vo_preferences = no_preference, vo_fail_fast = False\<rparr>
      new_negotiator = (r2, is2, ng2)" by (metis prod_cases3)
  show ?thesis using fail_fast_same_verdict [OF 1 2] 1 2 by blast
qed

lemma port_text_filter:
  assumes "CHR ''.'' \<notin> set nid" "\<forall>e\<in>set es. CHR ''.'' \<notin> set (pr_node_id (f e))"
  shows "filter (\<lambda>e. PortRef_ToString (f e) = nid @ ''.'' @ q) es = filter (\<lambda>e. f e = \<lparr>pr_node_id = nid, pr_port = q\<rparr>) es"
proof (rule filter_cong)
  fix e assume "e \<in> set es"
  then have d: "CHR ''.'' \<notin> set (pr_node_id (f e))" using assms(2) by blast
  show "PortRef_ToString (f e) = nid @ ''.'' @ q \<longleftrightarrow> f e = \<lparr>pr_node_id = nid, pr_port = q\<rparr>"
    using dot_text_inj [OF d assms(1), of "pr_port (f e)" q] by (cases "f e") (simp add: PortRef_ToString_def)
qed simp



subsection \<open>Selections and chains\<close>

lemma FindSharedDependencies_Nil:
  "FindSharedDependencies spec sel entries = [] \<longleftrightarrow>
   (\<forall>e\<in>set (gs_edges spec). es_id e \<in> set entries \<or>
      (pr_node_id (es_from e) \<in> set sel \<longleftrightarrow> pr_node_id (es_to e) \<in> set sel))"
  by (auto simp: FindSharedDependencies_def Let_def)

lemma chain_members_Inr:
  "chain_members spec seen chain = Inr () \<longleftrightarrow> set chain \<subseteq> node_ids spec \<and> distinct chain \<and> set seen \<inter> set chain = {}"
  by (induction chain arbitrary: seen) auto

definition chain_edge_ok :: "string list \<Rightarrow> chain_boundary \<Rightarrow> edge_spec \<Rightarrow> bool" where
  "chain_edge_ok chain b e \<longleftrightarrow>
     (let f = pr_node_id (es_from e); t = pr_node_id (es_to e) in
      if f \<in> set chain \<and> t \<in> set chain then position t chain = position f chain + 1
      else if t \<in> set chain then t = hd chain \<and> es_id e = cb_inbound b
      else f \<in> set chain \<longrightarrow> f = last chain \<and> es_id e = cb_outbound b)"

definition boundary_from :: "string list \<Rightarrow> edge_spec list \<Rightarrow> chain_boundary \<Rightarrow> bool" where
  "boundary_from chain ys b \<longleftrightarrow>
     (cb_inbound b = [] \<or> (\<exists>e\<in>set ys. es_id e = cb_inbound b \<and> pr_node_id (es_from e) \<notin> set chain \<and> pr_node_id (es_to e) = hd chain)) \<and>
     (cb_outbound b = [] \<or> (\<exists>e\<in>set ys. es_id e = cb_outbound b \<and> pr_node_id (es_to e) \<notin> set chain \<and> pr_node_id (es_from e) = last chain))"

lemma chain_edge_ok_mono:
  "chain_edge_ok chain b0 x \<Longrightarrow> es_id x \<noteq> [] \<Longrightarrow> cb_inbound b0 \<in> {[], cb_inbound b1} \<Longrightarrow> cb_outbound b0 \<in> {[], cb_outbound b1} \<Longrightarrow>
   chain_edge_ok chain b1 x"
  by (auto simp: chain_edge_ok_def Let_def split: if_splits)

lemma chain_edge_step:
  "chain_edge chain e (b0, sh) = Inr (b1, []) \<Longrightarrow>
   sh = [] \<and> chain_edge_ok chain b1 e \<and> cb_inbound b0 \<in> {[], cb_inbound b1} \<and> cb_outbound b0 \<in> {[], cb_outbound b1} \<and>
   (boundary_from chain ys b0 \<longrightarrow> boundary_from chain (ys @ [e]) b1)"
  by (auto simp: chain_edge_def chain_edge_ok_def boundary_from_def Let_def split: if_splits)

lemma chain_edges_Inr:
  assumes "fold_result (chain_edge chain) es (b0, sh) = Inr (b, [])" and "\<forall>e\<in>set (ys @ es). es_id e \<noteq> []"
    and "\<forall>e\<in>set ys. chain_edge_ok chain b0 e" and "boundary_from chain ys b0"
  shows "sh = [] \<and> (\<forall>e\<in>set (ys @ es). chain_edge_ok chain b e) \<and> boundary_from chain (ys @ es) b"
  using assms
proof (induction es arbitrary: b0 sh ys)
  case (Cons e es)
  obtain b1 sh1 where st: "chain_edge chain e (b0, sh) = Inr (b1, sh1)" "fold_result (chain_edge chain) es (b1, sh1) = Inr (b, [])"
    using Cons.prems(1) by (auto simp: bind_result_Inr)
  have "sh1 = []"
  proof -
    have "fold_result (chain_edge chain) xs (b0, sh) = Inr (b, []) \<Longrightarrow> sh = []" for b0 sh xs
      by (induction xs arbitrary: b0 sh) (auto simp: bind_result_Inr dest: chain_edge_step)
    then show ?thesis using st(2) .
  qed
  note e = chain_edge_step[OF st(1)[unfolded this], of ys]
  have "\<forall>x\<in>set (ys @ [e]). chain_edge_ok chain b1 x"
    using e Cons.prems(2,3) chain_edge_ok_mono[of chain b0 _ b1] by auto
  then show ?case using Cons.IH[OF st(2), of "ys @ [e]"] Cons.prems(2,4) e by simp
qed simp


definition sample_chain :: graph_spec where
  "sample_chain = (GraphSpec_new ''g'')\<lparr>gs_nodes := [sample_node ''a'', sample_node ''b'', sample_node ''c''],
     gs_edges := [sample_edge, sample_edge\<lparr>es_id := ''f'', es_from := \<lparr>pr_node_id = ''b'', pr_port = ''out''\<rparr>,
       es_to := \<lparr>pr_node_id = ''c'', pr_port = ''in''\<rparr>\<rparr>]\<rparr>"

lemma sample_chain_wf: "gs_wf sample_chain"
proof -
  have "IsValidStableId ''a''" "IsValidStableId ''b''" "IsValidStableId ''c''" "IsValidStableId ''e''" "IsValidStableId ''f''"
    by code_simp+
  then show ?thesis
    by (simp add: gs_wf_def sample_chain_def GraphSpec_new_def sample_node_def sample_edge_def node_ok_def edge_ok_def
        node_ids_def sample_queue_def)
qed


end
