(* ===== verification/Mutation_Applier.thy ===== *)
theory Mutation_Applier
  imports Graph_Validator
begin

section \<open>Mutation applier\<close>

text \<open>
  \<open>MutationApplier\<close> (\<open>src/mutation_applier.cpp\<close>): the actions of a patch on a candidate graph, with the record
  of what was added, removed and touched. A step that fails gives the status; the caller drops the
  candidate. The record is exact for every patch, and a removed branch is one that only its entry edges
  join to the rest.
\<close>

subsection \<open>The candidate\<close>

record candidate_spec =
  ca_candidate :: graph_spec
  ca_added_nodes :: "string list"
  ca_removed_nodes :: "string list"
  ca_added_edges :: "string list"
  ca_removed_edges :: "string list"
  ca_node_remove_policy :: "(string \<times> RemovePolicy) list"
  ca_parameter_updates :: "(string \<times> json) list"
  ca_touched_nodes :: "string list"
  ca_touched_edges :: "string list"

definition candidate_of :: "graph_spec \<Rightarrow> candidate_spec" where
  "candidate_of base = \<lparr>ca_candidate = base, ca_added_nodes = [], ca_removed_nodes = [], ca_added_edges = [],
     ca_removed_edges = [], ca_node_remove_policy = [], ca_parameter_updates = [], ca_touched_nodes = [],
     ca_touched_edges = []\<rparr>"

definition Touch :: "string \<Rightarrow> string list \<Rightarrow> string list" where
  "Touch i xs = (if i \<in> set xs then xs else xs @ [i])"

definition touch_node :: "string \<Rightarrow> candidate_spec \<Rightarrow> candidate_spec" where
  "touch_node i c = c\<lparr>ca_touched_nodes := Touch i (ca_touched_nodes c)\<rparr>"

definition touch_edge :: "string \<Rightarrow> candidate_spec \<Rightarrow> candidate_spec" where
  "touch_edge i c = c\<lparr>ca_touched_edges := Touch i (ca_touched_edges c)\<rparr>"

definition UniquePort :: "capability_descriptor option \<Rightarrow> bool \<Rightarrow> string \<Rightarrow> string result" where
  "UniquePort cap inp node_id =
     (case cap of
        None \<Rightarrow> Inl (Status_GraphInvalid (''chain node '' @ quoted node_id @
                  '' needs explicit ports: operator capability unavailable'') None)
      | Some d \<Rightarrow>
          let ports = (if inp then cd_inputs d else cd_outputs d);
              c1 = map pc_name (filter (\<lambda>p. \<not> inp \<or> pc_required p) ports);
              candidates = (if c1 = [] \<and> inp then map pc_name ports else c1) in
          if length candidates \<noteq> 1 then
            Inl (Status_GraphInvalid (''chain node '' @ quoted node_id @ '' has '' @ nat_to_string (length candidates) @
              '' candidate '' @ (if inp then ''input'' else ''output'') @ '' ports; specify ports explicitly'') None)
          else Inr (hd candidates))"

subsection \<open>Tracked changes\<close>

definition AddEdgeTracked :: "edge_spec \<Rightarrow> candidate_spec \<Rightarrow> candidate_spec result" where
  "AddEdgeTracked e0 c =
     (let e = (if es_id e0 = [] then e0\<lparr>es_id := DeriveEdgeId (es_from e0) (es_to e0)\<rparr> else e0);
          c1 = touch_node (pr_node_id (es_to e)) (touch_node (pr_node_id (es_from e)) c) in
      bind_result (AddEdge e (ca_candidate c1)) (\<lambda>g.
        Inr (touch_edge (es_id e) (c1\<lparr>ca_candidate := g, ca_added_edges := ca_added_edges c1 @ [es_id e]\<rparr>))))"

definition RemoveEdgeTracked :: "string \<Rightarrow> candidate_spec \<Rightarrow> candidate_spec result" where
  "RemoveEdgeTracked i c =
     (case FindEdge (ca_candidate c) i of
        None \<Rightarrow> Inl (Status_NotFound (''edge '' @ quoted i @ '' not found''))
      | Some e \<Rightarrow>
          let c1 = touch_edge i (touch_node (pr_node_id (es_to e)) (touch_node (pr_node_id (es_from e)) c)) in
          bind_result (RemoveEdge i (ca_candidate c1)) (\<lambda>g.
            let c2 = c1\<lparr>ca_candidate := g\<rparr> in
            if i \<in> set (ca_added_edges c2) then Inr (c2\<lparr>ca_added_edges := remove1 i (ca_added_edges c2)\<rparr>)
            else Inr (c2\<lparr>ca_removed_edges := ca_removed_edges c2 @ [i]\<rparr>)))"

definition incident_edges :: "graph_spec \<Rightarrow> string \<Rightarrow> string list" where
  "incident_edges g i = fold Touch (map es_id (EdgesTo g i)) (map es_id (EdgesFrom g i))"

definition RemoveNodeWithEdges :: "RemovePolicy \<Rightarrow> string \<Rightarrow> candidate_spec \<Rightarrow> candidate_spec result" where
  "RemoveNodeWithEdges policy i c =
     (if FindNode (ca_candidate c) i = None then Inl (Status_NotFound (''node '' @ quoted i @ '' not found''))
      else
        bind_result (fold_result RemoveEdgeTracked (incident_edges (ca_candidate c) i) c) (\<lambda>c1.
        bind_result (RemoveNode i (ca_candidate c1)) (\<lambda>g.
          let c2 = touch_node i (c1\<lparr>ca_candidate := g\<rparr>) in
          if i \<in> set (ca_added_nodes c2) then Inr (c2\<lparr>ca_added_nodes := remove1 i (ca_added_nodes c2)\<rparr>)
          else Inr (c2\<lparr>ca_removed_nodes := ca_removed_nodes c2 @ [i],
                       ca_node_remove_policy := om_put i policy (ca_node_remove_policy c2)\<rparr>))))"

definition AddNodeTracked :: "node_spec \<Rightarrow> candidate_spec \<Rightarrow> candidate_spec result" where
  "AddNodeTracked n c =
     bind_result (AddNode n (ca_candidate c)) (\<lambda>g.
       Inr (touch_node (ns_id n) (c\<lparr>ca_candidate := g, ca_added_nodes := ca_added_nodes c @ [ns_id n]\<rparr>)))"

subsection \<open>Inserting a chain\<close>

fun check_new_ids :: "graph_spec \<Rightarrow> node_spec list \<Rightarrow> unit result" where
  "check_new_ids g [] = Inr ()"
| "check_new_ids g (n # ns) =
     (if FindNode g (ns_id n) \<noteq> None then
        Inl (Status_AlreadyExists (''chain node id '' @ quoted (ns_id n) @ '' already exists in candidate graph''))
      else check_new_ids g ns)"

text \<open>The input and output ports of the nodes of the chain; \<open>first\<close> tells that the list starts the chain.\<close>

fun chain_port_list ::
  "resolver \<Rightarrow> chain_ports \<Rightarrow> bool \<Rightarrow> node_spec list \<Rightarrow> (string \<times> string) list result" where
  "chain_port_list R ports first [] = Inr []"
| "chain_port_list R ports first (n # ns) =
     (let cap = R (ns_op n) in
      bind_result (case (first, cp_chain_input ports) of
                     (True, Some p) \<Rightarrow> Inr p | _ \<Rightarrow> UniquePort cap True (ns_id n)) (\<lambda>i.
      bind_result (case (ns, cp_chain_output ports) of
                     ([], Some p) \<Rightarrow> Inr p | _ \<Rightarrow> UniquePort cap False (ns_id n)) (\<lambda>out.
      bind_result (chain_port_list R ports False ns) (\<lambda>rest. Inr ((i, out) # rest)))))"

definition chain_link :: "queue_spec \<Rightarrow> string \<times> string \<times> string \<Rightarrow> string \<times> string \<times> string \<Rightarrow> edge_spec" where
  "chain_link queue a b = \<lparr>es_id = [], es_from = \<lparr>pr_node_id = fst a, pr_port = snd (snd a)\<rparr>,
     es_to = \<lparr>pr_node_id = fst b, pr_port = fst (snd b)\<rparr>, es_queue = queue, es_sync = None, es_feedback = False\<rparr>"

definition InsertChain ::
  "resolver \<Rightarrow> string \<Rightarrow> node_spec list \<Rightarrow> chain_ports \<Rightarrow> candidate_spec \<Rightarrow> candidate_spec result" where
  "InsertChain R edge nodes ports c =
     (if nodes = [] then Inl (Status_GraphInvalid ''insert_chain needs at least one node'' None)
      else case FindEdge (ca_candidate c) edge of
        None \<Rightarrow> Inl (Status_NotFound (''edge '' @ quoted edge @ '' not found''))
      | Some old \<Rightarrow>
          bind_result (check_new_ids (ca_candidate c) nodes) (\<lambda>_.
          bind_result (chain_port_list R ports True nodes) (\<lambda>ps.
          bind_result (RemoveEdgeTracked (es_id old) c) (\<lambda>c1.
          bind_result (fold_result AddNodeTracked nodes c1) (\<lambda>c2.
            let qs = zip (map ns_id nodes) ps in
            bind_result (AddEdgeTracked (old\<lparr>es_id := [], es_to := \<lparr>pr_node_id = ns_id (hd nodes), pr_port = fst (hd ps)\<rparr>\<rparr>) c2) (\<lambda>c3.
            bind_result (fold_result AddEdgeTracked (map2 (chain_link (es_queue old)) qs (tl qs)) c3)
              (AddEdgeTracked (old\<lparr>es_id := [], es_from := \<lparr>pr_node_id = ns_id (last nodes), pr_port = snd (last ps)\<rparr>\<rparr>))))))))"

subsection \<open>Removing a chain\<close>

definition RemoveChain :: "string list \<Rightarrow> RemoveMode \<Rightarrow> RemovePolicy \<Rightarrow> candidate_spec \<Rightarrow> candidate_spec result" where
  "RemoveChain nodes mode policy c =
     (if nodes = [] then Inl (Status_GraphInvalid ''remove_chain needs at least one node'' None)
      else if mode = kDisconnect then fold_result (RemoveNodeWithEdges policy) nodes c
      else
        bind_result (CheckLinearChain (ca_candidate c) nodes) (\<lambda>b.
          case (FindEdge (ca_candidate c) (cb_inbound b), FindEdge (ca_candidate c) (cb_outbound b)) of
            (Some ein, Some eout) \<Rightarrow>
              bind_result (fold_result (RemoveNodeWithEdges policy) nodes c)
                (AddEdgeTracked \<lparr>es_id = [], es_from = es_from ein, es_to = es_to eout, es_queue = es_queue eout,
                   es_sync = es_sync eout, es_feedback = es_feedback ein \<or> es_feedback eout\<rparr>)
          | _ \<Rightarrow> Inl (Status_Internal ''unreachable'')))"

subsection \<open>Replacing a node\<close>

definition map_port :: "resolver \<Rightarrow> operator_key \<Rightarrow> port_mapping option \<Rightarrow> bool \<Rightarrow> string \<Rightarrow> string result" where
  "map_port R op mapping inp port =
     (case mapping of
        Some pm \<Rightarrow>
          (case map_of (if inp then pm_inputs pm else pm_outputs pm) port of
             None \<Rightarrow> Inl (Status_GraphInvalid (''replace_node: no mapping for connected '' @
                       (if inp then ''input'' else ''output'') @ '' port '' @ quoted port) None)
           | Some q \<Rightarrow> Inr q)
      | None \<Rightarrow>
          (case R op of
             Some cap \<Rightarrow>
               if (if inp then FindInput cap port else FindOutput cap port) = None then
                 Inl (Status_GraphInvalid (''replace_node: replacement '' @ quoted (OperatorKey_ToString op) @ '' has no '' @
                   (if inp then ''input'' else ''output'') @ '' port '' @ quoted port @ '' and no port_mapping was given'') None)
               else Inr port
           | None \<Rightarrow> Inr port))"

definition map_incoming :: "(bool \<Rightarrow> string \<Rightarrow> string result) \<Rightarrow> string \<Rightarrow> edge_spec \<Rightarrow> edge_spec result" where
  "map_incoming mp node e =
     bind_result (mp True (pr_port (es_to e))) (\<lambda>p.
       let e1 = e\<lparr>es_to := (es_to e)\<lparr>pr_port := p\<rparr>\<rparr> in
       if pr_node_id (es_from e1) = node then
         bind_result (mp False (pr_port (es_from e1))) (\<lambda>q. Inr (e1\<lparr>es_from := (es_from e1)\<lparr>pr_port := q\<rparr>\<rparr>))
       else Inr e1)"

definition map_outgoing :: "(bool \<Rightarrow> string \<Rightarrow> string result) \<Rightarrow> edge_spec \<Rightarrow> edge_spec result" where
  "map_outgoing mp e = bind_result (mp False (pr_port (es_from e))) (\<lambda>p. Inr (e\<lparr>es_from := (es_from e)\<lparr>pr_port := p\<rparr>\<rparr>))"

definition ReplaceNode ::
  "resolver \<Rightarrow> string \<Rightarrow> operator_key \<Rightarrow> json \<Rightarrow> port_mapping option \<Rightarrow> RemovePolicy \<Rightarrow> candidate_spec \<Rightarrow> candidate_spec result" where
  "ReplaceNode R node op options mapping policy c =
     (case FindNode (ca_candidate c) node of
        None \<Rightarrow> Inl (Status_NotFound (''node '' @ quoted node @ '' not found''))
      | Some old \<Rightarrow>
          let replacement = old\<lparr>ns_op := op, ns_options := options\<rparr>; mp = map_port R op mapping in
          bind_result (map_result (map_incoming mp node) (EdgesTo (ca_candidate c) node)) (\<lambda>incoming.
          bind_result (map_result (map_outgoing mp)
              (filter (\<lambda>e. pr_node_id (es_to e) \<noteq> node) (EdgesFrom (ca_candidate c) node))) (\<lambda>outgoing.
          bind_result (RemoveNodeWithEdges policy node c) (\<lambda>c1.
          bind_result (AddNode replacement (ca_candidate c1)) (\<lambda>g.
          bind_result (fold_result AddEdgeTracked incoming
              (c1\<lparr>ca_candidate := g, ca_added_nodes := ca_added_nodes c1 @ [ns_id replacement]\<rparr>))
            (fold_result AddEdgeTracked outgoing))))))"

subsection \<open>Removing a branch\<close>

fun check_entries :: "graph_spec \<Rightarrow> string list \<Rightarrow> string list \<Rightarrow> string list result" where
  "check_entries g sel [] = Inr []"
| "check_entries g sel (i # is) =
     (case FindEdge g i of
        None \<Rightarrow> Inl (Status_NotFound (''entry edge '' @ quoted i @ '' not found''))
      | Some e \<Rightarrow>
          if pr_node_id (es_to e) \<notin> set sel then
            Inl (Status_GraphInvalid (''entry edge '' @ quoted i @ '' does not lead into the selection'') None)
          else if pr_node_id (es_from e) \<in> set sel then
            Inl (Status_GraphInvalid (''entry edge '' @ quoted i @ '' must start outside the selection'') None)
          else bind_result (check_entries g sel is) (\<lambda>rest. Inr (pr_node_id (es_to e) # rest)))"

fun check_present :: "graph_spec \<Rightarrow> string list \<Rightarrow> unit result" where
  "check_present g [] = Inr ()"
| "check_present g (i # is) =
     (if FindNode g i = None then Inl (Status_NotFound (''node '' @ quoted i @ '' not found'')) else check_present g is)"

text \<open>The search with an explicit stack, its top at the head of the list; what is still to visit bounds it.\<close>

definition successors :: "graph_spec \<Rightarrow> string list \<Rightarrow> string \<Rightarrow> string list" where
  "successors g sel n = filter (\<lambda>t. t \<in> set sel) (map (\<lambda>e. pr_node_id (es_to e)) (EdgesFrom g n))"

definition pending :: "graph_spec \<Rightarrow> string list \<Rightarrow> string list \<Rightarrow> nat" where
  "pending g stack reached = card ((set stack \<union> (\<lambda>e. pr_node_id (es_to e)) ` set (gs_edges g)) - set reached)"

lemma pending_skip: "pending g stack reached < pending g (n # stack) reached \<or> pending g stack reached = pending g (n # stack) reached"
  unfolding pending_def order_le_less[symmetric] by (rule card_mono) auto

lemma pending_push: "n \<notin> set reached \<Longrightarrow> pending g (rev (successors g sel n) @ stack) (n # reached) < pending g (n # stack) reached"
proof -
  assume n: "n \<notin> set reached"
  let ?T = "(\<lambda>e. pr_node_id (es_to e)) ` set (gs_edges g)"
  have "(set (rev (successors g sel n) @ stack) \<union> ?T) - set (n # reached) \<subseteq> (set (n # stack) \<union> ?T) - set reached - {n}"
    by (auto simp: successors_def EdgesFrom_def)
  then have "pending g (rev (successors g sel n) @ stack) (n # reached) \<le> card ((set (n # stack) \<union> ?T) - set reached - {n})"
    unfolding pending_def by (rule card_mono[rotated]) simp
  also have "\<dots> < pending g (n # stack) reached" unfolding pending_def using n by (intro card_Diff1_less) simp_all
  finally show ?thesis .
qed

function branch_reach :: "graph_spec \<Rightarrow> string list \<Rightarrow> string list \<Rightarrow> string list \<Rightarrow> string list" where
  "branch_reach g sel [] reached = reached"
| "branch_reach g sel (n # stack) reached =
     (if n \<in> set reached then branch_reach g sel stack reached
      else branch_reach g sel (rev (successors g sel n) @ stack) (n # reached))"
  by pat_completeness auto
termination
  by (relation "measures [\<lambda>(g, sel, stack, reached). pending g stack reached, \<lambda>(g, sel, stack, reached). length stack]")
    (simp_all add: pending_skip pending_push)

fun check_reached :: "string list \<Rightarrow> string list \<Rightarrow> unit result" where
  "check_reached reached [] = Inr ()"
| "check_reached reached (i # is) =
     (if i \<notin> set reached then
        Inl (Status_GraphInvalid (''node '' @ quoted i @ '' is not reachable from the entry edge(s) inside the selection'') None)
      else check_reached reached is)"

definition RemoveBranch ::
  "string \<Rightarrow> string list \<Rightarrow> string list \<Rightarrow> RemovePolicy \<Rightarrow> candidate_spec \<Rightarrow> candidate_spec result" where
  "RemoveBranch entry_edge nodes entry_edges policy c =
     (if nodes = [] then Inl (Status_GraphInvalid ''remove_branch needs a node selection'' None)
      else
        let g = ca_candidate c; entries = EntryEdges entry_edge entry_edges in
        bind_result (check_entries g nodes entries) (\<lambda>starts.
        bind_result (check_present g nodes) (\<lambda>_.
        bind_result (check_reached (branch_reach g nodes (rev starts) []) nodes) (\<lambda>_.
          let deps = FindSharedDependencies g nodes entries in
          if deps \<noteq> [] then
            Inl (Status_SharedDependency (''branch selection shares '' @ nat_to_string (length deps) @
                '' dependency(ies) with the rest of the graph'')
              (Some (json_members [Some (''dependencies'', JArr (map SharedDependency_ToJson deps))])))
          else fold_result (RemoveNodeWithEdges policy) nodes c))))"

subsection \<open>Applying a patch\<close>

definition policy_or :: "RemovePolicy option \<Rightarrow> RemovePolicy \<Rightarrow> RemovePolicy" where
  "policy_or p d = (case p of Some q \<Rightarrow> q | None \<Rightarrow> d)"

fun ApplyOne :: "resolver \<Rightarrow> RemovePolicy \<Rightarrow> MutationAction \<Rightarrow> candidate_spec \<Rightarrow> candidate_spec result" where
  "ApplyOne R d (AddNodeAction n) c = AddNodeTracked n c"
| "ApplyOne R d (RemoveNodeAction node mode policy) c =
     (if mode = kBypass then RemoveChain [node] mode (policy_or policy d) c
      else RemoveNodeWithEdges (policy_or policy d) node c)"
| "ApplyOne R d (InsertChainAction edge nodes ports) c = InsertChain R edge nodes ports c"
| "ApplyOne R d (RemoveChainAction nodes mode policy) c = RemoveChain nodes mode (policy_or policy d) c"
| "ApplyOne R d (ReplaceNodeAction node op options mapping policy) c =
     ReplaceNode R node op options mapping (policy_or policy d) c"
| "ApplyOne R d (RemoveBranchAction entry_edge nodes policy entry_edges) c =
     RemoveBranch entry_edge nodes entry_edges (policy_or policy d) c"
| "ApplyOne R d (AddEdgeAction e) c = AddEdgeTracked e c"
| "ApplyOne R d (RemoveEdgeAction i) c = RemoveEdgeTracked i c"
| "ApplyOne R d (SetNodeOptionsAction node options) c =
     (if FindNode (ca_candidate c) node = None then Inl (Status_NotFound (''node '' @ quoted node @ '' not found''))
      else Inr (touch_node node (c\<lparr>ca_parameter_updates := ca_parameter_updates c @ [(node, options)]\<rparr>)))"

definition action_error :: "nat \<Rightarrow> MutationAction \<Rightarrow> status \<Rightarrow> status" where
  "action_error index action s =
     Status (st_code s)
       (''action['' @ nat_to_string index @ ''] '' @ ActionTypeName action @ '': '' @ st_message s) (st_retryable s)
       (Some (json_members [Some (''action_index'', JInt (int index)), Some (''action_type'', JStr (ActionTypeName action)),
          map_option (\<lambda>d. (''detail'', d)) (st_context s)]))"

fun apply_actions ::
  "resolver \<Rightarrow> RemovePolicy \<Rightarrow> nat \<Rightarrow> MutationAction list \<Rightarrow> candidate_spec \<Rightarrow> candidate_spec result" where
  "apply_actions R d index [] c = Inr c"
| "apply_actions R d index (a # as) c =
     (case ApplyOne R d a c of
        Inl s \<Rightarrow> Inl (action_error index a s)
      | Inr c1 \<Rightarrow> apply_actions R d (index + 1) as c1)"

definition Mutation_Apply :: "resolver \<Rightarrow> graph_spec \<Rightarrow> mutation_patch \<Rightarrow> candidate_spec result" where
  "Mutation_Apply R base patch =
     (if mp_actions patch = [] then Inl (Status_InvalidArgument ''mutation has no actions'')
      else apply_actions R (mp_remove_policy patch) 0 (mp_actions patch) (candidate_of base))"

subsection \<open>The change record is exact\<close>

text \<open>\<open>delta_ok f bs cs A R\<close>: the items \<open>cs\<close> differ from \<open>bs\<close> exactly by the added ids \<open>A\<close> and the removed ids
  \<open>R\<close>, and what was not removed is still there unchanged.\<close>

definition delta_ok :: "('x \<Rightarrow> 'k) \<Rightarrow> 'x list \<Rightarrow> 'x list \<Rightarrow> 'k list \<Rightarrow> 'k list \<Rightarrow> bool" where
  "delta_ok f bs cs A R \<longleftrightarrow> distinct A \<and> distinct R \<and> set R \<subseteq> f ` set bs \<and> set A \<inter> (f ` set bs - set R) = {} \<and>
     f ` set cs = (f ` set bs - set R) \<union> set A \<and> (\<forall>b\<in>set bs. f b \<notin> set R \<longrightarrow> b \<in> set cs)"

lemma delta_ok_refl: "delta_ok f bs bs [] []"
  by (simp add: delta_ok_def)

lemma delta_add:
  assumes "delta_ok f bs cs A R" and "f x \<notin> f ` set cs"
  shows "delta_ok f bs (cs @ [x]) (A @ [f x]) R"
  using assms by (auto simp: delta_ok_def)

lemma delta_remove:
  assumes "delta_ok f bs cs A R" and "i \<in> f ` set cs" and "set cs' = {c \<in> set cs. f c \<noteq> i}"
  shows "i \<in> set A \<Longrightarrow> delta_ok f bs cs' (remove1 i A) R" and "i \<notin> set A \<Longrightarrow> delta_ok f bs cs' A (R @ [i])"
proof -
  have cs': "f ` set cs' = f ` set cs - {i}" using assms(3) by auto
  note d = assms(1)[unfolded delta_ok_def]
  show "delta_ok f bs cs' (remove1 i A) R" if "i \<in> set A"
    using d that cs' assms(3) unfolding delta_ok_def by auto
  show "delta_ok f bs cs' A (R @ [i])" if "i \<notin> set A"
    using d that cs' assms(2,3) unfolding delta_ok_def by auto
qed

definition tracks :: "graph_spec \<Rightarrow> candidate_spec \<Rightarrow> bool" where
  "tracks base c \<longleftrightarrow> gs_wf (ca_candidate c) \<and>
     delta_ok ns_id (gs_nodes base) (gs_nodes (ca_candidate c)) (ca_added_nodes c) (ca_removed_nodes c) \<and>
     delta_ok es_id (gs_edges base) (gs_edges (ca_candidate c)) (ca_added_edges c) (ca_removed_edges c) \<and>
     om_wf (ca_node_remove_policy c) \<and> fst ` set (ca_node_remove_policy c) = set (ca_removed_nodes c) \<and>
     set (ca_added_nodes c) \<union> set (ca_removed_nodes c) \<subseteq> set (ca_touched_nodes c) \<and>
     set (ca_added_edges c) \<union> set (ca_removed_edges c) \<subseteq> set (ca_touched_edges c)"

lemma set_Touch [simp]: "set (Touch i xs) = insert i (set xs)"
  by (auto simp: Touch_def)

lemma touch_simps [simp]:
  "ca_candidate (touch_node i c) = ca_candidate c" "ca_candidate (touch_edge i c) = ca_candidate c"
  "ca_added_nodes (touch_node i c) = ca_added_nodes c" "ca_added_nodes (touch_edge i c) = ca_added_nodes c"
  "ca_removed_nodes (touch_node i c) = ca_removed_nodes c" "ca_removed_nodes (touch_edge i c) = ca_removed_nodes c"
  "ca_added_edges (touch_node i c) = ca_added_edges c" "ca_added_edges (touch_edge i c) = ca_added_edges c"
  "ca_removed_edges (touch_node i c) = ca_removed_edges c" "ca_removed_edges (touch_edge i c) = ca_removed_edges c"
  "ca_node_remove_policy (touch_node i c) = ca_node_remove_policy c" "ca_node_remove_policy (touch_edge i c) = ca_node_remove_policy c"
  "set (ca_touched_nodes (touch_node i c)) = insert i (set (ca_touched_nodes c))" "ca_touched_nodes (touch_edge i c) = ca_touched_nodes c"
  "ca_touched_edges (touch_node i c) = ca_touched_edges c" "set (ca_touched_edges (touch_edge i c)) = insert i (set (ca_touched_edges c))"
  by (simp_all add: touch_node_def touch_edge_def)

lemma tracks_touch [simp]: "tracks base c \<Longrightarrow> tracks base (touch_node i c)" "tracks base c \<Longrightarrow> tracks base (touch_edge i c)"
  by (auto simp: tracks_def)

lemma tracks_params [simp]: "tracks base (c\<lparr>ca_parameter_updates := p\<rparr>) = tracks base c"
  by (simp add: tracks_def)

lemma tracks_refl: "gs_wf base \<Longrightarrow> tracks base (candidate_of base)"
  by (simp add: tracks_def candidate_of_def delta_ok_refl)

lemma AddNodeTracked_ok:
  assumes "AddNodeTracked n c = Inr c'" and "tracks base c"
  shows "tracks base c' \<and> gs_nodes (ca_candidate c') = gs_nodes (ca_candidate c) @ [n] \<and>
    gs_edges (ca_candidate c') = gs_edges (ca_candidate c)"
proof -
  obtain g where g: "AddNode n (ca_candidate c) = Inr g"
    and c': "c' = touch_node (ns_id n) (c\<lparr>ca_candidate := g, ca_added_nodes := ca_added_nodes c @ [ns_id n]\<rparr>)"
    using assms(1) by (auto simp: AddNodeTracked_def bind_result_Inr)
  have wf: "gs_wf g" using AddNode_wf[OF g] assms(2) by (simp add: tracks_def)
  have n: "ns_id n \<notin> ns_id ` set (gs_nodes (ca_candidate c))" "gs_nodes g = gs_nodes (ca_candidate c) @ [n]"
      "gs_edges g = gs_edges (ca_candidate c)"
    using g by (auto simp: AddNode_Inr node_ids_def)
  show ?thesis using assms(2) wf n delta_add[of ns_id "gs_nodes base" _ _ _ n] by (auto simp: tracks_def c')
qed

lemma edge_named_eq: "(if es_id e = [] then e\<lparr>es_id := DeriveEdgeId (es_from e) (es_to e)\<rparr> else e) = edge_named e"
  by (simp add: edge_named_def)

lemma edge_named_idem [simp]: "edge_named (edge_named e) = edge_named e"
  using edge_named_simps(6)[of e] by (simp add: edge_named_def)

lemma AddEdgeTracked_ok:
  assumes "AddEdgeTracked e c = Inr c'" and "tracks base c"
  shows "tracks base c' \<and> gs_edges (ca_candidate c') = gs_edges (ca_candidate c) @ [edge_named e] \<and>
    gs_nodes (ca_candidate c') = gs_nodes (ca_candidate c)"
proof -
  let ?e = "edge_named e"
  let ?c1 = "touch_node (pr_node_id (es_to e)) (touch_node (pr_node_id (es_from e)) c)"
  obtain g where g: "AddEdge ?e (ca_candidate c) = Inr g"
    and c': "c' = touch_edge (es_id ?e) (?c1\<lparr>ca_candidate := g, ca_added_edges := ca_added_edges c @ [es_id ?e]\<rparr>)"
    using assms(1) unfolding AddEdgeTracked_def edge_named_eq by (auto simp: bind_result_Inr Let_def)
  have wf: "gs_wf g" using AddEdge_wf[OF g] assms(2) by (simp add: tracks_def)
  have n: "es_id ?e \<notin> es_id ` set (gs_edges (ca_candidate c))" "gs_edges g = gs_edges (ca_candidate c) @ [?e]"
      "gs_nodes g = gs_nodes (ca_candidate c)"
    using g by (auto simp: AddEdge_Inr edge_ids_def)
  show ?thesis using assms(2) wf n delta_add[of es_id "gs_edges base" _ _ _ ?e] by (auto simp: tracks_def c')
qed

lemma RemoveEdgeTracked_ok:
  assumes "RemoveEdgeTracked i c = Inr c'" and "tracks base c"
  shows "tracks base c' \<and> gs_edges (ca_candidate c') = filter (\<lambda>e. es_id e \<noteq> i) (gs_edges (ca_candidate c)) \<and>
    gs_nodes (ca_candidate c') = gs_nodes (ca_candidate c)"
proof -
  obtain e g where e: "FindEdge (ca_candidate c) i = Some e" and g: "RemoveEdge i (ca_candidate c) = Inr g"
    using assms(1) by (auto simp: RemoveEdgeTracked_def Let_def bind_result_Inr split: option.splits)
  define c1 where "c1 = touch_edge i (touch_node (pr_node_id (es_to e)) (touch_node (pr_node_id (es_from e)) c))"
  have t1: "tracks base c1" using assms(2) by (simp add: c1_def)
  have cand: "ca_candidate c1 = ca_candidate c" "i \<in> set (ca_touched_edges c1)" by (simp_all add: c1_def)
  have c': "c' = (if i \<in> set (ca_added_edges c1) then c1\<lparr>ca_candidate := g, ca_added_edges := remove1 i (ca_added_edges c1)\<rparr>
      else c1\<lparr>ca_candidate := g, ca_removed_edges := ca_removed_edges c1 @ [i]\<rparr>)"
    using assms(1) e g by (auto simp: RemoveEdgeTracked_def Let_def c1_def split: if_splits)
  have wf: "gs_wf g" and dist: "distinct (map es_id (gs_edges (ca_candidate c)))"
    using RemoveEdge_wf[OF g] assms(2) by (simp_all add: tracks_def gs_wf_def)
  have n: "i \<in> es_id ` set (gs_edges (ca_candidate c))" "gs_edges g = filter (\<lambda>e. es_id e \<noteq> i) (gs_edges (ca_candidate c))"
      "gs_nodes g = gs_nodes (ca_candidate c)"
    using g by (auto simp: RemoveEdge_Inr edge_ids_def remove_first_eq_filter[OF dist])
  have d: "delta_ok es_id (gs_edges base) (gs_edges (ca_candidate c)) (ca_added_edges c1) (ca_removed_edges c1)"
    using t1 cand by (simp add: tracks_def)
  have set: "set (gs_edges g) = {e \<in> set (gs_edges (ca_candidate c)). es_id e \<noteq> i}" using n by simp
  note r = delta_remove[OF d n(1) set]
  have "tracks base c'"
  proof (cases "i \<in> set (ca_added_edges c1)")
    case True
    then show ?thesis using t1 wf r(1) n cand notin_set_remove1 by (auto simp: tracks_def c' dest: notin_set_remove1)
  next
    case False
    then show ?thesis using t1 wf r(2) n cand by (auto simp: tracks_def c')
  qed
  then show ?thesis using n by (simp add: c')
qed

lemma RemoveEdges_ok:
  assumes "fold_result RemoveEdgeTracked is c = Inr c'" and "tracks base c"
  shows "tracks base c' \<and> gs_edges (ca_candidate c') = filter (\<lambda>e. es_id e \<notin> set is) (gs_edges (ca_candidate c)) \<and>
    gs_nodes (ca_candidate c') = gs_nodes (ca_candidate c)"
  using assms
proof (induction "is" arbitrary: c)
  case (Cons i js)
  then obtain c1 where c1: "RemoveEdgeTracked i c = Inr c1" "fold_result RemoveEdgeTracked js c1 = Inr c'"
    by (auto simp: bind_result_Inr)
  note s = RemoveEdgeTracked_ok[OF c1(1) Cons.prems(2)]
  then show ?case using Cons.IH[OF c1(2)] by (auto intro: filter_cong)
qed simp

lemma set_incident_edges: "set (incident_edges g i) = es_id ` {e \<in> set (gs_edges g). pr_node_id (es_from e) = i \<or> pr_node_id (es_to e) = i}"
proof -
  have "set (fold Touch xs ys) = set xs \<union> set ys" for xs ys by (induction xs arbitrary: ys) auto
  then show ?thesis by (auto simp: incident_edges_def EdgesFrom_def EdgesTo_def)
qed

definition away :: "string set \<Rightarrow> edge_spec \<Rightarrow> bool" where
  "away X e \<longleftrightarrow> pr_node_id (es_from e) \<notin> X \<and> pr_node_id (es_to e) \<notin> X"

lemma RemoveNodeWithEdges_ok:
  assumes "RemoveNodeWithEdges policy i c = Inr c'" and "tracks base c"
  shows "tracks base c' \<and> gs_nodes (ca_candidate c') = filter (\<lambda>n. ns_id n \<noteq> i) (gs_nodes (ca_candidate c)) \<and>
    gs_edges (ca_candidate c') = filter (away {i}) (gs_edges (ca_candidate c))"
proof -
  obtain c1 g where c1: "fold_result RemoveEdgeTracked (incident_edges (ca_candidate c) i) c = Inr c1"
    and g: "RemoveNode i (ca_candidate c1) = Inr g"
    using assms(1) by (auto simp: RemoveNodeWithEdges_def bind_result_Inr split: if_splits)
  define c2 where "c2 = touch_node i (c1\<lparr>ca_candidate := g\<rparr>)"
  have c': "c' = (if i \<in> set (ca_added_nodes c2) then c2\<lparr>ca_added_nodes := remove1 i (ca_added_nodes c2)\<rparr>
      else c2\<lparr>ca_removed_nodes := ca_removed_nodes c2 @ [i], ca_node_remove_policy := om_put i policy (ca_node_remove_policy c2)\<rparr>)"
    using assms(1) c1 g by (auto simp: RemoveNodeWithEdges_def Let_def c2_def split: if_splits)
  note s = RemoveEdges_ok[OF c1 assms(2)]
  have t1: "tracks base c1" using s by blast
  have dist: "distinct (map ns_id (gs_nodes (ca_candidate c)))" "distinct (map es_id (gs_edges (ca_candidate c)))"
    using assms(2) by (simp_all add: tracks_def gs_wf_def)
  have id: "es_id e \<in> set (incident_edges (ca_candidate c) i) \<longleftrightarrow> \<not> away {i} e" if "e \<in> set (gs_edges (ca_candidate c))" for e
    using that dist(2) unfolding set_incident_edges by (auto simp: away_def distinct_map inj_on_def)
  have e1: "gs_edges (ca_candidate c1) = filter (away {i}) (gs_edges (ca_candidate c))"
    using s id by (auto intro: filter_cong)
  have n: "i \<in> ns_id ` set (gs_nodes (ca_candidate c1))" "gs_nodes g = filter (\<lambda>n. ns_id n \<noteq> i) (gs_nodes (ca_candidate c))"
    using g s by (auto simp: RemoveNode_Inr node_ids_def remove_first_eq_filter[OF dist(1)])
  have "gs_edges g = filter (away {i}) (gs_edges (ca_candidate c1))" using g by (auto simp: RemoveNode_Inr away_def intro!: filter_cong)
  then have e: "gs_edges g = gs_edges (ca_candidate c1)" unfolding e1 by simp
  have wf: "gs_wf g" using RemoveNode_wf[OF g] t1 by (simp add: tracks_def)
  have d: "delta_ok ns_id (gs_nodes base) (gs_nodes (ca_candidate c1)) (ca_added_nodes c1) (ca_removed_nodes c1)"
    using t1 by (simp add: tracks_def)
  have set: "set (gs_nodes g) = {x \<in> set (gs_nodes (ca_candidate c1)). ns_id x \<noteq> i}" using n s by simp
  note r = delta_remove[OF d n(1) set]
  have "tracks base c'"
  proof (cases "i \<in> set (ca_added_nodes c1)")
    case True
    then show ?thesis using t1 wf r(1) e by (auto simp: tracks_def c' c2_def dest: notin_set_remove1)
  next
    case False
    then show ?thesis using t1 wf r(2) e by (auto simp: tracks_def c' c2_def)
  qed
  then show ?thesis using n e e1 by (simp add: c' c2_def)
qed

lemma RemoveNodes_ok:
  assumes "fold_result (RemoveNodeWithEdges policy) is c = Inr c'" and "tracks base c"
  shows "tracks base c' \<and> gs_nodes (ca_candidate c') = filter (\<lambda>n. ns_id n \<notin> set is) (gs_nodes (ca_candidate c)) \<and>
    gs_edges (ca_candidate c') = filter (away (set is)) (gs_edges (ca_candidate c))"
  using assms
proof (induction "is" arbitrary: c)
  case (Cons i js)
  then obtain c1 where c1: "RemoveNodeWithEdges policy i c = Inr c1" "fold_result (RemoveNodeWithEdges policy) js c1 = Inr c'"
    by (auto simp: bind_result_Inr)
  note s = RemoveNodeWithEdges_ok[OF c1(1) Cons.prems(2)]
  then show ?case using Cons.IH[OF c1(2)] by (auto simp: away_def intro: filter_cong)
qed (simp add: away_def)

lemma AddNodes_tracks: "fold_result AddNodeTracked ns c = Inr c' \<Longrightarrow> tracks base c \<Longrightarrow> tracks base c'"
  by (rule fold_result_inv[of AddNodeTracked ns c c' "tracks base"]) (auto dest: AddNodeTracked_ok)

lemma AddEdges_tracks: "fold_result AddEdgeTracked es c = Inr c' \<Longrightarrow> tracks base c \<Longrightarrow> tracks base c'"
  by (rule fold_result_inv[of AddEdgeTracked es c c' "tracks base"]) (auto dest: AddEdgeTracked_ok)

lemmas tracked_steps = AddNodes_tracks AddEdges_tracks AddNodeTracked_ok [THEN conjunct1] AddEdgeTracked_ok [THEN conjunct1]
  RemoveEdgeTracked_ok [THEN conjunct1] RemoveNodeWithEdges_ok [THEN conjunct1] RemoveNodes_ok [THEN conjunct1]

lemma InsertChain_tracks: "InsertChain R edge nodes ports c = Inr c' \<Longrightarrow> tracks base c \<Longrightarrow> tracks base c'"
  by (auto simp: InsertChain_def bind_result_Inr Let_def split: if_splits option.splits dest!: tracked_steps)

definition bypass_edge :: "edge_spec \<Rightarrow> edge_spec \<Rightarrow> edge_spec" where
  "bypass_edge ein eout = \<lparr>es_id = [], es_from = es_from ein, es_to = es_to eout, es_queue = es_queue eout,
     es_sync = es_sync eout, es_feedback = es_feedback ein \<or> es_feedback eout\<rparr>"

lemma RemoveChain_Inr:
  "RemoveChain nodes mode policy c = Inr c' \<Longrightarrow> nodes \<noteq> [] \<and>
   (if mode = kDisconnect then fold_result (RemoveNodeWithEdges policy) nodes c = Inr c'
    else \<exists>b ein eout c1. CheckLinearChain (ca_candidate c) nodes = Inr b \<and> FindEdge (ca_candidate c) (cb_inbound b) = Some ein \<and>
      FindEdge (ca_candidate c) (cb_outbound b) = Some eout \<and> fold_result (RemoveNodeWithEdges policy) nodes c = Inr c1 \<and>
      AddEdgeTracked (bypass_edge ein eout) c1 = Inr c')"
  by (auto simp: RemoveChain_def bypass_edge_def bind_result_Inr simp del: FindEdge_None split: if_splits option.splits)

lemma RemoveChain_tracks: "RemoveChain nodes mode policy c = Inr c' \<Longrightarrow> tracks base c \<Longrightarrow> tracks base c'"
  by (drule RemoveChain_Inr) (auto split: if_splits dest!: tracked_steps)

lemma RemoveBranch_tracks: "RemoveBranch e nodes es policy c = Inr c' \<Longrightarrow> tracks base c \<Longrightarrow> tracks base c'"
  by (auto simp: RemoveBranch_def bind_result_Inr Let_def split: if_splits dest!: tracked_steps)

lemma ReplaceNode_tracks:
  assumes "ReplaceNode R node op options mapping policy c = Inr c'" and t: "tracks base c"
  shows "tracks base c'"
proof -
  obtain old incoming outgoing c1 g c3 where old: "FindNode (ca_candidate c) node = Some old"
    and c1: "RemoveNodeWithEdges policy node c = Inr c1"
    and g: "AddNode (old\<lparr>ns_op := op, ns_options := options\<rparr>) (ca_candidate c1) = Inr g"
    and es: "fold_result AddEdgeTracked incoming (c1\<lparr>ca_candidate := g, ca_added_nodes := ca_added_nodes c1 @ [ns_id old]\<rparr>) = Inr c3"
      "fold_result AddEdgeTracked outgoing c3 = Inr c'"
    using assms(1) by (auto simp: ReplaceNode_def bind_result_Inr Let_def split: option.splits)
  have "ns_id old = node" using old by (simp add: FindNode_def nt.lookup_SomeD)
  have touched: "node \<in> set (ca_touched_nodes c1)"
    using c1 by (auto simp: RemoveNodeWithEdges_def bind_result_Inr Let_def split: if_splits)
  let ?n = "old\<lparr>ns_op := op, ns_options := options\<rparr>"
  have "AddNodeTracked ?n c1 = Inr (touch_node node (c1\<lparr>ca_candidate := g, ca_added_nodes := ca_added_nodes c1 @ [ns_id old]\<rparr>))"
    using g \<open>ns_id old = node\<close> by (simp add: AddNodeTracked_def)
  moreover have "touch_node node (c1\<lparr>ca_candidate := g, ca_added_nodes := ca_added_nodes c1 @ [ns_id old]\<rparr>) =
      c1\<lparr>ca_candidate := g, ca_added_nodes := ca_added_nodes c1 @ [ns_id old]\<rparr>"
    using touched by (simp add: touch_node_def Touch_def)
  ultimately have "tracks base (c1\<lparr>ca_candidate := g, ca_added_nodes := ca_added_nodes c1 @ [ns_id old]\<rparr>)"
    using AddNodeTracked_ok[of ?n c1] RemoveNodeWithEdges_ok[OF c1 t] by metis
  then show ?thesis using AddEdges_tracks es by blast
qed

lemma ApplyOne_tracks: "ApplyOne R d a c = Inr c' \<Longrightarrow> tracks base c \<Longrightarrow> tracks base c'"
proof (cases a)
  case (SetNodeOptionsAction n opts)
  assume *: "ApplyOne R d a c = Inr c'" "tracks base c"
  then show ?thesis using SetNodeOptionsAction by (auto split: if_splits)
qed (auto split: if_splits dest: tracked_steps InsertChain_tracks RemoveChain_tracks RemoveBranch_tracks ReplaceNode_tracks)

lemma apply_actions_tracks: "apply_actions R d k as c = Inr c' \<Longrightarrow> tracks base c \<Longrightarrow> tracks base c'"
  by (induction as arbitrary: k c) (auto split: sum.splits dest: ApplyOne_tracks)

subsection \<open>The search of a branch\<close>

definition sel_step :: "graph_spec \<Rightarrow> string list \<Rightarrow> (string \<times> string) set" where
  "sel_step g sel = {(a, b). b \<in> set sel \<and> (\<exists>e\<in>set (gs_edges g). pr_node_id (es_from e) = a \<and> pr_node_id (es_to e) = b)}"

lemma set_successors: "set (successors g sel n) = sel_step g sel `` {n}"
  by (auto simp: successors_def sel_step_def EdgesFrom_def)

lemma branch_reach_sound: "set (branch_reach g sel stack reached) \<subseteq> set reached \<union> (sel_step g sel)\<^sup>* `` set stack"
proof (induction g sel stack reached rule: branch_reach.induct)
  case (2 g sel n stack reached)
  show ?case
  proof (cases "n \<in> set reached")
    case False
    have "(sel_step g sel)\<^sup>* `` set (rev (successors g sel n) @ stack) \<subseteq> (sel_step g sel)\<^sup>* `` set (n # stack)"
      by (auto simp: set_successors intro: converse_rtrancl_into_rtrancl)
    moreover have "n \<in> (sel_step g sel)\<^sup>* `` set (n # stack)" by auto
    ultimately have "set (n # reached) \<union> (sel_step g sel)\<^sup>* `` set (rev (successors g sel n) @ stack) \<subseteq>
        set reached \<union> (sel_step g sel)\<^sup>* `` set (n # stack)" by auto
    then show ?thesis using "2.IH"(2)[OF False] False by (simp only: branch_reach.simps if_False)
  qed (use "2.IH"(1) in auto)
qed simp

lemma branch_reach_closed:
  assumes "sel_step g sel `` set reached \<subseteq> set reached \<union> set stack"
  shows "set reached \<union> set stack \<subseteq> set (branch_reach g sel stack reached) \<and>
    sel_step g sel `` set (branch_reach g sel stack reached) \<subseteq> set (branch_reach g sel stack reached)"
  using assms
proof (induction g sel stack reached rule: branch_reach.induct)
  case (2 g sel n stack reached)
  show ?case
  proof (cases "n \<in> set reached")
    case True
    then have "sel_step g sel `` set reached \<subseteq> set reached \<union> set stack" using "2.prems" by auto
    then show ?thesis using "2.IH"(1)[OF True] True by auto
  next
    case False
    have "sel_step g sel `` set (n # reached) \<subseteq> set (n # reached) \<union> set (rev (successors g sel n) @ stack)"
      using "2.prems" by (auto simp: set_successors)
    then show ?thesis using "2.IH"(2)[OF False] False by simp
  qed
qed simp

lemma branch_reach_exact: "set (branch_reach g sel stack []) = (sel_step g sel)\<^sup>* `` set stack"
proof
  show "set (branch_reach g sel stack []) \<subseteq> (sel_step g sel)\<^sup>* `` set stack" using branch_reach_sound[of g sel stack "[]"] by simp
  have c: "set stack \<subseteq> set (branch_reach g sel stack [])"
      "sel_step g sel `` set (branch_reach g sel stack []) \<subseteq> set (branch_reach g sel stack [])"
    using branch_reach_closed[of g sel "[]" stack] by auto
  then have "(sel_step g sel)\<^sup>* `` set (branch_reach g sel stack []) \<subseteq> set (branch_reach g sel stack [])"
    by (simp add: Image_closed_trancl)
  then show "(sel_step g sel)\<^sup>* `` set stack \<subseteq> set (branch_reach g sel stack [])" using c(1) by blast
qed

lemma check_entries_Inr:
  "check_entries g sel is = Inr starts \<Longrightarrow> \<forall>s\<in>set starts. \<exists>e\<in>set (gs_edges g). es_id e \<in> set is \<and> pr_node_id (es_to e) = s \<and>
     s \<in> set sel \<and> pr_node_id (es_from e) \<notin> set sel"
  by (induction "is" arbitrary: starts)
    (fastforce simp: bind_result_Inr FindEdge_def dest: et.lookup_SomeD simp del: FindEdge_None split: option.splits if_splits)+

lemma check_reached_Inr: "check_reached reached is = Inr () \<longleftrightarrow> set is \<subseteq> set reached"
  by (induction "is") auto

text \<open>C6. A branch is removed only when it is one: every selected node is reachable inside the selection from
  an entry edge that comes from outside, only the entry edges join the selection to the rest, and the
  candidate loses exactly the selected nodes with their edges.\<close>

theorem remove_branch_exact:
  assumes "RemoveBranch entry_edge nodes entry_edges policy c = Inr c'" and "tracks base c"
  shows "(\<forall>n\<in>set nodes. \<exists>e\<in>set (gs_edges (ca_candidate c)). es_id e \<in> set (EntryEdges entry_edge entry_edges) \<and>
        pr_node_id (es_from e) \<notin> set nodes \<and> (pr_node_id (es_to e), n) \<in> (sel_step (ca_candidate c) nodes)\<^sup>*) \<and>
    (\<forall>e\<in>set (gs_edges (ca_candidate c)). es_id e \<in> set (EntryEdges entry_edge entry_edges) \<or>
        (pr_node_id (es_from e) \<in> set nodes \<longleftrightarrow> pr_node_id (es_to e) \<in> set nodes)) \<and>
    gs_nodes (ca_candidate c') = filter (\<lambda>n. ns_id n \<notin> set nodes) (gs_nodes (ca_candidate c)) \<and>
    gs_edges (ca_candidate c') = filter (away (set nodes)) (gs_edges (ca_candidate c))"
proof -
  let ?g = "ca_candidate c" and ?es = "EntryEdges entry_edge entry_edges"
  obtain starts where s: "check_entries ?g nodes ?es = Inr starts" and r: "check_reached (branch_reach ?g nodes (rev starts) []) nodes = Inr ()"
    and deps: "FindSharedDependencies ?g nodes ?es = []" and rm: "fold_result (RemoveNodeWithEdges policy) nodes c = Inr c'"
    using assms(1) by (auto simp: RemoveBranch_def bind_result_Inr Let_def split: if_splits)
  have "\<exists>e\<in>set (gs_edges ?g). es_id e \<in> set ?es \<and> pr_node_id (es_from e) \<notin> set nodes \<and> (pr_node_id (es_to e), n) \<in> (sel_step ?g nodes)\<^sup>*"
    if "n \<in> set nodes" for n
  proof -
    have "n \<in> (sel_step ?g nodes)\<^sup>* `` set starts"
      using r that branch_reach_exact[of ?g nodes "rev starts"] by (auto simp: check_reached_Inr)
    then obtain st where st: "st \<in> set starts" "(st, n) \<in> (sel_step ?g nodes)\<^sup>*" by blast
    from bspec[OF check_entries_Inr[OF s] st(1)] st(2) show ?thesis by auto
  qed
  then show ?thesis using RemoveNodes_ok[OF rm assms(2)] deps unfolding FindSharedDependencies_Nil by blast
qed

definition sample_branch :: candidate_spec where
  "sample_branch = candidate_of sample_chain"

theorem remove_branch_exact_witness:
  "\<exists>c'. RemoveBranch ''e'' [''b'', ''c''] [] kDrain sample_branch = Inr c' \<and> gs_edges (ca_candidate c') = [] \<and>
     gs_nodes (ca_candidate c') = [sample_node ''a'']"
proof -
  have "case RemoveBranch ''e'' [''b'', ''c''] [] kDrain sample_branch of Inr c' \<Rightarrow> True | Inl _ \<Rightarrow> False" by code_simp
  then obtain c' where c': "RemoveBranch ''e'' [''b'', ''c''] [] kDrain sample_branch = Inr c'" by (auto split: sum.splits)
  from remove_branch_exact [OF c', of sample_chain] c' tracks_refl[OF sample_chain_wf] show ?thesis
    by (simp add: sample_branch_def candidate_of_def sample_chain_def sample_node_def sample_edge_def away_def)
qed

text \<open>C3. The change record of an applied patch is exact. The candidate is a well-formed graph whose node ids
  are those of the base without the removed ones plus the added ones, likewise its edges; whatever was not
  removed is unchanged, every removed node has its removal policy, and everything added or removed is
  reported as touched.\<close>

theorem patch_record_exact:
  assumes "Mutation_Apply R base patch = Inr c" and "gs_wf base"
  shows "tracks base c"
  using assms apply_actions_tracks tracks_refl by (auto simp: Mutation_Apply_def split: if_splits)

definition sample_bypass :: mutation_patch where
  "sample_bypass = Mutation_RemoveChain [''b''] True None MutationPatch_new"

theorem patch_record_exact_witness:
  "\<exists>c. Mutation_Apply (\<lambda>_. None) sample_chain sample_bypass = Inr c \<and> tracks sample_chain c \<and>
     ca_removed_nodes c = [''b''] \<and> ca_removed_edges c = [''f'', ''e''] \<and> ca_added_edges c = [''a.out->c.in'']"
proof -
  have "case Mutation_Apply (\<lambda>_. None) sample_chain sample_bypass of Inr c \<Rightarrow>
      ca_removed_nodes c = [''b''] \<and> ca_removed_edges c = [''f'', ''e''] \<and> ca_added_edges c = [''a.out->c.in''] | Inl _ \<Rightarrow> False" by code_simp
  then obtain c where c: "Mutation_Apply (\<lambda>_. None) sample_chain sample_bypass = Inr c"
    "ca_removed_nodes c = [''b'']" "ca_removed_edges c = [''f'', ''e'']" "ca_added_edges c = [''a.out->c.in'']"
    by (auto split: sum.splits)
  with patch_record_exact [OF c(1) sample_chain_wf] show ?thesis by blast
qed

lemma derived_id_invalid: "\<not> IsValidStableId (DeriveEdgeId f t)"
proof
  assume v: "IsValidStableId (DeriveEdgeId f t)"
  have "CHR ''>'' \<in> set (tl (DeriveEdgeId f t))" by (cases "pr_node_id f") (auto simp: DeriveEdgeId_def)
  moreover have "\<not> (is_alpha CHR ''>'' \<or> is_digit CHR ''>'')" by code_simp
  ultimately show False using v by (auto simp: IsValidStableId_def list_all_iff)
qed

lemma AddEdges_fail:
  assumes "e \<in> set es" and "\<And>c c'. AddEdgeTracked e c \<noteq> Inr c'"
  shows "fold_result AddEdgeTracked es c \<noteq> Inr c'"
  using assms by (induction es arbitrary: c) (auto simp: bind_result_Inr)

text \<open>C32. Replacing a node under a port mapping that renames the port of an outgoing edge fails when the edge
  has the id that was derived from its ports: the edge keeps the old id, which no longer names its ports.\<close>

theorem replace_renamed_derived_fails:
  assumes "e \<in> set (EdgesFrom (ca_candidate c) node)" and "pr_node_id (es_to e) \<noteq> node"
    and "es_id e = DeriveEdgeId (es_from e) (es_to e)"
    and "map_port R op mapping False (pr_port (es_from e)) = Inr q" and "q \<noteq> pr_port (es_from e)"
  shows "\<exists>s. ReplaceNode R node op options mapping policy c = Inl s"
proof (rule ccontr)
  assume "\<not> ?thesis"
  then obtain c' where "ReplaceNode R node op options mapping policy c = Inr c'" by (metis old.sum.exhaust)
  then obtain outgoing c3 where o: "map_result (map_outgoing (map_port R op mapping))
      (filter (\<lambda>e. pr_node_id (es_to e) \<noteq> node) (EdgesFrom (ca_candidate c) node)) = Inr outgoing"
    and f: "fold_result AddEdgeTracked outgoing c3 = Inr c'"
    by (auto simp: ReplaceNode_def bind_result_Inr Let_def split: option.splits)
  let ?e = "e\<lparr>es_from := (es_from e)\<lparr>pr_port := q\<rparr>\<rparr>"
  have out: "map_result g xs = Inr ys \<Longrightarrow> x \<in> set xs \<Longrightarrow> g x = Inr y \<Longrightarrow> y \<in> set ys" for g and xs ys :: "edge_spec list" and x y
    by (induction xs arbitrary: ys) (auto simp: bind_result_Inr)
  have "?e \<in> set outgoing"
    by (rule out[OF o, of e]) (use assms in \<open>auto simp: map_outgoing_def\<close>)
  moreover have "AddEdgeTracked ?e c \<noteq> Inr c'" for c c'
  proof -
    have "DeriveEdgeId (es_from ?e) (es_to ?e) \<noteq> es_id ?e" using assms(3,5) by (simp add: DeriveEdgeId_def)
    moreover have "edge_named ?e = ?e" using assms(3) by (simp add: edge_named_def)
    ultimately show ?thesis using assms(3) derived_id_invalid
      unfolding AddEdgeTracked_def edge_named_eq by (auto simp: bind_result_Inr AddEdge_Inr edge_ok_def Let_def)
  qed
  ultimately show False using AddEdges_fail f by blast
qed

definition derived_edge :: edge_spec where
  "derived_edge = sample_edge\<lparr>es_id := ''a.out->b.in''\<rparr>"

theorem replace_renamed_derived_fails_witness:
  "\<exists>s. ReplaceNode (\<lambda>_. None) ''a'' \<lparr>ok_type_name = ''Op2'', ok_semantic_version = ''1''\<rparr> (JObj [])
     (Some \<lparr>pm_inputs = [], pm_outputs = [(''out'', ''out2'')]\<rparr>) kDrain
     (candidate_of (sample_chain\<lparr>gs_edges := [derived_edge]\<rparr>)) = Inl s"
  by (rule replace_renamed_derived_fails [of derived_edge _ _ _ _ _ "''out2''"])
    (simp_all add: derived_edge_def sample_edge_def sample_chain_def EdgesFrom_def candidate_of_def DeriveEdgeId_def map_port_def)

end
