(* ===== verification/Graph_Diff.thy ===== *)
theory Graph_Diff
  imports Graph_Validator
begin

section \<open>Structural diff of two graphs\<close>

text \<open>
  \<open>GraphDiff\<close> (\<open>include/ge/cpp/graph_diff.h\<close>, \<open>src/graph_diff.cpp\<close>): the comparison of two graphs that decides
  which node runtimes and channels a new version carries over. The tables of entries are ordered maps of a
  change and a reason. The lemmas show that every class of the diff is exactly what the header describes, and
  that a graph does not differ from itself.
\<close>

subsection \<open>Entries\<close>

datatype NodeChange = Node_Kept | Node_Added | Node_Removed | Node_Replaced | Node_Updated

datatype EdgeChange = Edge_Kept | Edge_Added | Edge_Removed | Edge_Recreated

fun NodeChange_ToString :: "NodeChange \<Rightarrow> string" where
  "NodeChange_ToString Node_Kept = ''kept''"
| "NodeChange_ToString Node_Added = ''added''"
| "NodeChange_ToString Node_Removed = ''removed''"
| "NodeChange_ToString Node_Replaced = ''replaced''"
| "NodeChange_ToString Node_Updated = ''updated''"

fun EdgeChange_ToString :: "EdgeChange \<Rightarrow> string" where
  "EdgeChange_ToString Edge_Kept = ''kept''"
| "EdgeChange_ToString Edge_Added = ''added''"
| "EdgeChange_ToString Edge_Removed = ''removed''"
| "EdgeChange_ToString Edge_Recreated = ''recreated''"

record graph_diff =
  gd_nodes :: "(string \<times> NodeChange \<times> string) list"
  gd_edges :: "(string \<times> EdgeChange \<times> string) list"

type_synonym contracts = "(string \<times> connection_contract) list"

definition diff_Inputs :: "graph_spec \<Rightarrow> string \<Rightarrow> (string \<times> string) list" where
  "diff_Inputs spec node =
     fold (\<lambda>e m. if pr_node_id (es_to e) = node then om_put (pr_port (es_to e)) (es_id e) m else m) (gs_edges spec) []"

definition diff_Join :: "string list \<Rightarrow> string" where
  "diff_Join parts = fold (\<lambda>p out. out @ (if out = [] then [] else '', '') @ p) parts []"

subsection \<open>Comparison\<close>

definition replaced_nodes :: "graph_spec \<Rightarrow> graph_spec \<Rightarrow> string list" where
  "replaced_nodes base cand =
     map ns_id (filter (\<lambda>b. case FindNode cand (ns_id b) of Some c \<Rightarrow> ns_op b \<noteq> ns_op c | None \<Rightarrow> False) (gs_nodes base))"

definition contract_changed :: "contracts \<Rightarrow> contracts \<Rightarrow> string \<Rightarrow> bool" where
  "contract_changed bcs ccs i =
     (case (map_of bcs i, map_of ccs i) of (Some bc, Some cc) \<Rightarrow> \<not> SameDataPlane bc cc | _ \<Rightarrow> False)"

definition edge_why :: "string list \<Rightarrow> contracts \<Rightarrow> contracts \<Rightarrow> edge_spec \<Rightarrow> edge_spec \<Rightarrow> string list" where
  "edge_why replaced bcs ccs b c =
     (if es_from b \<noteq> es_from c \<or> es_to b \<noteq> es_to c then [''endpoints''] else []) @
     (if pr_node_id (es_from c) \<in> set replaced then [''producer replaced''] else []) @
     (if pr_node_id (es_to c) \<in> set replaced then [''consumer replaced''] else []) @
     (if es_queue b \<noteq> es_queue c then [''queue''] else []) @
     (if es_feedback b \<noteq> es_feedback c then [''feedback''] else []) @
     (if contract_changed bcs ccs (es_id b) then [''contract''] else [])"

definition edge_entry ::
  "string list \<Rightarrow> contracts \<Rightarrow> contracts \<Rightarrow> graph_spec \<Rightarrow> edge_spec \<Rightarrow> EdgeChange \<times> string" where
  "edge_entry replaced bcs ccs cand b =
     (case FindEdge cand (es_id b) of
        None \<Rightarrow> (Edge_Removed, [])
      | Some c \<Rightarrow>
          let why = edge_why replaced bcs ccs b c in
          if why = [] then (Edge_Kept, []) else (Edge_Recreated, diff_Join why))"

definition diff_edges ::
  "graph_spec \<Rightarrow> contracts \<Rightarrow> graph_spec \<Rightarrow> contracts \<Rightarrow> (string \<times> EdgeChange \<times> string) list" where
  "diff_edges base bcs cand ccs =
     fold (\<lambda>c m. if FindEdge base (es_id c) = None then om_put (es_id c) (Edge_Added, []) m else m) (gs_edges cand)
       (fold (\<lambda>b m. om_put (es_id b) (edge_entry (replaced_nodes base cand) bcs ccs cand b) m) (gs_edges base) [])"

definition input_why ::
  "(string \<times> EdgeChange \<times> string) list \<Rightarrow> (string \<times> string) list \<Rightarrow> (string \<times> string) list \<Rightarrow> string list" where
  "input_why edges bin cin =
     concat (map (\<lambda>(port, edge).
       case map_of bin port of
         None \<Rightarrow> [''input '' @ quoted port @ '' added'']
       | Some old \<Rightarrow>
           if old \<noteq> edge then [''input '' @ quoted port @ '' rewired'']
           else (case map_of edges edge of
                   Some (ch, _) \<Rightarrow> if ch = Edge_Recreated then [''input '' @ quoted port @ '' recreated''] else []
                 | None \<Rightarrow> [])) cin) @
     concat (map (\<lambda>(port, _). if map_of cin port = None then [''input '' @ quoted port @ '' removed''] else []) bin)"

definition node_entry ::
  "(string \<times> EdgeChange \<times> string) list \<Rightarrow> graph_spec \<Rightarrow> graph_spec \<Rightarrow> node_spec \<Rightarrow> NodeChange \<times> string" where
  "node_entry edges base cand b =
     (case FindNode cand (ns_id b) of
        None \<Rightarrow> (Node_Removed, [])
      | Some c \<Rightarrow>
          if ns_op b \<noteq> ns_op c then
            (Node_Replaced, OperatorKey_ToString (ns_op b) @ '' -> '' @ OperatorKey_ToString (ns_op c))
          else
            let why = (if ns_executor b \<noteq> ns_executor c then [''executor''] else []) @
                      (if ns_parallelism b \<noteq> ns_parallelism c then [''parallelism''] else []) @
                      input_why edges (diff_Inputs base (ns_id b)) (diff_Inputs cand (ns_id b)) in
            if why = [] then (Node_Kept, []) else (Node_Updated, diff_Join why))"

definition diff_nodes ::
  "(string \<times> EdgeChange \<times> string) list \<Rightarrow> graph_spec \<Rightarrow> graph_spec \<Rightarrow> (string \<times> NodeChange \<times> string) list" where
  "diff_nodes edges base cand =
     fold (\<lambda>c m. if FindNode base (ns_id c) = None then om_put (ns_id c) (Node_Added, []) m else m) (gs_nodes cand)
       (fold (\<lambda>b m. om_put (ns_id b) (node_entry edges base cand b) m) (gs_nodes base) [])"

definition GraphDiff_Compute :: "graph_spec \<Rightarrow> contracts \<Rightarrow> graph_spec \<Rightarrow> contracts \<Rightarrow> graph_diff" where
  "GraphDiff_Compute base bcs cand ccs =
     (let edges = diff_edges base bcs cand ccs in
      \<lparr>gd_nodes = diff_nodes edges base cand, gd_edges = edges\<rparr>)"

subsection \<open>Queries\<close>

definition Diff_Nodes :: "NodeChange \<Rightarrow> graph_diff \<Rightarrow> string list" where
  "Diff_Nodes c d = map fst (filter (\<lambda>(i, e). fst e = c) (gd_nodes d))"

definition Diff_Edges :: "EdgeChange \<Rightarrow> graph_diff \<Rightarrow> string list" where
  "Diff_Edges c d = map fst (filter (\<lambda>(i, e). fst e = c) (gd_edges d))"

definition ReusedNodes :: "graph_diff \<Rightarrow> string set" where
  "ReusedNodes d = fst ` set (filter (\<lambda>(i, e). fst e = Node_Kept \<or> fst e = Node_Updated) (gd_nodes d))"

definition ReusedEdges :: "graph_diff \<Rightarrow> string set" where
  "ReusedEdges d = fst ` set (filter (\<lambda>(i, e). fst e = Edge_Kept) (gd_edges d))"

definition Diff_Empty :: "graph_diff \<Rightarrow> bool" where
  "Diff_Empty d \<longleftrightarrow> list_all (\<lambda>(i, e). fst e = Node_Kept) (gd_nodes d) \<and> list_all (\<lambda>(i, e). fst e = Edge_Kept) (gd_edges d)"

definition change_json :: "string \<Rightarrow> string \<Rightarrow> json" where
  "change_json change reason =
     json_members [Some (''change'', JStr change), if reason \<noteq> [] then Some (''reason'', JStr reason) else None]"

definition Diff_ToJson :: "graph_diff \<Rightarrow> json" where
  "Diff_ToJson d = json_members
     [Some (''nodes'', json_members (map (\<lambda>(i, ch, why).
         if ch = Node_Kept then None else Some (i, change_json (NodeChange_ToString ch) why)) (gd_nodes d))),
      Some (''edges'', json_members (map (\<lambda>(i, ch, why).
         if ch = Edge_Kept then None else Some (i, change_json (EdgeChange_ToString ch) why)) (gd_edges d)))]"

subsection \<open>The classification is exact\<close>

text \<open>One pass per side over an ordered map: entries of \<open>bs\<close> first, then the new ids of \<open>cs\<close>.\<close>

lemma two_pass:
  fixes f :: "'b \<Rightarrow> 'k::linorder" and g :: "'c \<Rightarrow> 'k" and h :: "'b \<Rightarrow> 'v" and v :: 'v
  assumes "distinct (map f bs)" and "\<forall>c\<in>set cs. new c \<longleftrightarrow> g c \<notin> f ` set bs"
  defines "m \<equiv> fold (\<lambda>c m. if new c then om_put (g c) v m else m) cs (fold (\<lambda>b m. om_put (f b) (h b) m) bs [])"
  shows "om_wf m \<and> map_of m k =
    (if k \<in> f ` set bs then Some (h (THE b. b \<in> set bs \<and> f b = k)) else if k \<in> g ` set cs then Some v else None)"
proof -
  have one: "om_wf (fold (\<lambda>b m. om_put (f b) (h b) m) xs m0) \<and>
      (\<forall>b\<in>set xs. map_of (fold (\<lambda>b m. om_put (f b) (h b) m) xs m0) (f b) = Some (h b)) \<and>
      (k \<notin> f ` set xs \<longrightarrow> map_of (fold (\<lambda>b m. om_put (f b) (h b) m) xs m0) k = map_of m0 k)"
    if "om_wf m0" "distinct (map f xs)" for xs m0 k
    using that by (induction xs rule: rev_induct) (auto, (metis imageI)+)
  have two: "om_wf (fold (\<lambda>c m. if new c then om_put (g c) v m else m) xs m0) \<and>
      map_of (fold (\<lambda>c m. if new c then om_put (g c) v m else m) xs m0) k =
      (if k \<in> g ` {c \<in> set xs. new c} then Some v else map_of m0 k)" if "om_wf m0" for xs m0 k
    using that by (induction xs arbitrary: m0) auto
  let ?m0 = "fold (\<lambda>b m. om_put (f b) (h b) m) bs []"
  have m0: "om_wf ?m0" using one[of "[]" bs] assms(1) by simp
  note m = two[OF m0, of cs k, folded m_def]
  show ?thesis
  proof (cases "k \<in> f ` set bs")
    case True
    then obtain b where b: "b \<in> set bs" "f b = k" by auto
    have "(THE b. b \<in> set bs \<and> f b = k) = b" using b assms(1) by (auto simp: distinct_map inj_on_def)
    moreover have "map_of ?m0 k = Some (h b)" using one[of "[]" bs] assms(1) b by auto
    moreover have "k \<notin> g ` {c \<in> set cs. new c}" using True assms(2) by blast
    ultimately show ?thesis using m True by simp
  next
    case False
    then have "map_of ?m0 k = None" using one[of "[]" bs k] assms(1) by simp
    moreover have "k \<in> g ` {c \<in> set cs. new c} \<longleftrightarrow> k \<in> g ` set cs" using False assms(2) by blast
    ultimately show ?thesis using m False by simp
  qed
qed

lemma the_edge: "gs_wf g \<Longrightarrow> e \<in> set (gs_edges g) \<Longrightarrow> (THE b. b \<in> set (gs_edges g) \<and> es_id b = es_id e) = e"
  by (auto simp: gs_wf_def distinct_map inj_on_def)

lemma the_node: "gs_wf g \<Longrightarrow> n \<in> set (gs_nodes g) \<Longrightarrow> (THE b. b \<in> set (gs_nodes g) \<and> ns_id b = ns_id n) = n"
  by (auto simp: gs_wf_def distinct_map inj_on_def)

lemma diff_edges_lookup:
  assumes "gs_wf base"
  shows "om_wf (diff_edges base bcs cand ccs) \<and>
    (\<forall>b\<in>set (gs_edges base). map_of (diff_edges base bcs cand ccs) (es_id b) =
       Some (edge_entry (replaced_nodes base cand) bcs ccs cand b)) \<and>
    (\<forall>i. i \<notin> edge_ids base \<longrightarrow> map_of (diff_edges base bcs cand ccs) i =
       (if i \<in> edge_ids cand then Some (Edge_Added, []) else None))"
proof -
  have d: "distinct (map es_id (gs_edges base))" using assms by (simp add: gs_wf_def)
  have new: "\<forall>c\<in>set (gs_edges cand). FindEdge base (es_id c) = None \<longleftrightarrow> es_id c \<notin> es_id ` set (gs_edges base)"
    by (simp add: edge_ids_def)
  note t = two_pass[OF d new, of "(Edge_Added, [])" "edge_entry (replaced_nodes base cand) bcs ccs cand", folded diff_edges_def]
  show ?thesis using t the_edge[OF assms] by (auto simp: edge_ids_def)
qed

lemma diff_nodes_lookup:
  assumes "gs_wf base"
  shows "om_wf (diff_nodes edges base cand) \<and>
    (\<forall>b\<in>set (gs_nodes base). map_of (diff_nodes edges base cand) (ns_id b) = Some (node_entry edges base cand b)) \<and>
    (\<forall>i. i \<notin> node_ids base \<longrightarrow> map_of (diff_nodes edges base cand) i =
       (if i \<in> node_ids cand then Some (Node_Added, []) else None))"
proof -
  have d: "distinct (map ns_id (gs_nodes base))" using assms by (simp add: gs_wf_def)
  have new: "\<forall>c\<in>set (gs_nodes cand). FindNode base (ns_id c) = None \<longleftrightarrow> ns_id c \<notin> ns_id ` set (gs_nodes base)"
    by (simp add: node_ids_def)
  note t = two_pass[OF d new, of "(Node_Added, [])" "node_entry edges base cand", folded diff_nodes_def]
  show ?thesis using t the_node[OF assms] by (auto simp: node_ids_def)
qed

lemma replaced_iff:
  assumes "gs_wf base"
  shows "x \<in> set (replaced_nodes base cand) \<longleftrightarrow>
    (\<exists>b c. FindNode base x = Some b \<and> FindNode cand x = Some c \<and> ns_op b \<noteq> ns_op c)"
proof -
  have d: "distinct (map ns_id (gs_nodes base))" using assms by (simp add: gs_wf_def)
  show ?thesis unfolding replaced_nodes_def
    by (auto simp: FindNode_def nt.lookup_Some_iff[OF d] simp del: FindNode_None split: option.splits)
qed

definition edge_reusable :: "graph_spec \<Rightarrow> contracts \<Rightarrow> graph_spec \<Rightarrow> contracts \<Rightarrow> string \<Rightarrow> bool" where
  "edge_reusable base bcs cand ccs i \<longleftrightarrow>
     (\<exists>b c. FindEdge base i = Some b \<and> FindEdge cand i = Some c \<and> es_from b = es_from c \<and> es_to b = es_to c \<and>
        es_queue b = es_queue c \<and> es_feedback b = es_feedback c \<and> \<not> contract_changed bcs ccs i \<and>
        (\<forall>x\<in>{pr_node_id (es_from c), pr_node_id (es_to c)}. \<forall>m n. FindNode base x = Some m \<longrightarrow> FindNode cand x = Some n \<longrightarrow>
           ns_op m = ns_op n))"

lemma edge_why_Nil:
  assumes "gs_wf base" and "es_id b = i"
  shows "edge_why (replaced_nodes base cand) bcs ccs b c = [] \<longleftrightarrow>
    es_from b = es_from c \<and> es_to b = es_to c \<and> es_queue b = es_queue c \<and> es_feedback b = es_feedback c \<and>
    \<not> contract_changed bcs ccs i \<and>
    (\<forall>x\<in>{pr_node_id (es_from c), pr_node_id (es_to c)}. \<forall>m n. FindNode base x = Some m \<longrightarrow> FindNode cand x = Some n \<longrightarrow>
           ns_op m = ns_op n)"
  using assms(2) by (auto simp: edge_why_def replaced_iff[OF assms(1)])

lemma Diff_Nodes_iff: "om_wf (gd_nodes d) \<Longrightarrow> i \<in> set (Diff_Nodes c d) \<longleftrightarrow> map_option fst (map_of (gd_nodes d) i) = Some c"
  by (force simp: Diff_Nodes_def om_wf_map_of_iff)

lemma Diff_Edges_iff: "om_wf (gd_edges d) \<Longrightarrow> i \<in> set (Diff_Edges c d) \<longleftrightarrow> map_option fst (map_of (gd_edges d) i) = Some c"
  by (force simp: Diff_Edges_def om_wf_map_of_iff)

lemma ReusedNodes_eq: "ReusedNodes d = set (Diff_Nodes Node_Kept d) \<union> set (Diff_Nodes Node_Updated d)"
  by (force simp: ReusedNodes_def Diff_Nodes_def)

lemma ReusedEdges_eq: "ReusedEdges d = set (Diff_Edges Edge_Kept d)"
  by (simp add: ReusedEdges_def Diff_Edges_def)

lemma FindEdge_wf: "gs_wf g \<Longrightarrow> FindEdge g i = Some e \<longleftrightarrow> e \<in> set (gs_edges g) \<and> es_id e = i"
  by (simp add: FindEdge_def gs_wf_def et.lookup_Some_iff)

lemma FindNode_wf: "gs_wf g \<Longrightarrow> FindNode g i = Some n \<longleftrightarrow> n \<in> set (gs_nodes g) \<and> ns_id n = i"
  by (simp add: FindNode_def gs_wf_def nt.lookup_Some_iff)

lemma diff_edges_change:
  assumes "gs_wf base"
  shows "map_option fst (map_of (diff_edges base bcs cand ccs) i) =
    (case (FindEdge base i, FindEdge cand i) of
       (None, None) \<Rightarrow> None | (None, Some _) \<Rightarrow> Some Edge_Added | (Some _, None) \<Rightarrow> Some Edge_Removed
     | (Some b, Some c) \<Rightarrow> Some (if edge_why (replaced_nodes base cand) bcs ccs b c = [] then Edge_Kept else Edge_Recreated))"
proof (cases "FindEdge base i")
  case None
  then have "i \<notin> edge_ids base" by simp
  then show ?thesis using diff_edges_lookup[OF assms, of bcs cand ccs] None
    by (cases "FindEdge cand i") (auto simp: FindEdge_None[symmetric] simp del: FindEdge_None)
next
  case (Some b)
  then have b: "b \<in> set (gs_edges base)" "es_id b = i" by (simp_all add: FindEdge_wf[OF assms])
  then show ?thesis using diff_edges_lookup[OF assms, of bcs cand ccs] Some
    by (cases "FindEdge cand i") (auto simp: edge_entry_def Let_def simp del: FindEdge_None)
qed

lemma diff_nodes_change:
  assumes "gs_wf base"
  shows "map_option fst (map_of (diff_nodes edges base cand) i) =
    (case (FindNode base i, FindNode cand i) of
       (None, None) \<Rightarrow> None | (None, Some _) \<Rightarrow> Some Node_Added | (Some _, None) \<Rightarrow> Some Node_Removed
     | (Some b, Some c) \<Rightarrow> Some (if ns_op b \<noteq> ns_op c then Node_Replaced else fst (node_entry edges base cand b)))"
proof (cases "FindNode base i")
  case None
  then have "i \<notin> node_ids base" by simp
  then show ?thesis using diff_nodes_lookup[OF assms, of edges cand] None
    by (cases "FindNode cand i") (auto simp: FindNode_None[symmetric] simp del: FindNode_None)
next
  case (Some b)
  then have b: "b \<in> set (gs_nodes base)" "ns_id b = i" by (simp_all add: FindNode_wf[OF assms])
  then show ?thesis using diff_nodes_lookup[OF assms, of edges cand] Some
    by (cases "FindNode cand i") (auto simp: node_entry_def Let_def simp del: FindNode_None)
qed

lemma diff_Inputs_wf: "om_wf (diff_Inputs spec node)"
proof -
  have "om_wf (fold (\<lambda>e m. if pr_node_id (es_to e) = node then om_put (pr_port (es_to e)) (es_id e) m else m) es m)"
    if "om_wf m" for es m
    using that by (induction es arbitrary: m) auto
  from this[OF om_wf_Nil] show ?thesis unfolding diff_Inputs_def .
qed

text \<open>The inputs of a node are untouched when the same ports read the same edges and none of them was recreated.\<close>

lemma input_why_Nil:
  assumes "om_wf bin" "om_wf cin"
  shows "input_why edges bin cin = [] \<longleftrightarrow>
    bin = cin \<and> (\<forall>e\<in>snd ` set cin. map_option fst (map_of edges e) \<noteq> Some Edge_Recreated)"
proof -
  have one: "(case map_of bin port of None \<Rightarrow> [''input '' @ quoted port @ '' added'']
       | Some old \<Rightarrow>
           if old \<noteq> e then [''input '' @ quoted port @ '' rewired'']
           else (case map_of edges e of
                   Some (ch, _) \<Rightarrow> if ch = Edge_Recreated then [''input '' @ quoted port @ '' recreated''] else []
                 | None \<Rightarrow> [])) = [] \<longleftrightarrow>
      map_of bin port = Some e \<and> map_option fst (map_of edges e) \<noteq> Some Edge_Recreated" for port e
    by (cases "map_of bin port"; cases "map_of edges e") (auto split: prod.split)
  have if_Nil: "(if P then [x] else []) = [] \<longleftrightarrow> \<not> P" for P and x :: string by simp
  have "input_why edges bin cin = [] \<longleftrightarrow>
      (\<forall>(port, e)\<in>set cin. map_of bin port = Some e \<and> map_option fst (map_of edges e) \<noteq> Some Edge_Recreated) \<and>
      (\<forall>(port, e)\<in>set bin. map_of cin port \<noteq> None)"
    unfolding input_why_def append_is_Nil_conv concat_eq_Nil_conv set_map ball_simps split_beta one if_Nil by blast
  also have "\<dots> \<longleftrightarrow> map_of bin = map_of cin \<and> (\<forall>e\<in>snd ` set cin. map_option fst (map_of edges e) \<noteq> Some Edge_Recreated)"
  proof -
    have "map_of bin = map_of cin"
      if c: "\<forall>(port, e)\<in>set cin. map_of bin port = Some e" and b: "\<forall>(port, e)\<in>set bin. map_of cin port \<noteq> None"
    proof
      fix k
      show "map_of bin k = map_of cin k"
      proof (cases "map_of cin k")
        case None
        then show ?thesis using b by (cases "map_of bin k") (fastforce dest: map_of_SomeD)+
      next
        case (Some e)
        then show ?thesis using c by (fastforce dest: map_of_SomeD)
      qed
    qed
    moreover have "map_of bin p = Some e" if "map_of bin = map_of cin" "(p, e) \<in> set cin" for p e
      using that om_wf_map_of_iff[OF assms(2)] by simp
    moreover have "map_of cin p = Some e" if "map_of bin = map_of cin" "(p, e) \<in> set bin" for p e
      using that om_wf_map_of_iff[OF assms(1), of p e] by simp
    ultimately show ?thesis by fastforce
  qed
  also have "map_of bin = map_of cin \<longleftrightarrow> bin = cin" using om_eqI[OF assms] by auto
  finally show ?thesis .
qed

lemma node_entry_kind:
  assumes "FindNode cand (ns_id b) = Some c" "ns_op b = ns_op c"
  shows "fst (node_entry edges base cand b) = (if ns_executor b = ns_executor c \<and> ns_parallelism b = ns_parallelism c \<and>
      diff_Inputs base (ns_id b) = diff_Inputs cand (ns_id b) \<and>
      (\<forall>e\<in>snd ` set (diff_Inputs cand (ns_id b)). map_option fst (map_of edges e) \<noteq> Some Edge_Recreated)
    then Node_Kept else Node_Updated)"
  using assms input_why_Nil[OF diff_Inputs_wf diff_Inputs_wf, of edges base "ns_id b" cand]
  by (simp add: node_entry_def Let_def)

lemma edge_ids_Find: "i \<in> edge_ids g \<longleftrightarrow> (\<exists>e. FindEdge g i = Some e)"
  by (simp del: not_None_eq add: not_None_eq[symmetric])

lemma node_ids_Find: "i \<in> node_ids g \<longleftrightarrow> (\<exists>n. FindNode g i = Some n)"
  by (simp del: not_None_eq add: not_None_eq[symmetric])

lemma reusable_iff:
  assumes "gs_wf base"
  shows "edge_reusable base bcs cand ccs i \<longleftrightarrow> (\<exists>b c. FindEdge base i = Some b \<and> FindEdge cand i = Some c \<and>
      edge_why (replaced_nodes base cand) bcs ccs b c = [])"
  unfolding edge_reusable_def
  by (intro arg_cong[where f = Ex] ext conj_cong refl)
    (rule edge_why_Nil[OF assms, symmetric], simp add: FindEdge_wf[OF assms])

lemma Compute_wf:
  assumes "gs_wf base"
  shows "om_wf (gd_edges (GraphDiff_Compute base bcs cand ccs))" "om_wf (gd_nodes (GraphDiff_Compute base bcs cand ccs))"
  using diff_edges_lookup[OF assms] diff_nodes_lookup[OF assms] by (simp_all add: GraphDiff_Compute_def Let_def)

lemma edge_classes:
  fixes base cand :: graph_spec and bcs ccs :: contracts
  assumes wf: "gs_wf base"
  defines "d \<equiv> GraphDiff_Compute base bcs cand ccs"
  shows "set (Diff_Edges Edge_Added d) = edge_ids cand - edge_ids base"
    "set (Diff_Edges Edge_Removed d) = edge_ids base - edge_ids cand"
    "set (Diff_Edges Edge_Kept d) = {i. edge_reusable base bcs cand ccs i}"
    "set (Diff_Edges Edge_Recreated d) = edge_ids base \<inter> edge_ids cand - {i. edge_reusable base bcs cand ccs i}"
proof -
  have key: "i \<in> set (Diff_Edges c d) \<longleftrightarrow> map_option fst (map_of (diff_edges base bcs cand ccs) i) = Some c" for i c
    using Diff_Edges_iff[OF Compute_wf(1)[OF wf, of bcs cand ccs]] by (simp add: d_def GraphDiff_Compute_def Let_def)
  have "(i \<in> set (Diff_Edges Edge_Added d) \<longleftrightarrow> i \<in> edge_ids cand - edge_ids base) \<and>
      (i \<in> set (Diff_Edges Edge_Removed d) \<longleftrightarrow> i \<in> edge_ids base - edge_ids cand) \<and>
      (i \<in> set (Diff_Edges Edge_Kept d) \<longleftrightarrow> edge_reusable base bcs cand ccs i) \<and>
      (i \<in> set (Diff_Edges Edge_Recreated d) \<longleftrightarrow>
        i \<in> edge_ids base \<inter> edge_ids cand \<and> \<not> edge_reusable base bcs cand ccs i)" for i
    unfolding key diff_edges_change[OF wf] reusable_iff[OF wf] Diff_iff Int_iff edge_ids_Find
    by (cases "FindEdge base i"; cases "FindEdge cand i") (auto simp del: FindEdge_None)
  then show "set (Diff_Edges Edge_Added d) = edge_ids cand - edge_ids base"
    "set (Diff_Edges Edge_Removed d) = edge_ids base - edge_ids cand"
    "set (Diff_Edges Edge_Kept d) = {i. edge_reusable base bcs cand ccs i}"
    "set (Diff_Edges Edge_Recreated d) = edge_ids base \<inter> edge_ids cand - {i. edge_reusable base bcs cand ccs i}"
    by blast+
qed

definition same_node :: "graph_spec \<Rightarrow> graph_spec \<Rightarrow> (node_spec \<Rightarrow> node_spec \<Rightarrow> bool) \<Rightarrow> string \<Rightarrow> bool" where
  "same_node base cand P i \<longleftrightarrow> (\<exists>b c. FindNode base i = Some b \<and> FindNode cand i = Some c \<and> P b c)"

lemma node_classes:
  fixes base cand :: graph_spec and bcs ccs :: contracts
  assumes wf: "gs_wf base"
  defines "d \<equiv> GraphDiff_Compute base bcs cand ccs"
  shows "set (Diff_Nodes Node_Added d) = node_ids cand - node_ids base"
    "set (Diff_Nodes Node_Removed d) = node_ids base - node_ids cand"
    "set (Diff_Nodes Node_Replaced d) = {i. same_node base cand (\<lambda>b c. ns_op b \<noteq> ns_op c) i}"
    "ReusedNodes d = {i. same_node base cand (\<lambda>b c. ns_op b = ns_op c) i}"
    "set (Diff_Nodes Node_Kept d) = {i. same_node base cand (\<lambda>b c. ns_op b = ns_op c \<and> ns_executor b = ns_executor c \<and>
        ns_parallelism b = ns_parallelism c) i \<and> diff_Inputs base i = diff_Inputs cand i \<and>
        snd ` set (diff_Inputs cand i) \<inter> set (Diff_Edges Edge_Recreated d) = {}}"
proof -
  let ?E = "diff_edges base bcs cand ccs"
  have key: "i \<in> set (Diff_Nodes c d) \<longleftrightarrow> map_option fst (map_of (diff_nodes ?E base cand) i) = Some c" for i c
    using Diff_Nodes_iff[OF Compute_wf(2)[OF wf, of bcs cand ccs]] by (simp add: d_def GraphDiff_Compute_def Let_def)
  have ekey: "i \<in> set (Diff_Edges c d) \<longleftrightarrow> map_option fst (map_of ?E i) = Some c" for i c
    using Diff_Edges_iff[OF Compute_wf(1)[OF wf, of bcs cand ccs]] by (simp add: d_def GraphDiff_Compute_def Let_def)
  have kind: "fst (node_entry ?E base cand b) = (if ns_executor b = ns_executor c \<and> ns_parallelism b = ns_parallelism c \<and>
      diff_Inputs base i = diff_Inputs cand i \<and> snd ` set (diff_Inputs cand i) \<inter> set (Diff_Edges Edge_Recreated d) = {}
      then Node_Kept else Node_Updated)"
    if "FindNode base i = Some b" "FindNode cand i = Some c" "ns_op b = ns_op c" for i b c
    using that node_entry_kind[of cand b c ?E base] by (auto simp: FindNode_wf[OF wf] ekey)
  have "(i \<in> set (Diff_Nodes Node_Added d) \<longleftrightarrow> i \<in> node_ids cand - node_ids base) \<and>
      (i \<in> set (Diff_Nodes Node_Removed d) \<longleftrightarrow> i \<in> node_ids base - node_ids cand) \<and>
      (i \<in> set (Diff_Nodes Node_Replaced d) \<longleftrightarrow> same_node base cand (\<lambda>b c. ns_op b \<noteq> ns_op c) i) \<and>
      (i \<in> set (Diff_Nodes Node_Kept d) \<or> i \<in> set (Diff_Nodes Node_Updated d) \<longleftrightarrow> same_node base cand (\<lambda>b c. ns_op b = ns_op c) i) \<and>
      (i \<in> set (Diff_Nodes Node_Kept d) \<longleftrightarrow> same_node base cand (\<lambda>b c. ns_op b = ns_op c \<and> ns_executor b = ns_executor c \<and>
        ns_parallelism b = ns_parallelism c) i \<and> diff_Inputs base i = diff_Inputs cand i \<and>
        snd ` set (diff_Inputs cand i) \<inter> set (Diff_Edges Edge_Recreated d) = {})" for i
    unfolding key diff_nodes_change[OF wf] same_node_def Diff_iff node_ids_Find using kind[of i]
    by (cases "FindNode base i"; cases "FindNode cand i") (auto simp del: FindNode_None)
  then show "set (Diff_Nodes Node_Added d) = node_ids cand - node_ids base"
    "set (Diff_Nodes Node_Removed d) = node_ids base - node_ids cand"
    "set (Diff_Nodes Node_Replaced d) = {i. same_node base cand (\<lambda>b c. ns_op b \<noteq> ns_op c) i}"
    "ReusedNodes d = {i. same_node base cand (\<lambda>b c. ns_op b = ns_op c) i}"
    "set (Diff_Nodes Node_Kept d) = {i. same_node base cand (\<lambda>b c. ns_op b = ns_op c \<and> ns_executor b = ns_executor c \<and>
        ns_parallelism b = ns_parallelism c) i \<and> diff_Inputs base i = diff_Inputs cand i \<and>
        snd ` set (diff_Inputs cand i) \<inter> set (Diff_Edges Edge_Recreated d) = {}}"
    unfolding ReusedNodes_eq by blast+
qed


definition sample_replaced :: graph_spec where
  "sample_replaced = sample_chain\<lparr>gs_nodes := [sample_node ''a'', (sample_node ''b'')\<lparr>ns_op :=
     \<lparr>ok_type_name = ''Other'', ok_semantic_version = ''2''\<rparr>\<rparr>, sample_node ''c'']\<rparr>"


lemma self_classes:
  fixes g :: graph_spec and cs :: contracts
  assumes wf: "gs_wf g"
  defines "d \<equiv> GraphDiff_Compute g cs g cs"
  shows "set (Diff_Edges c d) = (if c = Edge_Kept then edge_ids g else {})"
    and "set (Diff_Nodes k d) = (if k = Node_Kept then node_ids g else {})"
proof -
  have re: "edge_reusable g cs g cs i \<longleftrightarrow> i \<in> edge_ids g" for i
    by (auto simp: edge_reusable_def edge_ids_Find contract_changed_def SameDataPlane_def split: option.split)
  have same: "same_node g g P i \<longleftrightarrow> i \<in> node_ids g \<and> (\<exists>b. FindNode g i = Some b \<and> P b b)" for P i
    by (auto simp: same_node_def node_ids_Find)
  have nodes: "(\<exists>b. FindNode g i = Some b) \<longleftrightarrow> i \<in> node_ids g" for i by (simp add: node_ids_Find)
  note e = edge_classes[OF wf, of cs g cs, folded d_def] and n = node_classes[OF wf, of cs g cs, folded d_def]
  show E: "set (Diff_Edges c d) = (if c = Edge_Kept then edge_ids g else {})" for c
    by (cases c) (simp_all add: e re)
  have kept: "set (Diff_Nodes Node_Kept d) = node_ids g" unfolding n(5) same E by (auto simp: nodes)
  have "set (Diff_Nodes Node_Updated d) \<subseteq> ReusedNodes d" by (simp add: ReusedNodes_eq)
  also have "ReusedNodes d \<subseteq> node_ids g" unfolding n(4) same by blast
  finally have sub: "set (Diff_Nodes Node_Updated d) \<subseteq> set (Diff_Nodes Node_Kept d)" by (simp add: kept)
  have "x \<notin> set (Diff_Nodes Node_Updated d)" for x
    using subsetD[OF sub, of x] by (auto simp: Diff_Nodes_iff[OF Compute_wf(2)[OF wf, of cs g cs, folded d_def]])
  then have "set (Diff_Nodes Node_Updated d) = {}" by (simp add: set_eq_iff)
  then show "set (Diff_Nodes k d) = (if k = Node_Kept then node_ids g else {})"
    by (cases k) (auto simp: n(1-3) same kept)
qed

lemma Diff_members:
  "(i, ch, why) \<in> set (gd_nodes d) \<Longrightarrow> i \<in> set (Diff_Nodes ch d)" "(i, k, why) \<in> set (gd_edges d) \<Longrightarrow> i \<in> set (Diff_Edges k d)"
  by (force simp: Diff_Nodes_def Diff_Edges_def)+

lemma emplace_all_None: "\<forall>m\<in>set ms. m = None \<Longrightarrow> emplace_all ms acc = acc"
  unfolding emplace_all_def by (induction ms arbitrary: acc) auto



end
