(* ===== verification/Resource_Ledger.thy ===== *)
theory Resource_Ledger
  imports Graph_Validator
begin

section \<open>Resource ledger\<close>

text \<open>
  The resource ledger of \<open>include/ge/cpp/resource_ledger.h\<close> and \<open>src/resource_ledger.cpp\<close>: accounts per
  resource kind and device with a capacity, a reservation and a peak; leases that reserve, commit and release
  amounts; the estimates of packets, nodes and graphs that admission reserves. Amounts are 64-bit, with the
  wrap-around written out. An account key is ordered by the enumeration of kinds and then by the device. The
  lemmas give the exact effect of every operation while sums stay below \<open>2 ^ 64\<close>, and an invariant of all runs
  over the locale \<open>invariant_system\<close>.
\<close>

subsection \<open>Kinds and amounts\<close>

datatype ResourceKind =
  kCpuThreads | kHostMemory | kPinnedMemory | kGpuMemory | kCudaStreams | kNvdecSessions | kNvencSessions
  | kEdgeBufferBytes

text \<open>The order of the enumeration.\<close>

fun kind_number :: "ResourceKind \<Rightarrow> nat" where
  "kind_number kCpuThreads = 0"
| "kind_number kHostMemory = 1"
| "kind_number kPinnedMemory = 2"
| "kind_number kGpuMemory = 3"
| "kind_number kCudaStreams = 4"
| "kind_number kNvdecSessions = 5"
| "kind_number kNvencSessions = 6"
| "kind_number kEdgeBufferBytes = 7"

lemma kind_number_inj [simp]: "kind_number a = kind_number b \<longleftrightarrow> a = b"
  by (cases a; cases b) simp_all

datatype resource_key = Key (key_kind: ResourceKind) (key_device: int)

instantiation resource_key :: linorder
begin

definition less_eq_resource_key :: "resource_key \<Rightarrow> resource_key \<Rightarrow> bool" where
  "less_eq_resource_key a b \<longleftrightarrow> kind_number (key_kind a) < kind_number (key_kind b) \<or>
     key_kind a = key_kind b \<and> key_device a \<le> key_device b"

definition less_resource_key :: "resource_key \<Rightarrow> resource_key \<Rightarrow> bool" where
  "less_resource_key a b \<longleftrightarrow> kind_number (key_kind a) < kind_number (key_kind b) \<or>
     key_kind a = key_kind b \<and> key_device a < key_device b"

instance
proof
  fix a b c :: resource_key
  show "a < b \<longleftrightarrow> a \<le> b \<and> \<not> b \<le> a" by (auto simp: less_resource_key_def less_eq_resource_key_def)
  show "a \<le> a" by (simp add: less_eq_resource_key_def)
  show "a \<le> b \<Longrightarrow> b \<le> c \<Longrightarrow> a \<le> c" by (auto simp: less_eq_resource_key_def)
  show "a \<le> b \<Longrightarrow> b \<le> a \<Longrightarrow> a = b" by (cases a; cases b) (auto simp: less_eq_resource_key_def)
  show "a \<le> b \<or> b \<le> a"
    using kind_number_inj [of "key_kind a" "key_kind b"] by (auto simp: less_eq_resource_key_def)
qed

end

fun ResourceKind_ToString :: "ResourceKind \<Rightarrow> string" where
  "ResourceKind_ToString kCpuThreads = ''cpu_threads''"
| "ResourceKind_ToString kHostMemory = ''host_memory''"
| "ResourceKind_ToString kPinnedMemory = ''pinned_memory''"
| "ResourceKind_ToString kGpuMemory = ''gpu_memory''"
| "ResourceKind_ToString kCudaStreams = ''cuda_streams''"
| "ResourceKind_ToString kNvdecSessions = ''nvdec_sessions''"
| "ResourceKind_ToString kNvencSessions = ''nvenc_sessions''"
| "ResourceKind_ToString kEdgeBufferBytes = ''edge_buffer_bytes''"

definition ParseResourceKind :: "string \<Rightarrow> ResourceKind option" where
  "ParseResourceKind name0 =
     (let name = (if length name0 > 6 \<and> drop (length name0 - 6) name0 = ''_bytes'' \<and> name0 \<noteq> ''edge_buffer_bytes''
                  then take (length name0 - 6) name0 else name0) in
      if name = ''cpu_threads'' then Some kCpuThreads
      else if name = ''host_memory'' then Some kHostMemory
      else if name = ''pinned_memory'' then Some kPinnedMemory
      else if name = ''gpu_memory'' then Some kGpuMemory
      else if name = ''cuda_streams'' then Some kCudaStreams
      else if name = ''nvdec_sessions'' then Some kNvdecSessions
      else if name = ''nvenc_sessions'' then Some kNvencSessions
      else if name = ''edge_buffer_bytes'' \<or> name = ''edge_buffer'' then Some kEdgeBufferBytes
      else None)"

fun IsPerDevice :: "ResourceKind \<Rightarrow> bool" where
  "IsPerDevice kGpuMemory = True"
| "IsPerDevice kCudaStreams = True"
| "IsPerDevice kNvdecSessions = True"
| "IsPerDevice kNvencSessions = True"
| "IsPerDevice _ = False"

record resource_amount =
  ra_key :: resource_key
  ra_amount :: nat

definition merge_step :: "resource_amount \<Rightarrow> resource_amount list \<Rightarrow> resource_amount list" where
  "merge_step a out =
     (if ra_amount a = 0 then out
      else if out \<noteq> [] \<and> ra_key (last out) = ra_key a
      then butlast out @ [(last out)\<lparr>ra_amount := u64 (ra_amount (last out) + ra_amount a)\<rparr>]
      else out @ [a])"

definition MergeAmounts :: "resource_amount list \<Rightarrow> resource_amount list" where
  "MergeAmounts amounts = fold merge_step (sort_key ra_key amounts) []"

subsection \<open>The ledger\<close>

record account =
  ac_capacity :: "nat option"
  ac_reserved :: nat
  ac_peak :: nat

record resource_ledger =
  rl_accounts :: "(resource_key \<times> account) list"
  rl_next_lease :: nat
  rl_live_leases :: nat

record resource_lease =
  le_active :: bool
  le_id :: nat
  le_owner :: nat
  le_amounts :: "resource_amount list"

record resource_usage =
  ru_key :: resource_key
  ru_capacity :: nat
  ru_reserved :: nat
  ru_peak :: nat

definition new_account :: account where
  "new_account = \<lparr>ac_capacity = None, ac_reserved = 0, ac_peak = 0\<rparr>"

definition account_of :: "(resource_key \<times> account) list \<Rightarrow> resource_key \<Rightarrow> account" where
  "account_of accs k = (case map_of accs k of Some a \<Rightarrow> a | None \<Rightarrow> new_account)"

definition SetCapacity :: "resource_key \<Rightarrow> nat \<Rightarrow> resource_ledger \<Rightarrow> resource_ledger" where
  "SetCapacity k c L =
     L\<lparr>rl_accounts := om_put k ((account_of (rl_accounts L) k)\<lparr>ac_capacity := Some c\<rparr>) (rl_accounts L)\<rparr>"

definition ResourceLedger_new :: "(resource_key \<times> nat) list \<Rightarrow> resource_ledger" where
  "ResourceLedger_new caps =
     fold (\<lambda>(k, c). SetCapacity k c) caps \<lparr>rl_accounts = [], rl_next_lease = 1, rl_live_leases = 0\<rparr>"

definition Ledger_Capacity :: "resource_key \<Rightarrow> resource_ledger \<Rightarrow> nat option" where
  "Ledger_Capacity k L = (case map_of (rl_accounts L) k of None \<Rightarrow> None | Some a \<Rightarrow> ac_capacity a)"

definition acc_available :: "nat \<Rightarrow> nat \<Rightarrow> nat" where
  "acc_available cap reserved = (if cap > reserved then cap - reserved else 0)"

definition short_entry :: "resource_amount \<Rightarrow> account \<Rightarrow> nat \<Rightarrow> json" where
  "short_entry a acc cap = json_members
     [Some (''kind'', JStr (ResourceKind_ToString (key_kind (ra_key a)))),
      Some (''device_id'', JInt (key_device (ra_key a))),
      Some (''requested'', JInt (i64 (int (ra_amount a)))),
      Some (''reserved'', JInt (i64 (int (ac_reserved acc)))),
      Some (''capacity'', JInt (i64 (int cap))),
      Some (''available'', JInt (i64 (int (acc_available cap (ac_reserved acc)))))]"

definition is_short :: "(resource_key \<times> account) list \<Rightarrow> resource_amount \<Rightarrow> bool" where
  "is_short accs a = (case map_of accs (ra_key a) of None \<Rightarrow> False
     | Some acc \<Rightarrow> (case ac_capacity acc of None \<Rightarrow> False
         | Some cap \<Rightarrow> \<not> ra_amount a \<le> acc_available cap (ac_reserved acc)))"

definition short_list :: "(resource_key \<times> account) list \<Rightarrow> resource_amount list \<Rightarrow> json list" where
  "short_list accs amounts =
     map (\<lambda>a. short_entry a (account_of accs (ra_key a)) (the (ac_capacity (account_of accs (ra_key a)))))
       (filter (is_short accs) amounts)"

definition exhausted :: "(resource_key \<times> account) list \<Rightarrow> resource_amount list \<Rightarrow> string \<Rightarrow> status" where
  "exhausted accs amounts purpose =
     (let a = hd (filter (is_short accs) amounts);
          acc = account_of accs (ra_key a);
          msg = ''insufficient resources'' @ (if purpose \<noteq> [] then '' for '' @ purpose else []) @ '': '' @
            ResourceKind_ToString (key_kind (ra_key a)) @ '' requested '' @ int_to_string (i64 (int (ra_amount a))) @
            '', available '' @ int_to_string (i64 (int (acc_available (the (ac_capacity acc)) (ac_reserved acc)))) in
      Status_ResourceExhausted msg (Some (json_members
        [Some (''short'', JArr (short_list accs amounts)), Some (''retry_after_release'', JBool True),
         if purpose \<noteq> [] then Some (''purpose'', JStr purpose) else None])))"

definition take_amount :: "resource_amount \<Rightarrow> (resource_key \<times> account) list \<Rightarrow> (resource_key \<times> account) list" where
  "take_amount a accs =
     (let acc = account_of accs (ra_key a); r = u64 (ac_reserved acc + ra_amount a) in
      om_put (ra_key a) (acc\<lparr>ac_reserved := r, ac_peak := max (ac_peak acc) r\<rparr>) accs)"

definition TryReserveLocked :: "resource_amount list \<Rightarrow> string \<Rightarrow> resource_ledger \<Rightarrow> unit result \<times> resource_ledger" where
  "TryReserveLocked amounts purpose L =
     (if short_list (rl_accounts L) amounts \<noteq> [] then (Inl (exhausted (rl_accounts L) amounts purpose), L)
      else (Inr (), L\<lparr>rl_accounts := fold take_amount amounts (rl_accounts L)\<rparr>))"

definition release_amount :: "resource_amount \<Rightarrow> (resource_key \<times> account) list \<Rightarrow> (resource_key \<times> account) list" where
  "release_amount a accs =
     (case map_of accs (ra_key a) of None \<Rightarrow> accs
      | Some acc \<Rightarrow> om_put (ra_key a)
          (acc\<lparr>ac_reserved := if ac_reserved acc > ra_amount a then ac_reserved acc - ra_amount a else 0\<rparr>) accs)"

definition ReleaseLocked :: "resource_amount list \<Rightarrow> resource_ledger \<Rightarrow> resource_ledger" where
  "ReleaseLocked amounts L = L\<lparr>rl_accounts := fold release_amount amounts (rl_accounts L)\<rparr>"

definition Reserve :: "nat \<Rightarrow> resource_amount list \<Rightarrow> string \<Rightarrow> resource_ledger \<Rightarrow> resource_lease result \<times> resource_ledger" where
  "Reserve owner amounts purpose L =
     (let merged = MergeAmounts amounts in
      case TryReserveLocked merged purpose L of
        (Inl s, L') \<Rightarrow> (Inl s, L')
      | (Inr _, L') \<Rightarrow>
          (Inr \<lparr>le_active = True, le_id = rl_next_lease L', le_owner = owner, le_amounts = merged\<rparr>,
           L'\<lparr>rl_next_lease := u64 (rl_next_lease L' + 1), rl_live_leases := u64 (rl_live_leases L' + 1)\<rparr>))"

definition ReleaseLease :: "resource_amount list \<Rightarrow> resource_ledger \<Rightarrow> resource_ledger" where
  "ReleaseLease amounts L =
     (let L' = ReleaseLocked amounts L in
      if rl_live_leases L' > 0 then L'\<lparr>rl_live_leases := rl_live_leases L' - 1\<rparr> else L')"

definition commit_have :: "resource_amount list \<Rightarrow> resource_key \<Rightarrow> nat" where
  "commit_have current k = (case find (\<lambda>c. ra_key c = k) current of None \<Rightarrow> 0 | Some c \<Rightarrow> ra_amount c)"

definition commit_grow :: "resource_amount list \<Rightarrow> resource_amount list \<Rightarrow> resource_amount list" where
  "commit_grow current actual = concat (map (\<lambda>a. let have = commit_have current (ra_key a) in
     if ra_amount a > have then [\<lparr>ra_key = ra_key a, ra_amount = ra_amount a - have\<rparr>] else []) actual)"

definition commit_shrink :: "resource_amount list \<Rightarrow> resource_amount list \<Rightarrow> resource_amount list" where
  "commit_shrink current actual = concat (map (\<lambda>a. let have = commit_have current (ra_key a) in
     if ra_amount a < have then [\<lparr>ra_key = ra_key a, ra_amount = have - ra_amount a\<rparr>] else []) actual) @
     filter (\<lambda>c. \<not> list_ex (\<lambda>a. ra_key a = ra_key c) actual) current"

definition CommitLease ::
  "resource_amount list \<Rightarrow> resource_amount list \<Rightarrow> string \<Rightarrow> resource_ledger \<Rightarrow>
     unit result \<times> resource_amount list \<times> resource_ledger" where
  "CommitLease current actual0 purpose L =
     (let actual = MergeAmounts actual0 in
      case TryReserveLocked (commit_grow current actual) purpose L of
        (Inl s, L') \<Rightarrow> (Inl s, current, L')
      | (Inr _, L') \<Rightarrow> (Inr (), actual, ReleaseLocked (commit_shrink current actual) L'))"

subsection \<open>Leases\<close>

definition no_lease :: resource_lease where
  "no_lease = \<lparr>le_active = False, le_id = 0, le_owner = 0, le_amounts = []\<rparr>"

definition Lease_Release :: "resource_lease \<Rightarrow> resource_ledger \<Rightarrow> resource_lease \<times> resource_ledger" where
  "Lease_Release l L =
     (if le_active l then (l\<lparr>le_active := False, le_amounts := []\<rparr>, ReleaseLease (le_amounts l) L) else (l, L))"

definition Lease_Commit ::
  "resource_amount list \<Rightarrow> string \<Rightarrow> resource_lease \<Rightarrow> resource_ledger \<Rightarrow>
     unit result \<times> resource_lease \<times> resource_ledger" where
  "Lease_Commit actual purpose l L =
     (if le_active l then
        (case CommitLease (le_amounts l) actual purpose L of (r, current, L') \<Rightarrow> (r, l\<lparr>le_amounts := current\<rparr>, L'))
      else (Inl (Status_InvalidArgument ''lease is not active''), l, L))"

text \<open>Move assignment: the target gives back what it holds and takes over the lease of the source, whose vector
  of amounts the move leaves empty.\<close>

definition Lease_assign ::
  "resource_lease \<Rightarrow> resource_lease \<Rightarrow> resource_ledger \<Rightarrow> resource_lease \<times> resource_lease \<times> resource_ledger" where
  "Lease_assign target source L =
     (source, source\<lparr>le_active := False, le_amounts := []\<rparr>, snd (Lease_Release target L))"

subsection \<open>Queries\<close>

definition usage_of_account :: "resource_key \<Rightarrow> account \<Rightarrow> resource_usage" where
  "usage_of_account k acc = \<lparr>ru_key = k, ru_capacity = (case ac_capacity acc of Some c \<Rightarrow> c | None \<Rightarrow> 0),
     ru_reserved = ac_reserved acc, ru_peak = ac_peak acc\<rparr>"

definition Usage :: "resource_ledger \<Rightarrow> resource_usage list" where
  "Usage L = map (\<lambda>(k, acc). usage_of_account k acc) (rl_accounts L)"

definition UsageOf :: "resource_key \<Rightarrow> resource_ledger \<Rightarrow> resource_usage" where
  "UsageOf k L = (case map_of (rl_accounts L) k of
     None \<Rightarrow> \<lparr>ru_key = k, ru_capacity = 0, ru_reserved = 0, ru_peak = 0\<rparr> | Some acc \<Rightarrow> usage_of_account k acc)"

definition usage_json :: "resource_usage \<Rightarrow> json" where
  "usage_json u = json_members
     [Some (''kind'', JStr (ResourceKind_ToString (key_kind (ru_key u)))),
      Some (''device_id'', JInt (key_device (ru_key u))),
      Some (''capacity'', JInt (i64 (int (ru_capacity u)))),
      Some (''reserved'', JInt (i64 (int (ru_reserved u)))),
      Some (''available'', JInt (i64 (int (acc_available (ru_capacity u) (ru_reserved u))))),
      Some (''peak'', JInt (i64 (int (ru_peak u))))]"

definition Ledger_Snapshot :: "resource_ledger \<Rightarrow> json" where
  "Ledger_Snapshot L = json_members
     [Some (''resources'', JArr (map usage_json (Usage L))),
      Some (''live_leases'', JInt (i64 (int (rl_live_leases L))))]"

text \<open>The number of hardware threads and the physical memory are what the platform reports.\<close>

definition DefaultCapacities :: "nat \<Rightarrow> nat option \<Rightarrow> nat \<Rightarrow> (resource_key \<times> nat) list" where
  "DefaultCapacities hardware memory cpu_threads =
     (Key kCpuThreads (- 1), if cpu_threads = 0 then max 1 hardware else cpu_threads) #
     (case memory of None \<Rightarrow> []
      | Some m \<Rightarrow> [(Key kHostMemory (- 1), m), (Key kEdgeBufferBytes (- 1), m div 2)])"

subsection \<open>Sums of amounts\<close>

definition amount_of :: "resource_key \<Rightarrow> resource_amount list \<Rightarrow> nat" where
  "amount_of k xs = sum_list (map ra_amount (filter (\<lambda>a. ra_key a = k) xs))"

lemma amount_of_simps [simp]:
  "amount_of k [] = 0"
  "amount_of k (a # xs) = (if ra_key a = k then ra_amount a else 0) + amount_of k xs"
  "amount_of k (xs @ ys) = amount_of k xs + amount_of k ys"
  by (simp_all add: amount_of_def)

lemma amount_of_mset:
  assumes "mset xs = mset ys"
  shows "amount_of k xs = amount_of k ys"
proof -
  have "sum_list (map ra_amount (filter (\<lambda>a. ra_key a = k) zs)) =
      sum_mset (image_mset ra_amount (filter_mset (\<lambda>a. ra_key a = k) (mset zs)))" for zs :: "resource_amount list"
    by (induction zs) auto
  then show ?thesis unfolding amount_of_def by (simp add: assms)
qed

lemma amount_of_zero_iff: "amount_of k xs = 0 \<longleftrightarrow> (\<forall>a\<in>set xs. ra_key a = k \<longrightarrow> ra_amount a = 0)"
  by (induction xs) auto

lemma amount_of_fresh: "k \<notin> ra_key ` set xs \<Longrightarrow> amount_of k xs = 0"
  by (induction xs) auto

definition canonical :: "resource_amount list \<Rightarrow> bool" where
  "canonical xs \<longleftrightarrow> sorted_wrt (<) (map ra_key xs) \<and> (\<forall>a\<in>set xs. 0 < ra_amount a)"

lemma canonical_distinct: "canonical xs \<Longrightarrow> distinct (map ra_key xs)"
  by (simp add: canonical_def strict_sorted_iff)

lemma amount_of_distinct:
  "distinct (map ra_key xs) \<Longrightarrow> amount_of k xs = (case find (\<lambda>a. ra_key a = k) xs of None \<Rightarrow> 0 | Some a \<Rightarrow> ra_amount a)"
proof (induction xs)
  case (Cons a xs)
  have "ra_key a = k \<Longrightarrow> amount_of k xs = 0" using Cons.prems by (auto simp: amount_of_fresh)
  then show ?case using Cons by auto
qed simp

lemma amount_of_member: "distinct (map ra_key xs) \<Longrightarrow> a \<in> set xs \<Longrightarrow> amount_of (ra_key a) xs = ra_amount a"
  by (induction xs) (auto simp: amount_of_fresh)

text \<open>The loop of \<open>MergeAmounts\<close> on a sorted list: what was read is summed up, key by key.\<close>

lemma merge_step_sum:
  assumes "canonical out" and "\<forall>b\<in>set out. ra_key b \<le> ra_key a" and "amount_of (ra_key a) out + ra_amount a < 2 ^ 64"
  shows "canonical (merge_step a out) \<and> (\<forall>k. amount_of k (merge_step a out) = amount_of k (out @ [a])) \<and>
    ra_key ` set (merge_step a out) \<subseteq> insert (ra_key a) (ra_key ` set out)"
proof (cases "ra_amount a = 0")
  case True
  then show ?thesis using assms(1) by (auto simp: merge_step_def)
next
  case False
  show ?thesis
  proof (cases "out \<noteq> [] \<and> ra_key (last out) = ra_key a")
    case True
    then obtain init b where o: "out = init @ [b]" and b: "ra_key b = ra_key a" by (metis append_butlast_last_id)
    have "amount_of (ra_key a) out = amount_of (ra_key a) init + ra_amount b" using b by (simp add: o)
    then have "u64 (ra_amount b + ra_amount a) = ra_amount b + ra_amount a" using assms(3) by simp
    then have m: "merge_step a out = init @ [b\<lparr>ra_amount := ra_amount b + ra_amount a\<rparr>]"
      using False True by (simp add: merge_step_def o)
    show ?thesis using assms(1) False b unfolding m by (auto simp: o canonical_def sorted_wrt_append)
  next
    case no: False
    have m: "merge_step a out = out @ [a]" using False no by (auto simp: merge_step_def)
    have "ra_key b < ra_key a" if "b \<in> set out" for b
    proof (cases out rule: rev_cases)
      case (snoc init c)
      have "ra_key c < ra_key a" using no assms(2) snoc by (auto simp: less_le)
      moreover have "ra_key b \<le> ra_key c"
        using that assms(1) by (auto simp: snoc canonical_def sorted_wrt_append)
      ultimately show ?thesis by simp
    qed (use that in simp)
    then show ?thesis using assms(1) False unfolding m by (auto simp: canonical_def sorted_wrt_append)
  qed
qed

lemma merge_fold:
  assumes "sorted (map ra_key xs)" "canonical out" "\<forall>a\<in>set xs. \<forall>b\<in>set out. ra_key b \<le> ra_key a"
    and "\<forall>k. amount_of k out + amount_of k xs < 2 ^ 64"
  shows "canonical (fold merge_step xs out) \<and> (\<forall>k. amount_of k (fold merge_step xs out) = amount_of k out + amount_of k xs)"
  using assms
proof (induction xs arbitrary: out)
  case (Cons a xs)
  have "amount_of (ra_key a) out + ra_amount a < 2 ^ 64"
    using Cons.prems(4) [rule_format, of "ra_key a"] by simp
  with merge_step_sum [of out a] Cons.prems have s: "canonical (merge_step a out)"
      "\<forall>k. amount_of k (merge_step a out) = amount_of k (out @ [a])"
      "ra_key ` set (merge_step a out) \<subseteq> insert (ra_key a) (ra_key ` set out)" by auto
  have "\<forall>c\<in>set xs. \<forall>b\<in>set (merge_step a out). ra_key b \<le> ra_key c"
    using s(3) Cons.prems(1,3) by fastforce
  moreover have "\<forall>k. amount_of k (merge_step a out) + amount_of k xs < 2 ^ 64"
    using Cons.prems(4) s(2) by (simp add: add.assoc)
  ultimately show ?case using Cons.IH [of "merge_step a out"] s Cons.prems(1) by simp
qed simp

lemma MergeAmounts_sum:
  assumes "\<And>k. amount_of k xs < 2 ^ 64"
  shows "canonical (MergeAmounts xs)" and "amount_of k (MergeAmounts xs) = amount_of k xs"
proof -
  have e: "amount_of k (sort_key ra_key xs) = amount_of k xs" for k by (rule amount_of_mset) simp
  have "canonical []" by (simp add: canonical_def)
  with merge_fold [of "sort_key ra_key xs" "[]"] assms show "canonical (MergeAmounts xs)"
    "amount_of k (MergeAmounts xs) = amount_of k xs" by (simp_all add: MergeAmounts_def e)
qed

subsection \<open>Accounts\<close>

abbreviation reserved_at :: "resource_ledger \<Rightarrow> resource_key \<Rightarrow> nat" where
  "reserved_at L k \<equiv> ac_reserved (account_of (rl_accounts L) k)"

abbreviation capacity_at :: "resource_ledger \<Rightarrow> resource_key \<Rightarrow> nat option" where
  "capacity_at L k \<equiv> ac_capacity (account_of (rl_accounts L) k)"

lemma account_of_put [simp]:
  "om_wf accs \<Longrightarrow> account_of (om_put k a accs) k' = (if k' = k then a else account_of accs k')"
  by (simp add: account_of_def)

lemma account_of_Nil [simp]: "account_of [] k = new_account"
  by (simp add: account_of_def)

lemma take_amount_account:
  assumes "om_wf accs" and "ac_reserved (account_of accs (ra_key a)) + ra_amount a < 2 ^ 64"
  shows "account_of (take_amount a accs) k = (if k = ra_key a then
      (account_of accs k)\<lparr>ac_reserved := ac_reserved (account_of accs k) + ra_amount a,
        ac_peak := max (ac_peak (account_of accs k)) (ac_reserved (account_of accs k) + ra_amount a)\<rparr>
    else account_of accs k)"
  using assms by (simp add: take_amount_def Let_def)

lemma take_amounts_wf: "om_wf accs \<Longrightarrow> om_wf (fold take_amount xs accs)"
  by (induction xs arbitrary: accs) (simp_all add: take_amount_def Let_def)

lemma take_amounts:
  assumes "om_wf accs" and "\<forall>k. ac_reserved (account_of accs k) + amount_of k xs < 2 ^ 64"
  shows "ac_reserved (account_of (fold take_amount xs accs) k) = ac_reserved (account_of accs k) + amount_of k xs \<and>
    ac_capacity (account_of (fold take_amount xs accs) k) = ac_capacity (account_of accs k) \<and>
    (ac_reserved (account_of accs k) \<le> ac_peak (account_of accs k) \<longrightarrow>
      ac_reserved (account_of (fold take_amount xs accs) k) \<le> ac_peak (account_of (fold take_amount xs accs) k))"
  using assms
proof (induction xs arbitrary: accs)
  case (Cons a xs)
  have "ac_reserved (account_of accs (ra_key a)) + ra_amount a < 2 ^ 64"
    using Cons.prems(2) [rule_format, of "ra_key a"] by simp
  note acc = take_amount_account [OF Cons.prems(1) this]
  have wf: "om_wf (take_amount a accs)" using take_amounts_wf [OF Cons.prems(1), of "[a]"] by simp
  have "\<forall>k. ac_reserved (account_of (take_amount a accs) k) + amount_of k xs < 2 ^ 64"
  proof
    fix k show "ac_reserved (account_of (take_amount a accs) k) + amount_of k xs < 2 ^ 64"
      using Cons.prems(2) [rule_format, of k] by (simp add: acc split: if_splits)
  qed
  from Cons.IH [OF wf this] show ?case by (simp add: acc) auto
qed simp

lemma release_amount_account:
  assumes "om_wf accs"
  shows "account_of (release_amount a accs) k = (if k = ra_key a then
      (account_of accs k)\<lparr>ac_reserved := ac_reserved (account_of accs k) - ra_amount a\<rparr> else account_of accs k)"
  using assms by (auto simp: release_amount_def account_of_def new_account_def split: option.split)

lemma release_amounts_wf: "om_wf accs \<Longrightarrow> om_wf (fold release_amount xs accs)"
  by (induction xs arbitrary: accs) (simp_all add: release_amount_def split: option.split)

lemma release_amounts:
  assumes "om_wf accs"
  shows "account_of (fold release_amount xs accs) k =
    (account_of accs k)\<lparr>ac_reserved := ac_reserved (account_of accs k) - amount_of k xs\<rparr>"
  using assms
proof (induction xs arbitrary: accs)
  case (Cons a xs)
  have "om_wf (release_amount a accs)" using release_amounts_wf [OF Cons.prems, of "[a]"] by simp
  from Cons.IH [OF this] show ?case by (simp add: release_amount_account [OF Cons.prems])
qed simp

text \<open>A request without duplicate keys is granted exactly when every limited account has room for it.\<close>

definition has_room :: "resource_ledger \<Rightarrow> (resource_key \<Rightarrow> nat) \<Rightarrow> bool" where
  "has_room L want \<longleftrightarrow> (\<forall>k c. capacity_at L k = Some c \<longrightarrow> want k = 0 \<or> reserved_at L k + want k \<le> c)"

lemma is_short_iff:
  "is_short accs a \<longleftrightarrow> (\<exists>c. ac_capacity (account_of accs (ra_key a)) = Some c \<and> 0 < ra_amount a \<and>
     c < ac_reserved (account_of accs (ra_key a)) + ra_amount a)"
  by (auto simp: is_short_def account_of_def new_account_def acc_available_def split: option.splits)

lemma short_list_Nil:
  assumes "distinct (map ra_key xs)"
  shows "short_list (rl_accounts L) xs = [] \<longleftrightarrow> has_room L (\<lambda>k. amount_of k xs)"
proof -
  have "short_list (rl_accounts L) xs = [] \<longleftrightarrow> (\<forall>a\<in>set xs. \<not> is_short (rl_accounts L) a)"
    by (simp add: short_list_def filter_empty_conv)
  also have "\<dots> \<longleftrightarrow> has_room L (\<lambda>k. amount_of k xs)"
  proof
    assume no: "\<forall>a\<in>set xs. \<not> is_short (rl_accounts L) a"
    show "has_room L (\<lambda>k. amount_of k xs)" unfolding has_room_def
    proof (intro allI impI)
      fix k c assume c: "capacity_at L k = Some c"
      show "amount_of k xs = 0 \<or> reserved_at L k + amount_of k xs \<le> c"
      proof (cases "find (\<lambda>a. ra_key a = k) xs")
        case (Some a)
        then have a: "a \<in> set xs" "ra_key a = k" by (auto dest: find_Some_D)
        then have "amount_of k xs = ra_amount a" using amount_of_member [OF assms] by auto
        then show ?thesis using no a c by (auto simp: is_short_iff)
      qed (simp add: amount_of_distinct [OF assms])
    qed
  next
    assume room: "has_room L (\<lambda>k. amount_of k xs)"
    show "\<forall>a\<in>set xs. \<not> is_short (rl_accounts L) a"
    proof
      fix a assume "a \<in> set xs"
      then show "\<not> is_short (rl_accounts L) a"
        using room [unfolded has_room_def, rule_format, of "ra_key a"] amount_of_member [OF assms]
        by (auto simp: is_short_iff)
    qed
  qed
  finally show ?thesis .
qed

subsection \<open>Effect of the operations\<close>

text \<open>64-bit sums do not wrap: what is reserved plus what is wanted stays below \<open>2 ^ 64\<close> at every key.\<close>

definition sums_fit :: "resource_ledger \<Rightarrow> resource_amount list \<Rightarrow> bool" where
  "sums_fit L xs \<longleftrightarrow> (\<forall>k. reserved_at L k + amount_of k xs < 2 ^ 64)"

lemma sums_fit_amounts: "sums_fit L xs \<Longrightarrow> amount_of k xs < 2 ^ 64"
  unfolding sums_fit_def by (drule spec [of _ k]) simp

lemma exhausted_code [simp]: "st_code (exhausted accs xs p) = GE_STATUS_RESOURCE_EXHAUSTED"
  by (simp add: exhausted_def Let_def Status_ResourceExhausted_def Status_def)

definition peaks_ok :: "resource_ledger \<Rightarrow> bool" where
  "peaks_ok L \<longleftrightarrow> (\<forall>k. reserved_at L k \<le> ac_peak (account_of (rl_accounts L) k))"

lemma TryReserve_spec:
  assumes "om_wf (rl_accounts L)" "sums_fit L xs" "distinct (map ra_key xs)"
  shows "if has_room L (\<lambda>k. amount_of k xs)
    then \<exists>L'. TryReserveLocked xs p L = (Inr (), L') \<and> om_wf (rl_accounts L') \<and>
      rl_next_lease L' = rl_next_lease L \<and> rl_live_leases L' = rl_live_leases L \<and>
      (\<forall>k. reserved_at L' k = reserved_at L k + amount_of k xs \<and> capacity_at L' k = capacity_at L k) \<and> (peaks_ok L \<longrightarrow> peaks_ok L')
    else \<exists>s. TryReserveLocked xs p L = (Inl s, L) \<and> st_code s = GE_STATUS_RESOURCE_EXHAUSTED"
proof (cases "has_room L (\<lambda>k. amount_of k xs)")
  case True
  let ?L' = "L\<lparr>rl_accounts := fold take_amount xs (rl_accounts L)\<rparr>"
  have "TryReserveLocked xs p L = (Inr (), ?L')" using True by (simp add: TryReserveLocked_def short_list_Nil [OF assms(3)])
  moreover have "reserved_at ?L' k = reserved_at L k + amount_of k xs \<and> capacity_at ?L' k = capacity_at L k" for k
    using take_amounts [OF assms(1) assms(2) [unfolded sums_fit_def], of k] by auto
  moreover have "peaks_ok L \<longrightarrow> peaks_ok ?L'"
    unfolding peaks_ok_def
  proof (intro impI allI)
    fix k assume "\<forall>k. reserved_at L k \<le> ac_peak (account_of (rl_accounts L) k)"
    then show "reserved_at ?L' k \<le> ac_peak (account_of (rl_accounts ?L') k)"
      using take_amounts [OF assms(1) assms(2) [unfolded sums_fit_def], of k] by auto
  qed
  moreover have "om_wf (rl_accounts ?L')" using take_amounts_wf [OF assms(1), of xs] by simp
  ultimately show ?thesis using True by simp
next
  case False
  then show ?thesis by (simp add: TryReserveLocked_def short_list_Nil [OF assms(3)])
qed

lemma Merge_distinct: "sums_fit L xs \<Longrightarrow> distinct (map ra_key (MergeAmounts xs))"
  by (rule canonical_distinct, rule MergeAmounts_sum(1), erule sums_fit_amounts)

lemma Merge_amount: "sums_fit L xs \<Longrightarrow> amount_of k (MergeAmounts xs) = amount_of k xs"
  by (rule MergeAmounts_sum(2), erule sums_fit_amounts)

lemma sums_fit_merge: "sums_fit L xs \<Longrightarrow> sums_fit L (MergeAmounts xs)"
  unfolding sums_fit_def using Merge_amount [unfolded sums_fit_def] by simp

lemma Reserve_spec:
  assumes "om_wf (rl_accounts L)" "sums_fit L xs"
  shows "if has_room L (\<lambda>k. amount_of k xs)
    then \<exists>L'. Reserve owner xs p L = (Inr \<lparr>le_active = True, le_id = rl_next_lease L, le_owner = owner,
        le_amounts = MergeAmounts xs\<rparr>, L') \<and> om_wf (rl_accounts L') \<and>
      rl_next_lease L' = u64 (rl_next_lease L + 1) \<and> rl_live_leases L' = u64 (rl_live_leases L + 1) \<and>
      (\<forall>k. reserved_at L' k = reserved_at L k + amount_of k xs \<and> capacity_at L' k = capacity_at L k) \<and> (peaks_ok L \<longrightarrow> peaks_ok L')
    else \<exists>s. Reserve owner xs p L = (Inl s, L) \<and> st_code s = GE_STATUS_RESOURCE_EXHAUSTED"
proof -
  note t = TryReserve_spec [OF assms(1) sums_fit_merge [OF assms(2)] Merge_distinct [OF assms(2)], of p,
      unfolded Merge_amount [OF assms(2)]]
  show ?thesis
  proof (cases "has_room L (\<lambda>k. amount_of k xs)")
    case True
    with t obtain L' where "TryReserveLocked (MergeAmounts xs) p L = (Inr (), L')" "om_wf (rl_accounts L')"
      "rl_next_lease L' = rl_next_lease L" "rl_live_leases L' = rl_live_leases L"
      "\<forall>k. reserved_at L' k = reserved_at L k + amount_of k xs \<and> capacity_at L' k = capacity_at L k"
      "peaks_ok L \<longrightarrow> peaks_ok L'"
      by auto
    moreover have "peaks_ok (L'\<lparr>rl_next_lease := n, rl_live_leases := m\<rparr>) = peaks_ok L'" for n m by (simp add: peaks_ok_def)
    ultimately show ?thesis using True by (simp add: Reserve_def Let_def)
  next
    case False
    with t show ?thesis by (auto simp: Reserve_def Let_def)
  qed
qed

text \<open>The growth and the shrinkage of a commit are the two truncated differences.\<close>

lemma amount_of_concat_map:
  assumes "distinct (map ra_key xs)" and "\<And>a. a \<in> set xs \<Longrightarrow> amount_of (ra_key a) (f a) = g a \<and> (\<forall>b\<in>set (f a). ra_key b = ra_key a)"
  shows "amount_of k (concat (map f xs)) = (case find (\<lambda>a. ra_key a = k) xs of None \<Rightarrow> 0 | Some a \<Rightarrow> g a)"
  using assms
proof (induction xs)
  case (Cons a xs)
  have a: "amount_of (ra_key a) (f a) = g a" "\<forall>b\<in>set (f a). ra_key b = ra_key a" using Cons.prems(2) by simp_all
  have IH: "amount_of k (concat (map f xs)) = (case find (\<lambda>a. ra_key a = k) xs of None \<Rightarrow> 0 | Some a \<Rightarrow> g a)"
    using Cons by simp
  have "ra_key a = k \<Longrightarrow> find (\<lambda>a. ra_key a = k) xs = None" using Cons.prems(1) by (auto simp: find_None_D image_iff)
  moreover have "ra_key a \<noteq> k \<Longrightarrow> amount_of k (f a) = 0" using a(2) by (auto intro: amount_of_fresh)
  ultimately show ?case using IH a(1) by auto
qed simp

lemma commit_have_eq: "distinct (map ra_key cur) \<Longrightarrow> commit_have cur k = amount_of k cur"
  by (simp add: commit_have_def amount_of_distinct)

lemma commit_grow_amount:
  assumes "distinct (map ra_key act)" "distinct (map ra_key cur)"
  shows "amount_of k (commit_grow cur act) = amount_of k act - amount_of k cur"
  unfolding commit_grow_def
  by (subst amount_of_concat_map [OF assms(1), where g = "\<lambda>a. ra_amount a - amount_of (ra_key a) cur"])
    (auto simp: Let_def commit_have_eq [OF assms(2)] amount_of_distinct [OF assms(1)] dest: find_Some_D split: option.splits)

lemma filter_amount: "amount_of k (filter (\<lambda>c. Q (ra_key c)) cur) = (if Q k then amount_of k cur else 0)"
  by (induction cur) auto

lemma commit_shrink_amount:
  assumes "distinct (map ra_key act)" "distinct (map ra_key cur)"
  shows "amount_of k (commit_shrink cur act) = amount_of k cur - amount_of k act"
proof -
  have "amount_of k (concat (map (\<lambda>a. let have = commit_have cur (ra_key a) in
      if ra_amount a < have then [\<lparr>ra_key = ra_key a, ra_amount = have - ra_amount a\<rparr>] else []) act)) =
      (case find (\<lambda>a. ra_key a = k) act of None \<Rightarrow> 0 | Some a \<Rightarrow> amount_of (ra_key a) cur - ra_amount a)"
    by (rule amount_of_concat_map [OF assms(1)]) (auto simp: Let_def commit_have_eq [OF assms(2)])
  moreover have "amount_of k (filter (\<lambda>c. \<not> list_ex (\<lambda>a. ra_key a = ra_key c) act) cur) =
      (if \<not> list_ex (\<lambda>a. ra_key a = k) act then amount_of k cur else 0)"
    using filter_amount [of k "\<lambda>k. \<not> list_ex (\<lambda>a. ra_key a = k) act" cur] by simp
  moreover have "list_ex (\<lambda>a. ra_key a = k) act \<longleftrightarrow> find (\<lambda>a. ra_key a = k) act \<noteq> None"
    by (simp add: find_None_D list_ex_iff)
  ultimately show ?thesis
    by (cases "find (\<lambda>a. ra_key a = k) act")
      (auto simp: commit_shrink_def amount_of_distinct [OF assms(1)] dest: find_Some_D)
qed

lemma commit_grow_keys: "distinct (map ra_key act) \<Longrightarrow> distinct (map ra_key (commit_grow cur act))"
proof -
  have "map ra_key (commit_grow cur act) =
      map ra_key (filter (\<lambda>a. ra_amount a > commit_have cur (ra_key a)) act)"
    by (induction act) (simp_all add: commit_grow_def Let_def)
  moreover assume "distinct (map ra_key act)"
  ultimately show ?thesis by (simp add: distinct_map_filter)
qed

lemma Commit_spec:
  assumes wf: "om_wf (rl_accounts L)" and fit: "sums_fit L actual" and l: "le_active l" "canonical (le_amounts l)"
    and held: "\<And>k. amount_of k (le_amounts l) \<le> reserved_at L k"
  shows "if has_room L (\<lambda>k. amount_of k actual - amount_of k (le_amounts l))
    then \<exists>L'. Lease_Commit actual p l L = (Inr (), l\<lparr>le_amounts := MergeAmounts actual\<rparr>, L') \<and> om_wf (rl_accounts L') \<and>
      rl_next_lease L' = rl_next_lease L \<and> rl_live_leases L' = rl_live_leases L \<and>
      (\<forall>k. reserved_at L' k = reserved_at L k - amount_of k (le_amounts l) + amount_of k actual \<and>
        capacity_at L' k = capacity_at L k) \<and> (peaks_ok L \<longrightarrow> peaks_ok L')
    else \<exists>s. Lease_Commit actual p l L = (Inl s, l, L) \<and> st_code s = GE_STATUS_RESOURCE_EXHAUSTED"
proof -
  let ?act = "MergeAmounts actual" and ?cur = "le_amounts l"
  have act: "distinct (map ra_key ?act)" by (rule Merge_distinct [OF fit])
  have cur: "distinct (map ra_key ?cur)" by (rule canonical_distinct [OF l(2)])
  have grow: "amount_of k (commit_grow ?cur ?act) = amount_of k actual - amount_of k ?cur" for k
    by (simp add: commit_grow_amount [OF act cur] Merge_amount [OF fit])
  have shrink: "amount_of k (commit_shrink ?cur ?act) = amount_of k ?cur - amount_of k actual" for k
    by (simp add: commit_shrink_amount [OF act cur] Merge_amount [OF fit])
  have "sums_fit L (commit_grow ?cur ?act)" unfolding sums_fit_def grow
  proof
    fix k show "reserved_at L k + (amount_of k actual - amount_of k ?cur) < 2 ^ 64"
      using fit [unfolded sums_fit_def, rule_format, of k] by simp
  qed
  note t = TryReserve_spec [OF wf this commit_grow_keys [OF act], of p, unfolded grow]
  show ?thesis
  proof (cases "has_room L (\<lambda>k. amount_of k actual - amount_of k ?cur)")
    case True
    with t obtain L1 where L1: "TryReserveLocked (commit_grow ?cur ?act) p L = (Inr (), L1)" "om_wf (rl_accounts L1)"
      "rl_next_lease L1 = rl_next_lease L" "rl_live_leases L1 = rl_live_leases L"
      "\<forall>k. reserved_at L1 k = reserved_at L k + (amount_of k actual - amount_of k ?cur) \<and> capacity_at L1 k = capacity_at L k"
      "peaks_ok L \<longrightarrow> peaks_ok L1"
      by auto
    let ?L' = "ReleaseLocked (commit_shrink ?cur ?act) L1"
    have acc: "account_of (rl_accounts ?L') k =
        (account_of (rl_accounts L1) k)\<lparr>ac_reserved := reserved_at L1 k - (amount_of k ?cur - amount_of k actual)\<rparr>" for k
      by (simp add: ReleaseLocked_def release_amounts [OF L1(2)] shrink)
    have "reserved_at ?L' k = reserved_at L k - amount_of k ?cur + amount_of k actual" for k
      unfolding acc using L1(5) held [of k] by simp
    moreover have "om_wf (rl_accounts ?L')" by (simp add: ReleaseLocked_def release_amounts_wf [OF L1(2)])
    moreover have "Lease_Commit actual p l L = (Inr (), l\<lparr>le_amounts := ?act\<rparr>, ?L')"
      using l(1) L1(1) by (simp add: Lease_Commit_def CommitLease_def Let_def)
    moreover have "rl_next_lease ?L' = rl_next_lease L" "rl_live_leases ?L' = rl_live_leases L"
      using L1(3,4) by (simp_all add: ReleaseLocked_def)
    moreover have "capacity_at ?L' k = capacity_at L k" for k using L1(5) by (simp add: acc)
    moreover have "peaks_ok L \<longrightarrow> peaks_ok ?L'" using L1(6) by (auto simp: peaks_ok_def acc intro: le_trans diff_le_self)
    ultimately show ?thesis using True by auto
  next
    case False
    with t l(1) show ?thesis by (auto simp: Lease_Commit_def CommitLease_def Let_def)
  qed
qed

subsection \<open>All runs of a ledger\<close>

text \<open>The clients hold leases; they reserve, commit, release, and the owner of the ledger changes capacities, never
  below what is reserved. Sums and lease ids stay below \<open>2 ^ 64\<close>.\<close>

inductive ledger_step :: "resource_ledger \<times> resource_lease list \<Rightarrow> resource_ledger \<times> resource_lease list \<Rightarrow> bool" where
  granted: "sums_fit L xs \<Longrightarrow> rl_next_lease L + 1 < 2 ^ 64 \<Longrightarrow> Reserve owner xs p L = (Inr l, L') \<Longrightarrow>
     ledger_step (L, ls) (L', ls @ [l])"
| refused: "sums_fit L xs \<Longrightarrow> Reserve owner xs p L = (Inl s, L') \<Longrightarrow> ledger_step (L, ls) (L', ls)"
| committed: "sums_fit L xs \<Longrightarrow> Lease_Commit xs p l L = (r, l', L') \<Longrightarrow> ledger_step (L, as @ l # bs) (L', as @ l' # bs)"
| released: "Lease_Release l L = (l', L') \<Longrightarrow> ledger_step (L, as @ l # bs) (L', as @ bs)"
| resized: "reserved_at L k \<le> c \<Longrightarrow> ledger_step (L, ls) (SetCapacity k c L, ls)"

definition ledger_init :: "resource_ledger \<times> resource_lease list \<Rightarrow> bool" where
  "ledger_init s \<longleftrightarrow> (\<exists>caps. s = (ResourceLedger_new caps, []))"

definition leased :: "resource_key \<Rightarrow> resource_lease list \<Rightarrow> nat" where
  "leased k ls = sum_list (map (\<lambda>l. amount_of k (le_amounts l)) ls)"

lemma leased_simps [simp]:
  "leased k [] = 0" "leased k (l # ls) = amount_of k (le_amounts l) + leased k ls"
  "leased k (ls @ ms) = leased k ls + leased k ms"
  by (simp_all add: leased_def)

definition capacities_kept :: "resource_ledger \<Rightarrow> bool" where
  "capacities_kept L \<longleftrightarrow> (\<forall>k c. capacity_at L k = Some c \<longrightarrow> reserved_at L k \<le> c)"

definition ledger_inv :: "resource_ledger \<times> resource_lease list \<Rightarrow> bool" where
  "ledger_inv = (\<lambda>(L, ls). om_wf (rl_accounts L) \<and> (\<forall>l\<in>set ls. le_active l \<and> canonical (le_amounts l)) \<and>
     (\<forall>k. reserved_at L k = leased k ls) \<and> rl_live_leases L = length ls \<and> length ls < rl_next_lease L \<and>
     rl_next_lease L < 2 ^ 64 \<and> (\<forall>l\<in>set ls. le_id l < rl_next_lease L) \<and> distinct (map le_id ls) \<and>
     capacities_kept L \<and> peaks_ok L)"

lemma SetCapacity_account:
  "om_wf (rl_accounts L) \<Longrightarrow> account_of (rl_accounts (SetCapacity k c L)) k' =
     (if k' = k then (account_of (rl_accounts L) k)\<lparr>ac_capacity := Some c\<rparr> else account_of (rl_accounts L) k')"
  by (simp add: SetCapacity_def)

lemma SetCapacity_wf: "om_wf (rl_accounts L) \<Longrightarrow> om_wf (rl_accounts (SetCapacity k c L))"
  by (simp add: SetCapacity_def)

lemma new_ledger:
  "om_wf (rl_accounts (ResourceLedger_new caps)) \<and> (\<forall>k. reserved_at (ResourceLedger_new caps) k = 0) \<and>
   rl_live_leases (ResourceLedger_new caps) = 0 \<and> rl_next_lease (ResourceLedger_new caps) = 1"
proof -
  have "om_wf (rl_accounts M) \<and> (\<forall>k. reserved_at M k = 0) \<and> rl_live_leases M = 0 \<and> rl_next_lease M = 1"
    if "om_wf (rl_accounts L)" "\<forall>k. reserved_at L k = 0" "rl_live_leases L = 0" "rl_next_lease L = 1"
      "M = fold (\<lambda>(k, c). SetCapacity k c) caps L" for L M :: resource_ledger
    using that
  proof (induction caps arbitrary: L)
    case (Cons kc caps)
    obtain k c where kc: "kc = (k, c)" by (cases kc)
    have "\<forall>k'. reserved_at (SetCapacity k c L) k' = 0" using Cons.prems(1,2) by (simp add: SetCapacity_account)
    moreover have "rl_live_leases (SetCapacity k c L) = 0" "rl_next_lease (SetCapacity k c L) = 1"
      using Cons.prems(3,4) by (simp_all add: SetCapacity_def)
    ultimately show ?case
      using Cons.IH [of "SetCapacity k c L"] SetCapacity_wf [OF Cons.prems(1), of k c] Cons.prems(5) by (simp add: kc)
  qed simp
  from this [OF _ _ _ _ ResourceLedger_new_def] show ?thesis by (simp add: new_account_def)
qed

lemma room_keeps_capacities:
  assumes "capacities_kept L" "has_room L want"
    "\<And>k. capacity_at L' k = capacity_at L k" "\<And>k. reserved_at L' k \<le> reserved_at L k + want k"
    "\<And>k. want k = 0 \<Longrightarrow> reserved_at L' k \<le> reserved_at L k"
  shows "capacities_kept L'"
  unfolding capacities_kept_def
proof (intro allI impI)
  fix k c assume "capacity_at L' k = Some c"
  then have c: "capacity_at L k = Some c" by (simp add: assms(3))
  then have "want k = 0 \<or> reserved_at L k + want k \<le> c" using assms(2) by (auto simp: has_room_def)
  moreover have "reserved_at L k \<le> c" using assms(1) c by (auto simp: capacities_kept_def)
  ultimately show "reserved_at L' k \<le> c" using assms(4,5) [of k] by linarith
qed

lemma granted_inv:
  assumes "ledger_inv (L, ls)" "sums_fit L xs" "rl_next_lease L + 1 < 2 ^ 64" "Reserve owner xs p L = (Inr l, L')"
  shows "ledger_inv (L', ls @ [l])"
proof -
  have wf: "om_wf (rl_accounts L)" using assms(1) by (simp add: ledger_inv_def)
  have room: "has_room L (\<lambda>k. amount_of k xs)" using Reserve_spec [OF wf assms(2), of owner p] assms(4) by (auto split: if_splits)
  with Reserve_spec [OF wf assms(2), of owner p] assms(4)
  have l: "l = \<lparr>le_active = True, le_id = rl_next_lease L, le_owner = owner, le_amounts = MergeAmounts xs\<rparr>"
    and L': "om_wf (rl_accounts L')" "rl_next_lease L' = u64 (rl_next_lease L + 1)" "rl_live_leases L' = u64 (rl_live_leases L + 1)"
      "\<And>k. reserved_at L' k = reserved_at L k + amount_of k xs" "\<And>k. capacity_at L' k = capacity_at L k" "peaks_ok L \<longrightarrow> peaks_ok L'"
    by auto
  have "capacities_kept L'"
    by (rule room_keeps_capacities [OF _ room]) (use assms(1) L' in \<open>simp_all add: ledger_inv_def\<close>)
  moreover have "canonical (MergeAmounts xs)" by (rule MergeAmounts_sum(1), rule sums_fit_amounts [OF assms(2)])
  moreover have "rl_next_lease L \<notin> le_id ` set ls" using assms(1) by (auto simp: ledger_inv_def)
  ultimately show ?thesis using assms(1,3) L'
    by (auto simp: ledger_inv_def l Merge_amount [OF assms(2)] less_Suc_eq)
qed

lemma committed_inv:
  assumes "ledger_inv (L, as @ l # bs)" "sums_fit L xs" "Lease_Commit xs p l L = (r, l', L')"
  shows "ledger_inv (L', as @ l' # bs)"
proof -
  have wf: "om_wf (rl_accounts L)" and l: "le_active l" "canonical (le_amounts l)"
    and res: "\<And>k. reserved_at L k = leased k (as @ l # bs)" using assms(1) by (auto simp: ledger_inv_def)
  have held: "amount_of k (le_amounts l) \<le> reserved_at L k" for k by (simp add: res)
  note spec = Commit_spec [OF wf assms(2) l held, of p]
  show ?thesis
  proof (cases "has_room L (\<lambda>k. amount_of k xs - amount_of k (le_amounts l))")
    case True
    with spec assms(3) have l': "l' = l\<lparr>le_amounts := MergeAmounts xs\<rparr>"
      and L': "om_wf (rl_accounts L')" "rl_next_lease L' = rl_next_lease L" "rl_live_leases L' = rl_live_leases L"
        "\<And>k. reserved_at L' k = reserved_at L k - amount_of k (le_amounts l) + amount_of k xs"
        "\<And>k. capacity_at L' k = capacity_at L k" "peaks_ok L \<longrightarrow> peaks_ok L'"
      by auto
    have "capacities_kept L'"
      by (rule room_keeps_capacities [OF _ True]) (use assms(1) L' held in \<open>auto simp: ledger_inv_def\<close>)
    moreover have "canonical (MergeAmounts xs)" by (rule MergeAmounts_sum(1), rule sums_fit_amounts [OF assms(2)])
    moreover have "reserved_at L' k = leased k (as @ l' # bs)" for k
      by (simp add: L'(4) res l' Merge_amount [OF assms(2)])
    ultimately show ?thesis using assms(1) L' l(1) by (auto simp: ledger_inv_def l')
  next
    case False
    with spec assms(3) show ?thesis using assms(1) by auto
  qed
qed

lemma released_inv:
  assumes "ledger_inv (L, as @ l # bs)" "Lease_Release l L = (l', L')"
  shows "ledger_inv (L', as @ bs)"
proof -
  have wf: "om_wf (rl_accounts L)" and l: "le_active l" and live: "rl_live_leases L = Suc (length (as @ bs))"
    and res: "\<And>k. reserved_at L k = leased k (as @ l # bs)" using assms(1) by (auto simp: ledger_inv_def)
  have L': "L' = ReleaseLease (le_amounts l) L" using assms(2) l by (simp add: Lease_Release_def)
  have acc: "account_of (rl_accounts L') k =
      (account_of (rl_accounts L) k)\<lparr>ac_reserved := reserved_at L k - amount_of k (le_amounts l)\<rparr>" for k
    by (simp add: L' ReleaseLease_def ReleaseLocked_def Let_def release_amounts [OF wf])
  have "om_wf (rl_accounts L')" "rl_live_leases L' = length (as @ bs)" "rl_next_lease L' = rl_next_lease L"
    using live by (simp_all add: L' ReleaseLease_def ReleaseLocked_def Let_def release_amounts_wf [OF wf])
  moreover have "reserved_at L' k = leased k (as @ bs)" for k by (simp add: acc res)
  moreover have "capacities_kept L" "peaks_ok L" using assms(1) by (simp_all add: ledger_inv_def)
  then have "capacities_kept L'" "peaks_ok L'"
    unfolding capacities_kept_def peaks_ok_def acc by (auto intro: le_trans [OF diff_le_self])
  ultimately show ?thesis using assms(1) by (auto simp: ledger_inv_def)
qed

lemma ledger_step_inv: "ledger_step s t \<Longrightarrow> ledger_inv s \<Longrightarrow> ledger_inv t"
proof (induction rule: ledger_step.induct)
  case (refused L xs owner p s L' ls)
  have "om_wf (rl_accounts L)" using refused.prems by (simp add: ledger_inv_def)
  from Reserve_spec [OF this refused.hyps(1), of owner p] refused.hyps(2) have "L' = L" by (auto split: if_splits)
  then show ?case using refused.prems by simp
next
  case (resized L k c ls)
  then have wf: "om_wf (rl_accounts L)" by (simp add: ledger_inv_def)
  have "rl_next_lease (SetCapacity k c L) = rl_next_lease L" "rl_live_leases (SetCapacity k c L) = rl_live_leases L"
    by (simp_all add: SetCapacity_def)
  then show ?case using resized SetCapacity_wf [OF wf, of k c]
    by (auto simp: ledger_inv_def capacities_kept_def peaks_ok_def SetCapacity_account [OF wf])
next
  case (granted L xs owner p l L' ls)
  show ?case by (rule granted_inv [OF granted.prems granted.hyps])
next
  case (committed L xs p l r l' L' as bs)
  show ?case by (rule committed_inv [OF committed.prems committed.hyps])
next
  case (released l L l' L' as bs)
  show ?case by (rule released_inv [OF released.prems released.hyps])
qed

interpretation ledger_sys: invariant_system ledger_init ledger_step ledger_inv
proof
  fix s assume "ledger_init s"
  then show "ledger_inv s"
    using new_ledger by (auto simp: ledger_init_def ledger_inv_def capacities_kept_def peaks_ok_def)
qed (rule ledger_step_inv)

lemma UsageOf_account: "ru_reserved (UsageOf k L) = reserved_at L k" "ru_peak (UsageOf k L) = ac_peak (account_of (rl_accounts L) k)"
  by (simp_all add: UsageOf_def usage_of_account_def account_of_def new_account_def split: option.split)

lemma Capacity_account: "Ledger_Capacity k L = capacity_at L k"
  by (simp add: Ledger_Capacity_def account_of_def new_account_def split: option.split)


definition sample_ledger :: resource_ledger where
  "sample_ledger = ResourceLedger_new [(Key kCpuThreads (- 1), 4)]"

definition threads :: "nat \<Rightarrow> resource_amount" where
  "threads n = \<lparr>ra_key = Key kCpuThreads (- 1), ra_amount = n\<rparr>"

lemma sample_ledger_facts:
  "om_wf (rl_accounts sample_ledger)" "reserved_at sample_ledger k = 0" "rl_next_lease sample_ledger = 1"
  "capacity_at sample_ledger k = (if k = Key kCpuThreads (- 1) then Some 4 else None)"
  "sums_fit sample_ledger [threads n] \<longleftrightarrow> n < 2 ^ 64"
  "has_room sample_ledger (\<lambda>k. amount_of k [threads n]) \<longleftrightarrow> n \<le> 4"
proof -
  note new = new_ledger [of "[(Key kCpuThreads (- 1), 4)]", folded sample_ledger_def]
  show "om_wf (rl_accounts sample_ledger)" "rl_next_lease sample_ledger = 1" using new by blast+
  have r: "reserved_at sample_ledger k = 0" for k using new by blast
  show "reserved_at sample_ledger k = 0" by (rule r)
  have c: "capacity_at sample_ledger k = (if k = Key kCpuThreads (- 1) then Some 4 else None)" for k
    by (simp add: sample_ledger_def ResourceLedger_new_def SetCapacity_def new_account_def account_of_def)
  show "capacity_at sample_ledger k = (if k = Key kCpuThreads (- 1) then Some 4 else None)" by (rule c)
  show "sums_fit sample_ledger [threads n] \<longleftrightarrow> n < 2 ^ 64" by (auto simp: sums_fit_def r threads_def)
  show "has_room sample_ledger (\<lambda>k. amount_of k [threads n]) \<longleftrightarrow> n \<le> 4" by (auto simp: has_room_def r c threads_def)
qed

lemma sample_reserved:
  assumes "n \<le> 4"
  obtains l L where "Reserve 7 [threads n] ''job'' sample_ledger = (Inr l, L)" "reachable ledger_init ledger_step (L, [l])"
    "amount_of k (le_amounts l) = amount_of k [threads n]"
proof -
  have fit: "sums_fit sample_ledger [threads n]" using assms by (simp add: sample_ledger_facts)
  have room: "has_room sample_ledger (\<lambda>k. amount_of k [threads n])" using assms by (simp only: sample_ledger_facts)
  obtain L where L: "Reserve 7 [threads n] ''job'' sample_ledger = (Inr \<lparr>le_active = True, le_id = 1, le_owner = 7,
      le_amounts = MergeAmounts [threads n]\<rparr>, L)" (is "_ = (Inr ?l, L)")
    using Reserve_spec [OF sample_ledger_facts(1) fit, of 7 "''job''"] room
    by (auto simp: sample_ledger_facts(3))
  have i: "ledger_init (sample_ledger, [])" by (auto simp: ledger_init_def sample_ledger_def)
  have "ledger_step (sample_ledger, []) (L, [] @ [?l])"
    by (rule granted [OF fit _ L]) (simp add: sample_ledger_facts(3))
  moreover have "reachable ledger_init ledger_step (sample_ledger, [])" by (rule reach_init) (rule i)
  ultimately have "reachable ledger_init ledger_step (L, [?l])" by (simp add: reach_step)
  with L show ?thesis by (rule that) (simp add: Merge_amount [OF fit])
qed


text \<open>C9. A reservation takes everything or nothing: it is granted exactly when every account with a capacity has
  room for the whole request; then every account grows by exactly the amount asked of it and the lease holds
  these amounts. Otherwise the status is \<open>RESOURCE_EXHAUSTED\<close> and the ledger is unchanged.\<close>

theorem reserve_all_or_nothing:
  assumes "reachable ledger_init ledger_step (L, ls)" "sums_fit L xs"
  shows "if has_room L (\<lambda>k. amount_of k xs)
    then \<exists>l L'. Reserve owner xs p L = (Inr l, L') \<and> le_active l \<and>
      (\<forall>k. reserved_at L' k = reserved_at L k + amount_of k xs \<and> capacity_at L' k = capacity_at L k \<and>
        amount_of k (le_amounts l) = amount_of k xs)
    else \<exists>s. Reserve owner xs p L = (Inl s, L) \<and> st_code s = GE_STATUS_RESOURCE_EXHAUSTED"
proof -
  have "om_wf (rl_accounts L)" using ledger_sys.reachable_inv [OF assms(1)] by (simp add: ledger_inv_def)
  from Reserve_spec [OF this assms(2), of owner p] show ?thesis by (auto simp: Merge_amount [OF assms(2)])
qed

theorem reserve_all_or_nothing_witness:
  "(\<exists>l L. Reserve 7 [threads 3] ''job'' sample_ledger = (Inr l, L) \<and> reserved_at L (Key kCpuThreads (- 1)) = 3) \<and>
   (\<exists>s. Reserve 7 [threads 5] ''job'' sample_ledger = (Inl s, sample_ledger) \<and> st_code s = GE_STATUS_RESOURCE_EXHAUSTED)"
proof -
  have "ledger_init (sample_ledger, [])" by (auto simp: ledger_init_def sample_ledger_def)
  then have r: "reachable ledger_init ledger_step (sample_ledger, [])" by (rule reach_init)
  have fit: "sums_fit sample_ledger [threads 3]" "sums_fit sample_ledger [threads 5]" by (simp_all add: sample_ledger_facts(5))
  have room: "has_room sample_ledger (\<lambda>k. amount_of k [threads 3])" "\<not> has_room sample_ledger (\<lambda>k. amount_of k [threads 5])"
    unfolding sample_ledger_facts(6) by simp_all
  from reserve_all_or_nothing [OF r fit(1), of 7 "''job''"] reserve_all_or_nothing [OF r fit(2), of 7 "''job''"] room
  show ?thesis by (auto simp: sample_ledger_facts(2) threads_def)
qed

definition release_all :: "resource_lease list \<Rightarrow> resource_ledger \<Rightarrow> resource_ledger" where
  "release_all ls L = fold (\<lambda>l L. snd (Lease_Release l L)) ls L"

lemma release_all_inv: "ledger_inv (L, ls) \<Longrightarrow> ledger_inv (release_all ls L, [])"
proof (induction ls arbitrary: L)
  case (Cons l ls)
  have "ledger_inv (snd (Lease_Release l L), ls)"
    using released_inv [of L "[]" l ls "fst (Lease_Release l L)" "snd (Lease_Release l L)"] Cons.prems by simp
  from Cons.IH [OF this] show ?case by (simp add: release_all_def)
qed (simp add: release_all_def)

lemma release_all_capacity:
  assumes "om_wf (rl_accounts L)"
  shows "capacity_at (release_all ls L) k = capacity_at L k"
proof -
  have one: "om_wf (rl_accounts (snd (Lease_Release l L))) \<and> capacity_at (snd (Lease_Release l L)) k = capacity_at L k"
    if "om_wf (rl_accounts L)" for l L
    using that by (simp add: Lease_Release_def ReleaseLease_def ReleaseLocked_def Let_def release_amounts release_amounts_wf)
  show ?thesis using assms unfolding release_all_def by (induction ls arbitrary: L) (simp_all add: one)
qed

text \<open>C23. A refused request can be retried: once the leases of the moment are released, every request that fits the
  capacities by itself is granted.\<close>

theorem retry_after_release:
  assumes "reachable ledger_init ledger_step (L, ls)" and "\<forall>k. amount_of k xs < 2 ^ 64"
    and "\<forall>k c. Ledger_Capacity k L = Some c \<longrightarrow> amount_of k xs \<le> c"
  shows "\<exists>l L'. Reserve owner xs p (release_all ls L) = (Inr l, L') \<and> le_active l \<and>
    (\<forall>k. amount_of k (le_amounts l) = amount_of k xs)"
proof -
  let ?L = "release_all ls L"
  have inv: "ledger_inv (L, ls)" by (rule ledger_sys.reachable_inv [OF assms(1)])
  have wf: "om_wf (rl_accounts L)" using inv by (simp add: ledger_inv_def)
  have inv': "ledger_inv (?L, [])" by (rule release_all_inv [OF inv])
  then have wf': "om_wf (rl_accounts ?L)" and zero: "\<forall>k. reserved_at ?L k = 0" by (simp_all add: ledger_inv_def)
  have fit: "sums_fit ?L xs" using assms(2) zero by (simp add: sums_fit_def)
  have "has_room ?L (\<lambda>k. amount_of k xs)"
    using assms(3) zero by (simp add: has_room_def release_all_capacity [OF wf] Capacity_account)
  then show ?thesis using Reserve_spec [OF wf' fit, of owner p] by (auto simp: Merge_amount [OF fit])
qed

theorem retry_after_release_witness:
  "\<exists>l L. Reserve 7 [threads 3] ''job'' sample_ledger = (Inr l, L) \<and>
     (\<exists>m M. Reserve 8 [threads 4] ''other'' (release_all [l] L) = (Inr m, M) \<and> le_active m)"
proof (rule sample_reserved [of 3 "Key kCpuThreads (- 1)"])
  fix l L assume L: "Reserve 7 [threads 3] ''job'' sample_ledger = (Inr l, L)" "reachable ledger_init ledger_step (L, [l])"
  have fit: "sums_fit sample_ledger [threads 3]" and room: "has_room sample_ledger (\<lambda>k. amount_of k [threads 3])"
    unfolding sample_ledger_facts(5,6) by simp_all
  have "capacity_at L k = capacity_at sample_ledger k" for k
    using Reserve_spec [OF sample_ledger_facts(1) fit, of 7 "''job''"] room L(1) by auto
  then have c: "\<forall>k c. Ledger_Capacity k L = Some c \<longrightarrow> amount_of k [threads 4] \<le> c"
    by (simp add: Capacity_account sample_ledger_facts(4) threads_def)
  have "\<forall>k. amount_of k [threads 4] < 2 ^ 64" by (simp add: threads_def)
  from retry_after_release [OF L(2) this c, of 8 "''other''"] L(1) show ?thesis by blast
qed simp

subsection \<open>Estimates\<close>

definition BitsPerPixel :: "string \<Rightarrow> nat option" where
  "BitsPerPixel fmt =
     (if fmt \<in> set [''yuv420p'', ''nv12'', ''nv21'', ''yuvj420p''] then Some 12
      else if fmt \<in> set [''yuv420p10le'', ''p010le'', ''p010''] then Some 24
      else if fmt \<in> set [''yuv422p'', ''nv16'', ''uyvy422'', ''yuyv422''] then Some 16
      else if fmt = ''yuv422p10le'' then Some 32
      else if fmt \<in> set [''yuv444p'', ''rgb24'', ''bgr24''] then Some 24
      else if fmt = ''yuv444p10le'' then Some 48
      else if fmt \<in> set [''rgba'', ''bgra'', ''argb'', ''abgr'', ''rgb0'', ''bgr0''] then Some 32
      else if fmt \<in> set [''gray'', ''gray8''] then Some 8
      else if fmt = ''gray16le'' then Some 16
      else None)"

definition DTypeBytes :: "string \<Rightarrow> nat option" where
  "DTypeBytes dtype =
     (if dtype \<in> set [''float32'', ''int32'', ''uint32''] then Some 4
      else if dtype \<in> set [''float16'', ''bfloat16'', ''int16'', ''uint16''] then Some 2
      else if dtype \<in> set [''int8'', ''uint8'', ''bool''] then Some 1
      else if dtype \<in> set [''float64'', ''int64'', ''uint64''] then Some 8
      else None)"

fun shape_count :: "int_range list \<Rightarrow> nat \<Rightarrow> nat option" where
  "shape_count [] n = Some n"
| "shape_count (d # ds) n = (if rg_max d \<le> 0 then None else shape_count ds (u64 (n * u64_of_int (rg_max d))))"

definition EstimatePacketBytes :: "connection_contract \<Rightarrow> nat option" where
  "EstimatePacketBytes contract =
     (case cc_video contract of
        Some v \<Rightarrow>
          (case (BitsPerPixel (sv_pixel_format v), sv_width v, sv_height v) of
             (Some bpp, Some w, Some h) \<Rightarrow>
               if rg_max w \<le> 0 \<or> rg_max h \<le> 0 then None
               else Some (u64 (u64 (u64_of_int (rg_max w) * u64_of_int (rg_max h)) * bpp) div 8)
           | _ \<Rightarrow> None)
      | None \<Rightarrow>
          (case cc_tensor contract of
             Some t \<Rightarrow>
               (case DTypeBytes (stn_dtype t) of
                  None \<Rightarrow> None
                | Some elem \<Rightarrow>
                    if stn_shape t = [] then None
                    else (case shape_count (stn_shape t) 1 of None \<Rightarrow> None | Some n \<Rightarrow> Some (u64 (n * elem))))
           | None \<Rightarrow> None))"

text \<open>\<open>std::from_chars\<close> for \<open>int\<close>: an optional minus sign and digits, the rest is ignored; out of range is an
  error.\<close>

definition from_chars_int :: "string \<Rightarrow> int option" where
  "from_chars_int s =
     (let neg = (s \<noteq> [] \<and> hd s = CHR ''-'');
          ds = takeWhile is_digit (if neg then tl s else s);
          v = (if neg then - int (digits_value ds) else int (digits_value ds)) in
      if ds = [] \<or> v < - (2 ^ 31) \<or> v \<ge> 2 ^ 31 then None else Some v)"

definition split_last :: "char \<Rightarrow> string \<Rightarrow> (string \<times> string) option" where
  "split_last c s =
     (case dropWhile (\<lambda>x. x \<noteq> c) (rev s) of
        [] \<Rightarrow> None
      | _ # r \<Rightarrow> Some (rev r, rev (takeWhile (\<lambda>x. x \<noteq> c) (rev s))))"

definition resource_key_device :: "string \<Rightarrow> string \<times> int" where
  "resource_key_device name =
     (case split_last CHR ''@'' name of
        None \<Rightarrow> (name, - 1)
      | Some (key, tail) \<Rightarrow> (case from_chars_int tail of Some d \<Rightarrow> (key, d) | None \<Rightarrow> (name, - 1)))"

definition node_amount :: "int \<Rightarrow> string \<times> int \<Rightarrow> resource_amount list" where
  "node_amount default_device = (\<lambda>(name, value).
     if value \<le> 0 then []
     else
       let (key, device) = resource_key_device name in
       case ParseResourceKind key of
         None \<Rightarrow> []
       | Some kind \<Rightarrow>
           let d1 = (if IsPerDevice kind \<and> device < 0 then default_device else device);
               d2 = (if \<not> IsPerDevice kind then - 1 else d1) in
           [\<lparr>ra_key = Key kind d2, ra_amount = u64_of_int value\<rparr>])"

definition EstimateNodeResources :: "capability_descriptor \<Rightarrow> resource_amount list" where
  "EstimateNodeResources cap =
     (let default_device = (if list_ex (\<lambda>d. d \<noteq> Device_Cpu) (xc_devices (cd_execution cap)) then 0 else - 1) in
      MergeAmounts (concat (map (node_amount default_device) (cd_resources cap))))"

record graph_estimate =
  ge_amounts :: "resource_amount list"
  ge_unbudgeted_edges :: "string list"

definition amount_json :: "resource_amount \<Rightarrow> json" where
  "amount_json a = json_members
     [Some (''kind'', JStr (ResourceKind_ToString (key_kind (ra_key a)))),
      Some (''device_id'', JInt (key_device (ra_key a))),
      Some (''amount'', JInt (i64 (int (ra_amount a))))]"

definition Estimate_ToJson :: "graph_estimate \<Rightarrow> json" where
  "Estimate_ToJson g = json_members
     [Some (''amounts'', JArr (map amount_json (ge_amounts g))),
      Some (''unbudgeted_edges'', JArr (map JStr (ge_unbudgeted_edges g)))]"

definition wanted :: "string list \<Rightarrow> string \<Rightarrow> bool" where
  "wanted only i \<longleftrightarrow> only = [] \<or> i \<in> set only"

definition per_packet :: "(string \<times> connection_contract) list \<Rightarrow> edge_spec \<Rightarrow> nat option" where
  "per_packet contracts e =
     (case qs_max_packet_bytes (es_queue e) of
        Some b \<Rightarrow> Some b
      | None \<Rightarrow> (case map_of contracts (es_id e) of Some c \<Rightarrow> EstimatePacketBytes c | None \<Rightarrow> None))"

definition edge_budget :: "(string \<times> connection_contract) list \<Rightarrow> edge_spec \<Rightarrow> resource_amount list" where
  "edge_budget contracts e =
     (case per_packet contracts e of
        None \<Rightarrow> []
      | Some b \<Rightarrow> [\<lparr>ra_key = Key kEdgeBufferBytes (- 1), ra_amount = u64 (b * qs_capacity (es_queue e))\<rparr>])"

definition wanted_edges :: "string list \<Rightarrow> graph_spec \<Rightarrow> edge_spec list" where
  "wanted_edges only spec = filter (\<lambda>e. wanted only (es_id e)) (gs_edges spec)"

definition estimate_amounts ::
  "(operator_key \<Rightarrow> json \<Rightarrow> resource_amount list) \<Rightarrow> graph_spec \<Rightarrow> (string \<times> connection_contract) list \<Rightarrow>
     string list \<Rightarrow> string list \<Rightarrow> resource_amount list" where
  "estimate_amounts estimate spec contracts only_nodes only_edges =
     concat (map (\<lambda>n. estimate (ns_op n) (ns_options n)) (filter (\<lambda>n. wanted only_nodes (ns_id n)) (gs_nodes spec))) @
     concat (map (edge_budget contracts) (wanted_edges only_edges spec))"

definition EstimateGraphResources ::
  "(operator_key \<Rightarrow> json \<Rightarrow> resource_amount list) \<Rightarrow> graph_spec \<Rightarrow> (string \<times> connection_contract) list \<Rightarrow>
     string list \<Rightarrow> string list \<Rightarrow> graph_estimate" where
  "EstimateGraphResources estimate spec contracts only_nodes only_edges =
     \<lparr>ge_amounts = MergeAmounts (estimate_amounts estimate spec contracts only_nodes only_edges),
      ge_unbudgeted_edges = map es_id (filter (\<lambda>e. per_packet contracts e = None) (wanted_edges only_edges spec))\<rparr>"

definition EstimateGraphResources_static ::
  "(operator_key \<Rightarrow> capability_descriptor option) \<Rightarrow> graph_spec \<Rightarrow> (string \<times> connection_contract) list \<Rightarrow>
     string list \<Rightarrow> string list \<Rightarrow> graph_estimate" where
  "EstimateGraphResources_static describe spec contracts only_nodes only_edges =
     EstimateGraphResources (\<lambda>k _. case describe k of None \<Rightarrow> [] | Some cap \<Rightarrow> EstimateNodeResources cap)
       spec contracts only_nodes only_edges"

abbreviation edge_buffers :: resource_key where
  "edge_buffers \<equiv> Key kEdgeBufferBytes (- 1)"

lemma edge_budgets:
  assumes "\<forall>e\<in>set es. \<forall>b. per_packet cs e = Some b \<longrightarrow> b * qs_capacity (es_queue e) < 2 ^ 64"
  shows "amount_of edge_buffers (concat (map (edge_budget cs) es)) =
    (\<Sum>e\<leftarrow>es. case per_packet cs e of Some b \<Rightarrow> b * qs_capacity (es_queue e) | None \<Rightarrow> 0)"
  using assms by (induction es) (auto simp: edge_budget_def split: option.splits)

lemma queue_bytes: "length q \<le> c \<Longrightarrow> \<forall>x\<in>set q. x \<le> b \<Longrightarrow> sum_list q \<le> b * (c::nat)"
proof (induction q arbitrary: c)
  case (Cons x q)
  then obtain c' where c: "c = Suc c'" by (cases c) auto
  from Cons have "sum_list q \<le> b * c'" "x \<le> b" by (auto simp: c)
  then show ?case by (simp add: c)
qed simp

text \<open>C24. The estimate of a graph covers its queues. Whatever packets the queues of the wanted edges hold (at most
  the capacity of the queue, each within the bound of its edge), all their bytes together fit in the edge
  buffer amount of the estimate; every wanted edge without a bound is listed as unbudgeted. Sums below
  \<open>2 ^ 64\<close> are assumed.\<close>

theorem estimate_covers_queues:
  assumes "\<forall>k. amount_of k (estimate_amounts estimate spec contracts only_nodes only_edges) < 2 ^ 64"
    and "\<forall>e\<in>set (wanted_edges only_edges spec). \<forall>b. per_packet contracts e = Some b \<longrightarrow>
      b * qs_capacity (es_queue e) < 2 ^ 64 \<and> length (queue e) \<le> qs_capacity (es_queue e) \<and> (\<forall>x\<in>set (queue e). x \<le> b)"
  shows "let est = EstimateGraphResources estimate spec contracts only_nodes only_edges;
             es = wanted_edges only_edges spec in
    (\<Sum>e\<leftarrow>filter (\<lambda>e. per_packet contracts e \<noteq> None) es. sum_list (queue e)) \<le> amount_of edge_buffers (ge_amounts est) \<and>
    ge_unbudgeted_edges est = map es_id (filter (\<lambda>e. per_packet contracts e = None) es)"
proof -
  let ?es = "wanted_edges only_edges spec" and ?raw = "estimate_amounts estimate spec contracts only_nodes only_edges"
  have q: "(\<Sum>e\<leftarrow>filter (\<lambda>e. per_packet contracts e \<noteq> None) xs. sum_list (queue e)) \<le>
      (\<Sum>e\<leftarrow>xs. case per_packet contracts e of Some b \<Rightarrow> b * qs_capacity (es_queue e) | None \<Rightarrow> 0)" if "set xs \<subseteq> set ?es" for xs
    using that
  proof (induction xs)
    case (Cons e xs)
    have "sum_list (queue e) \<le> b * qs_capacity (es_queue e)" if "per_packet contracts e = Some b" for b
      using Cons.prems assms(2) that by (intro queue_bytes) auto
    then show ?case using Cons by (auto split: option.split intro: add_mono)
  qed simp
  have "amount_of edge_buffers (concat (map (edge_budget contracts) ?es)) \<le> amount_of edge_buffers ?raw"
    by (simp add: estimate_amounts_def)
  also have "\<dots> = amount_of edge_buffers (MergeAmounts ?raw)" using MergeAmounts_sum(2) [of ?raw] assms(1) by simp
  finally show ?thesis
    using q [OF subset_refl] edge_budgets [of ?es contracts] assms(2) by (simp add: EstimateGraphResources_def Let_def)
qed

definition sample_estimate :: "operator_key \<Rightarrow> json \<Rightarrow> resource_amount list" where
  "sample_estimate op options = [threads 1]"

definition bounded_chain :: graph_spec where
  "bounded_chain = sample_chain\<lparr>gs_edges := map (\<lambda>e. e\<lparr>es_queue := (es_queue e)\<lparr>qs_max_packet_bytes := Some 100\<rparr>\<rparr>) (gs_edges sample_chain)\<rparr>"

theorem estimate_covers_queues_witness:
  "(\<Sum>e\<leftarrow>wanted_edges [] bounded_chain. sum_list [100, 100]) \<le>
     amount_of edge_buffers (ge_amounts (EstimateGraphResources sample_estimate bounded_chain [] [] []))"
proof -
  have b: "\<forall>e\<in>set (wanted_edges [] bounded_chain). per_packet [] e = Some 100 \<and> qs_capacity (es_queue e) = 2"
    by (simp add: wanted_edges_def wanted_def bounded_chain_def sample_chain_def sample_edge_def sample_queue_def per_packet_def)
  have "filter (\<lambda>e. per_packet [] e \<noteq> None) (wanted_edges [] bounded_chain) = wanted_edges [] bounded_chain"
    using b by (simp add: filter_id_conv)
  moreover have "\<forall>k. amount_of k (estimate_amounts sample_estimate bounded_chain [] [] []) < 2 ^ 64"
    by (simp add: estimate_amounts_def wanted_edges_def wanted_def bounded_chain_def sample_chain_def sample_edge_def
        sample_queue_def edge_budget_def per_packet_def sample_estimate_def threads_def)
  ultimately show ?thesis
    using estimate_covers_queues [of sample_estimate bounded_chain "[]" "[]" "[]" "\<lambda>_. [100, 100]"] b by (simp add: Let_def)
qed

end
