(* ===== verification/Operation_Registry.thy ===== *)
theory Operation_Registry
  imports Json_Reader
begin

section \<open>Control operations\<close>

text \<open>
  The registry of control operations of \<open>include/ge/cpp/operation.h\<close> and \<open>src/operation.cpp\<close>: an operation is
  created, may run, and ends once as succeeded, failed or cancelled; the records of the most recent ends are
  kept. Blocking in \<open>Wait\<close> is its predicate, the wall clock is an argument, and the terminal hook is the
  record it is called with. An invariant of all runs over the locale \<open>invariant_system\<close> gives that hooks, waiters
  and retained records agree.
\<close>

subsection \<open>Records\<close>

datatype OperationState = op_Accepted | op_Running | op_Succeeded | op_Failed | op_Cancelled

fun OperationState_ToString :: "OperationState \<Rightarrow> string" where
  "OperationState_ToString op_Accepted = ''accepted''"
| "OperationState_ToString op_Running = ''running''"
| "OperationState_ToString op_Succeeded = ''succeeded''"
| "OperationState_ToString op_Failed = ''failed''"
| "OperationState_ToString op_Cancelled = ''cancelled''"

record caller_context =
  cx_caller_id :: string
  cx_request_id :: string

record operation_record =
  orc_id :: nat
  orc_kind :: string
  orc_session_id :: nat
  orc_state :: OperationState
  orc_result :: status
  orc_topology_version :: "nat option"
  orc_parameter_version :: "nat option"
  orc_caller :: caller_context
  orc_detail :: json
  orc_created_ns :: int
  orc_finished_ns :: int

definition op_terminal :: "operation_record \<Rightarrow> bool" where
  "op_terminal r \<longleftrightarrow> orc_state r = op_Succeeded \<or> orc_state r = op_Failed \<or> orc_state r = op_Cancelled"

definition OperationRecord_ToJson :: "operation_record \<Rightarrow> json" where
  "OperationRecord_ToJson r = json_members
     [Some (''operation_id'', JInt (i64 (int (orc_id r)))),
      Some (''kind'', JStr (orc_kind r)),
      Some (''session_id'', JInt (i64 (int (orc_session_id r)))),
      Some (''state'', JStr (OperationState_ToString (orc_state r))),
      Some (''status'', JStr (CodeName (st_code (orc_result r)))),
      if st_message (orc_result r) \<noteq> [] then Some (''message'', JStr (st_message (orc_result r))) else None,
      map_option (\<lambda>v. (''topology_version'', JInt (i64 (int v)))) (orc_topology_version r),
      map_option (\<lambda>v. (''parameter_version'', JInt (i64 (int v)))) (orc_parameter_version r),
      if cx_caller_id (orc_caller r) \<noteq> [] then Some (''caller_id'', JStr (cx_caller_id (orc_caller r))) else None,
      if cx_request_id (orc_caller r) \<noteq> [] then Some (''request_id'', JStr (cx_request_id (orc_caller r))) else None,
      if is_object (orc_detail r) \<and> as_object (orc_detail r) \<noteq> [] then Some (''detail'', orc_detail r) else None,
      Some (''created_ns'', JInt (orc_created_ns r)),
      if orc_finished_ns r \<noteq> 0 then Some (''finished_ns'', JInt (orc_finished_ns r)) else None]"

subsection \<open>The registry\<close>

text \<open>\<open>reg_hook\<close> tells whether a terminal hook is set; an operation that ends returns the record the hook is called
  with. \<open>now\<close> is the wall clock.\<close>

record operation_registry =
  reg_records :: "(nat \<times> operation_record) list"
  reg_terminal_order :: "nat list"
  reg_retain_terminal :: nat
  reg_next_id :: nat
  reg_hook :: bool

definition OperationRegistry_new :: "nat \<Rightarrow> operation_registry" where
  "OperationRegistry_new retain =
     \<lparr>reg_records = [], reg_terminal_order = [], reg_retain_terminal = max 1 retain, reg_next_id = 1, reg_hook = False\<rparr>"

definition SetTerminalHook :: "bool \<Rightarrow> operation_registry \<Rightarrow> operation_registry" where
  "SetTerminalHook h reg = reg\<lparr>reg_hook := h\<rparr>"

definition Op_Create ::
  "string \<Rightarrow> nat \<Rightarrow> caller_context \<Rightarrow> json \<Rightarrow> int \<Rightarrow> operation_registry \<Rightarrow> nat \<times> operation_registry" where
  "Op_Create kind session caller detail now reg =
     (let i = reg_next_id reg;
          r = \<lparr>orc_id = i, orc_kind = kind, orc_session_id = session, orc_state = op_Accepted, orc_result = Status_Ok,
               orc_topology_version = None, orc_parameter_version = None, orc_caller = caller,
               orc_detail = (if is_object detail then detail else JObj []), orc_created_ns = now, orc_finished_ns = 0\<rparr> in
      (i, reg\<lparr>reg_next_id := u64 (i + 1), reg_records := om_emplace i r (reg_records reg)\<rparr>))"

definition SetRunning :: "nat \<Rightarrow> operation_registry \<Rightarrow> operation_registry" where
  "SetRunning i reg =
     (case map_of (reg_records reg) i of
        None \<Rightarrow> reg
      | Some r \<Rightarrow> if op_terminal r then reg
          else reg\<lparr>reg_records := om_put i (r\<lparr>orc_state := op_Running\<rparr>) (reg_records reg)\<rparr>)"

definition SetTopologyVersion :: "nat \<Rightarrow> nat \<Rightarrow> operation_registry \<Rightarrow> operation_registry" where
  "SetTopologyVersion i v reg =
     (case map_of (reg_records reg) i of
        None \<Rightarrow> reg
      | Some r \<Rightarrow> reg\<lparr>reg_records := om_put i (r\<lparr>orc_topology_version := Some v\<rparr>) (reg_records reg)\<rparr>)"

definition merge_detail :: "json \<Rightarrow> json \<Rightarrow> json" where
  "merge_detail old detail =
     (if is_object detail
      then JObj (fold (\<lambda>(k, v). om_put k v) (as_object detail) (if is_object old then as_object old else []))
      else old)"

text \<open>The loop that forgets the oldest terminal records.\<close>

function retain_loop :: "nat \<Rightarrow> nat list \<Rightarrow> (nat \<times> operation_record) list \<Rightarrow> nat list \<times> (nat \<times> operation_record) list" where
  "retain_loop limit order records =
     (if length order > limit then retain_loop limit (tl order) (om_erase (hd order) records) else (order, records))"
  by pat_completeness auto
termination by (relation "measure (\<lambda>(limit, order, records). length order)") auto

declare retain_loop.simps [simp del]

definition Op_Finish ::
  "nat \<Rightarrow> OperationState \<Rightarrow> status \<Rightarrow> json \<Rightarrow> nat option \<Rightarrow> nat option \<Rightarrow> int \<Rightarrow> operation_registry \<Rightarrow>
     operation_registry \<times> operation_record option" where
  "Op_Finish i state result detail tv pv now reg =
     (case map_of (reg_records reg) i of
        None \<Rightarrow> (reg, None)
      | Some r \<Rightarrow>
          if op_terminal r then (reg, None)
          else
            let r' = r\<lparr>orc_state := state, orc_result := result,
                  orc_topology_version := (case tv of Some v \<Rightarrow> Some v | None \<Rightarrow> orc_topology_version r),
                  orc_parameter_version := (case pv of Some v \<Rightarrow> Some v | None \<Rightarrow> orc_parameter_version r),
                  orc_detail := merge_detail (orc_detail r) detail, orc_finished_ns := now\<rparr>;
                (order, records) = retain_loop (reg_retain_terminal reg) (reg_terminal_order reg @ [i])
                  (om_put i r' (reg_records reg)) in
            (reg\<lparr>reg_records := records, reg_terminal_order := order\<rparr>, if reg_hook reg then Some r' else None))"

definition Op_Succeed ::
  "nat \<Rightarrow> nat option \<Rightarrow> nat option \<Rightarrow> json \<Rightarrow> int \<Rightarrow> operation_registry \<Rightarrow> operation_registry \<times> operation_record option" where
  "Op_Succeed i tv pv detail now reg = Op_Finish i op_Succeeded Status_Ok detail tv pv now reg"

definition Op_Fail ::
  "nat \<Rightarrow> status \<Rightarrow> json \<Rightarrow> int \<Rightarrow> operation_registry \<Rightarrow> operation_registry \<times> operation_record option" where
  "Op_Fail i status detail now reg = Op_Finish i op_Failed status detail None None now reg"

definition Op_Cancel :: "nat \<Rightarrow> string \<Rightarrow> int \<Rightarrow> operation_registry \<Rightarrow> operation_registry \<times> operation_record option" where
  "Op_Cancel i reason now reg = Op_Finish i op_Cancelled (Status_Cancelled reason) JNull None None now reg"

definition Op_Get :: "nat \<Rightarrow> operation_registry \<Rightarrow> operation_record option" where
  "Op_Get i reg = map_of (reg_records reg) i"

text \<open>\<open>Wait\<close> returns when its predicate holds: the operation is unknown or terminal.\<close>

definition wait_done :: "nat \<Rightarrow> operation_registry \<Rightarrow> bool" where
  "wait_done i reg = (case map_of (reg_records reg) i of None \<Rightarrow> True | Some r \<Rightarrow> op_terminal r)"

subsection \<open>All runs of a registry\<close>

text \<open>The log holds the ids the terminal hook was called for, in order. Ids stay below \<open>2 ^ 64\<close>.\<close>

inductive registry_step :: "operation_registry \<times> nat list \<Rightarrow> operation_registry \<times> nat list \<Rightarrow> bool" where
  created: "reg_next_id reg + 1 < 2 ^ 64 \<Longrightarrow> Op_Create kind session caller detail now reg = (i, reg') \<Longrightarrow>
     registry_step (reg, log) (reg', log)"
| running: "registry_step (reg, log) (SetRunning i reg, log)"
| versioned: "registry_step (reg, log) (SetTopologyVersion i v reg, log)"
| finished: "state \<in> {op_Succeeded, op_Failed, op_Cancelled} \<Longrightarrow>
     Op_Finish i state result detail tv pv now reg = (reg', snapshot) \<Longrightarrow>
     registry_step (reg, log) (reg', log @ (case snapshot of Some r \<Rightarrow> [orc_id r] | None \<Rightarrow> []))"

definition registry_init :: "operation_registry \<times> nat list \<Rightarrow> bool" where
  "registry_init s \<longleftrightarrow> (\<exists>retain. s = (SetTerminalHook True (OperationRegistry_new retain), []))"

definition live_op :: "operation_registry \<Rightarrow> nat \<Rightarrow> bool" where
  "live_op reg i \<longleftrightarrow> (\<exists>r. map_of (reg_records reg) i = Some r \<and> \<not> op_terminal r)"

definition registry_inv :: "operation_registry \<times> nat list \<Rightarrow> bool" where
  "registry_inv = (\<lambda>(reg, log). om_wf (reg_records reg) \<and> reg_hook reg \<and> 1 \<le> reg_retain_terminal reg \<and>
     1 \<le> reg_next_id reg \<and> reg_next_id reg < 2 ^ 64 \<and>
     (\<forall>i r. map_of (reg_records reg) i = Some r \<longrightarrow> orc_id r = i \<and> 1 \<le> i \<and> i < reg_next_id reg) \<and>
     distinct log \<and> set log = {i. 1 \<le> i \<and> i < reg_next_id reg \<and> \<not> live_op reg i} \<and>
     reg_terminal_order reg = drop (length log - reg_retain_terminal reg) log \<and>
     (\<forall>i. (\<exists>r. map_of (reg_records reg) i = Some r \<and> op_terminal r) \<longleftrightarrow> i \<in> set (reg_terminal_order reg)))"

lemma retain_loop_keep: "length order \<le> limit \<Longrightarrow> retain_loop limit order records = (order, records)"
  by (simp add: retain_loop.simps)

lemma retain_loop_one:
  "length order = Suc limit \<Longrightarrow> retain_loop limit order records = (tl order, om_erase (hd order) records)"
  by (simp add: retain_loop.simps [of limit order] retain_loop_keep)

text \<open>Only unfinished operations change, and they end exactly once.\<close>

lemma Op_Finish_ended:
  assumes "\<not> live_op reg i"
  shows "Op_Finish i state result detail tv pv now reg = (reg, None)"
  using assms by (auto simp: Op_Finish_def live_op_def split: option.split)

lemma live_SetRunning [simp]: "om_wf (reg_records reg) \<Longrightarrow> live_op (SetRunning i reg) j \<longleftrightarrow> live_op reg j"
  by (auto simp: live_op_def SetRunning_def op_terminal_def split: option.splits)

lemma step_frames:
  "reg_next_id (SetRunning i reg) = reg_next_id reg" "reg_terminal_order (SetRunning i reg) = reg_terminal_order reg"
  "reg_retain_terminal (SetRunning i reg) = reg_retain_terminal reg" "reg_hook (SetRunning i reg) = reg_hook reg"
  "reg_next_id (SetTopologyVersion i v reg) = reg_next_id reg"
  "reg_terminal_order (SetTopologyVersion i v reg) = reg_terminal_order reg"
  "reg_retain_terminal (SetTopologyVersion i v reg) = reg_retain_terminal reg" "reg_hook (SetTopologyVersion i v reg) = reg_hook reg"
  by (simp_all add: SetRunning_def SetTopologyVersion_def split: option.split)

lemma SetRunning_record:
  "om_wf (reg_records reg) \<Longrightarrow> map_of (reg_records (SetRunning i reg)) j =
     (case map_of (reg_records reg) j of Some r \<Rightarrow> Some (if j = i \<and> \<not> op_terminal r then r\<lparr>orc_state := op_Running\<rparr> else r) | None \<Rightarrow> None)"
  by (cases "map_of (reg_records reg) j") (auto simp: SetRunning_def split: option.split)

lemma SetTopologyVersion_record:
  "om_wf (reg_records reg) \<Longrightarrow> map_of (reg_records (SetTopologyVersion i v reg)) j =
     (case map_of (reg_records reg) j of Some r \<Rightarrow> Some (if j = i then r\<lparr>orc_topology_version := Some v\<rparr> else r) | None \<Rightarrow> None)"
  by (cases "map_of (reg_records reg) j") (auto simp: SetTopologyVersion_def split: option.split)

text \<open>A change of records that keeps ids and terminal states keeps the invariant.\<close>

lemma registry_inv_update:
  assumes "registry_inv (reg, log)" and "om_wf (reg_records reg')"
    and "\<And>i. map_option (\<lambda>r. (orc_id r, op_terminal r)) (map_of (reg_records reg') i) =
      map_option (\<lambda>r. (orc_id r, op_terminal r)) (map_of (reg_records reg) i)"
    and "reg_next_id reg' = reg_next_id reg" "reg_terminal_order reg' = reg_terminal_order reg"
      "reg_retain_terminal reg' = reg_retain_terminal reg" "reg_hook reg' = reg_hook reg"
  shows "registry_inv (reg', log)"
proof -
  have some: "(\<exists>r. map_of (reg_records reg') i = Some r \<and> P (orc_id r) (op_terminal r)) \<longleftrightarrow>
      (\<exists>r. map_of (reg_records reg) i = Some r \<and> P (orc_id r) (op_terminal r))" for i P
    using assms(3) [of i] by (cases "map_of (reg_records reg) i"; cases "map_of (reg_records reg') i") auto
  have live: "live_op reg' i \<longleftrightarrow> live_op reg i" for i unfolding live_op_def using some [of i "\<lambda>_ t. \<not> t"] .
  have ids: "orc_id r = i \<and> 1 \<le> i \<and> i < reg_next_id reg" if "map_of (reg_records reg') i = Some r" for i r
  proof -
    have "\<exists>q. map_of (reg_records reg) i = Some q \<and> orc_id q = orc_id r"
      using that some [of i "\<lambda>x _. x = orc_id r"] by blast
    then show ?thesis using assms(1) by (auto simp: registry_inv_def)
  qed
  show ?thesis using assms(1,2) ids
    unfolding registry_inv_def prod.case live assms(4-7) some [of _ "\<lambda>_ t. t"] by blast
qed

lemma created_inv:
  assumes "registry_inv (reg, log)" "reg_next_id reg + 1 < 2 ^ 64" "Op_Create kind session caller detail now reg = (i, reg')"
  shows "registry_inv (reg', log)"
proof -
  let ?n = "reg_next_id reg"
  have inv: "om_wf (reg_records reg)" "map_of (reg_records reg) ?n = None"
    using assms(1) by (auto simp: registry_inv_def intro: ccontr)
  define r where "r = \<lparr>orc_id = ?n, orc_kind = kind, orc_session_id = session, orc_state = op_Accepted, orc_result = Status_Ok,
     orc_topology_version = None, orc_parameter_version = None, orc_caller = caller,
     orc_detail = (if is_object detail then detail else JObj []), orc_created_ns = now, orc_finished_ns = 0\<rparr>"
  have r: "\<not> op_terminal r" "orc_id r = ?n" by (simp_all add: r_def op_terminal_def)
  have reg': "reg' = reg\<lparr>reg_next_id := ?n + 1, reg_records := om_emplace ?n r (reg_records reg)\<rparr>"
    using assms(2,3) by (auto simp: Op_Create_def Let_def r_def)
  have rec: "map_of (reg_records reg') j = (if j = ?n then Some r else map_of (reg_records reg) j)" for j
    using inv by (simp add: reg' om_emplace_def)
  have live: "live_op reg' j \<longleftrightarrow> j = ?n \<or> live_op reg j" for j using inv(2) r(1) by (auto simp: live_op_def rec)
  have fresh: "\<not> live_op reg ?n" using inv(2) by (simp add: live_op_def)
  have set: "{j. 1 \<le> j \<and> j < ?n + 1 \<and> \<not> live_op reg' j} = {j. 1 \<le> j \<and> j < ?n \<and> \<not> live_op reg j}"
    using fresh by (auto simp: live less_Suc_eq)
  have order: "(\<exists>q. map_of (reg_records reg') j = Some q \<and> op_terminal q) \<longleftrightarrow>
      (\<exists>q. map_of (reg_records reg) j = Some q \<and> op_terminal q)" for j
    using inv(2) r(1) by (auto simp: rec)
  have wf: "om_wf (reg_records reg')" using inv(1) by (simp add: reg')
  have frames: "reg_next_id reg' = ?n + 1" "reg_terminal_order reg' = reg_terminal_order reg"
    "reg_retain_terminal reg' = reg_retain_terminal reg" "reg_hook reg' = reg_hook reg" by (simp_all add: reg')
  show ?thesis
    unfolding registry_inv_def prod.case frames set order
    using assms(1,2) wf r(2) by (auto simp: registry_inv_def rec less_Suc_eq split: if_splits)
qed

lemma Op_Finish_live:
  assumes inv: "registry_inv (reg, log)" and live: "live_op reg i" and st: "state \<in> {op_Succeeded, op_Failed, op_Cancelled}"
    and fin: "Op_Finish i state result detail tv pv now reg = (reg', snapshot)"
  obtains r where "op_terminal r" "orc_id r = i" "snapshot = Some r" "om_wf (reg_records reg')"
    "reg_next_id reg' = reg_next_id reg" "reg_retain_terminal reg' = reg_retain_terminal reg" "reg_hook reg' = reg_hook reg"
    "if length (reg_terminal_order reg) < reg_retain_terminal reg
     then reg_terminal_order reg' = reg_terminal_order reg @ [i] \<and>
       (\<forall>j. map_of (reg_records reg') j = (if j = i then Some r else map_of (reg_records reg) j))
     else reg_terminal_order reg' = tl (reg_terminal_order reg) @ [i] \<and>
       (\<forall>j. map_of (reg_records reg') j = (if j = hd (reg_terminal_order reg) then None
          else if j = i then Some r else map_of (reg_records reg) j))"
proof -
  obtain q where q: "map_of (reg_records reg) i = Some q" "\<not> op_terminal q" using live by (auto simp: live_op_def)
  have wf: "om_wf (reg_records reg)" and h: "reg_hook reg" and id: "orc_id q = i" and lim: "1 \<le> reg_retain_terminal reg"
    and len: "length (reg_terminal_order reg) \<le> reg_retain_terminal reg"
    using inv q(1) by (auto simp: registry_inv_def)
  define r where "r = q\<lparr>orc_state := state, orc_result := result,
      orc_topology_version := (case tv of Some v \<Rightarrow> Some v | None \<Rightarrow> orc_topology_version q),
      orc_parameter_version := (case pv of Some v \<Rightarrow> Some v | None \<Rightarrow> orc_parameter_version q),
      orc_detail := merge_detail (orc_detail q) detail, orc_finished_ns := now\<rparr>"
  obtain order records where loop: "retain_loop (reg_retain_terminal reg) (reg_terminal_order reg @ [i]) (om_put i r (reg_records reg)) = (order, records)"
    by fastforce
  have out: "reg' = reg\<lparr>reg_records := records, reg_terminal_order := order\<rparr>" "snapshot = Some r"
    using fin h loop q by (auto simp: Op_Finish_def r_def Let_def)
  have t: "op_terminal r" "orc_id r = i" using st id by (auto simp: r_def op_terminal_def)
  show ?thesis
  proof (cases "length (reg_terminal_order reg) < reg_retain_terminal reg")
    case True
    then have "order = reg_terminal_order reg @ [i]" "records = om_put i r (reg_records reg)"
      using loop retain_loop_keep [of "reg_terminal_order reg @ [i]"] by simp_all
    then show ?thesis using that [OF t out(2)] wf True by (simp add: out(1))
  next
    case False
    then have ne: "reg_terminal_order reg \<noteq> []" "length (reg_terminal_order reg @ [i]) = Suc (reg_retain_terminal reg)" using len lim by auto
    then have "order = tl (reg_terminal_order reg) @ [i]" "records = om_erase (hd (reg_terminal_order reg)) (om_put i r (reg_records reg))"
      using loop retain_loop_one [OF ne(2), of "om_put i r (reg_records reg)"] by simp_all
    then show ?thesis using that [OF t out(2)] wf False by (simp add: out(1) map_of_om_erase)
  qed
qed

lemma finished_inv:
  assumes inv: "registry_inv (reg, log)" and st: "state \<in> {op_Succeeded, op_Failed, op_Cancelled}"
    and fin: "Op_Finish i state result detail tv pv now reg = (reg', snapshot)"
  shows "registry_inv (reg', log @ (case snapshot of Some r \<Rightarrow> [orc_id r] | None \<Rightarrow> []))"
proof (cases "live_op reg i")
  case False
  then show ?thesis using Op_Finish_ended [OF False] fin inv by simp
next
  case True
  obtain r where r: "op_terminal r" "orc_id r = i" "snapshot = Some r" and wf: "om_wf (reg_records reg')"
    and fr: "reg_next_id reg' = reg_next_id reg" "reg_retain_terminal reg' = reg_retain_terminal reg" "reg_hook reg' = reg_hook reg"
    and out: "if length (reg_terminal_order reg) < reg_retain_terminal reg
     then reg_terminal_order reg' = reg_terminal_order reg @ [i] \<and>
       (\<forall>j. map_of (reg_records reg') j = (if j = i then Some r else map_of (reg_records reg) j))
     else reg_terminal_order reg' = tl (reg_terminal_order reg) @ [i] \<and>
       (\<forall>j. map_of (reg_records reg') j = (if j = hd (reg_terminal_order reg) then None
          else if j = i then Some r else map_of (reg_records reg) j))"
    by (rule Op_Finish_live [OF inv True st fin])
  let ?o = "reg_terminal_order reg" and ?lim = "reg_retain_terminal reg"
  note I = inv [unfolded registry_inv_def prod.case]
  have ended: "(\<exists>q. map_of (reg_records reg) j = Some q \<and> op_terminal q) \<longleftrightarrow> j \<in> set ?o" for j using I by blast
  have o: "?o = drop (length log - ?lim) log" using I by blast
  have lo: "length ?o = length log - (length log - ?lim)" using arg_cong [OF o, of length] by (simp only: length_drop)
  have "i \<notin> set log" using I True by auto
  moreover have "1 \<le> i \<and> i < reg_next_id reg" using I True unfolding live_op_def by blast
  ultimately have i: "i \<notin> set ?o" "1 \<le> i" "i < reg_next_id reg" "i \<notin> set log" unfolding o by (auto dest: in_set_dropD)
  have log: "distinct (log @ [i])" "set (log @ [i]) = {j. 1 \<le> j \<and> j < reg_next_id reg \<and> \<not> (live_op reg j \<and> j \<noteq> i)}"
    using I i True by auto
  have res: "registry_inv (reg', log @ [i])" if o': "reg_terminal_order reg' = drop (length (log @ [i]) - ?lim) (log @ [i])"
    and live: "\<And>j. live_op reg' j \<longleftrightarrow> live_op reg j \<and> j \<noteq> i"
    and rec: "\<And>j q. map_of (reg_records reg') j = Some q \<Longrightarrow> j = i \<and> q = r \<or> map_of (reg_records reg) j = Some q"
    and ended': "\<And>j. (\<exists>q. map_of (reg_records reg') j = Some q \<and> op_terminal q) \<longleftrightarrow> j \<in> set (reg_terminal_order reg')"
    unfolding registry_inv_def prod.case fr live
  proof (intro conjI allI impI)
    show "om_wf (reg_records reg')" by (rule wf)
    show "reg_hook reg" "1 \<le> ?lim" "1 \<le> reg_next_id reg" "reg_next_id reg < 2 ^ 64" using I by blast+
    show "distinct (log @ [i])" "set (log @ [i]) = {j. 1 \<le> j \<and> j < reg_next_id reg \<and> \<not> (live_op reg j \<and> j \<noteq> i)}" by (rule log)+
    show "reg_terminal_order reg' = drop (length (log @ [i]) - ?lim) (log @ [i])" by (rule o')
    show "(\<exists>q. map_of (reg_records reg') j = Some q \<and> op_terminal q) \<longleftrightarrow> j \<in> set (reg_terminal_order reg')" for j by (rule ended')
    fix j q assume "map_of (reg_records reg') j = Some q"
    then have "j = i \<and> q = r \<or> map_of (reg_records reg) j = Some q" by (rule rec)
    then have "orc_id q = j \<and> 1 \<le> j \<and> j < reg_next_id reg" using I i(2,3) r(2) by blast
    then show "orc_id q = j" "1 \<le> j" "j < reg_next_id reg" by blast+
  qed
  show ?thesis
  proof (cases "length ?o < ?lim")
    case less: True
    with out have o': "reg_terminal_order reg' = ?o @ [i]"
      and rec: "\<And>j. map_of (reg_records reg') j = (if j = i then Some r else map_of (reg_records reg) j)" by auto
    have short: "length log < ?lim" using less lo by linarith
    then have "?o = log" using o by simp
    then have "reg_terminal_order reg' = drop (length (log @ [i]) - ?lim) (log @ [i])" unfolding o' using short by simp
    moreover have "live_op reg' j \<longleftrightarrow> live_op reg j \<and> j \<noteq> i" for j using r(1) by (auto simp: live_op_def rec)
    moreover have "j = i \<and> q = r \<or> map_of (reg_records reg) j = Some q" if "map_of (reg_records reg') j = Some q" for j q
      using that by (simp add: rec split: if_splits)
    moreover have "(\<exists>q. map_of (reg_records reg') j = Some q \<and> op_terminal q) \<longleftrightarrow> j \<in> set (reg_terminal_order reg')" for j
      unfolding o' using ended [of j] r(1) by (auto simp: rec)
    ultimately have "registry_inv (reg', log @ [i])" by (rule res)
    then show ?thesis using r(2,3) by simp
  next
    case full: False
    with out have o': "reg_terminal_order reg' = tl ?o @ [i]"
      and rec: "\<And>j. map_of (reg_records reg') j = (if j = hd ?o then None else if j = i then Some r else map_of (reg_records reg) j)" by auto
    have len: "?lim \<le> length log" "1 \<le> ?lim" using full lo I by linarith+
    then have ne: "?o \<noteq> []" using lo by (cases ?o) auto
    have "distinct ?o" unfolding o using log(1) by simp
    then have hd: "hd ?o \<in> set ?o" "hd ?o \<noteq> i" "hd ?o \<notin> set (tl ?o)" "set ?o = insert (hd ?o) (set (tl ?o))"
      using ne i(1) by (cases ?o; simp)+
    have "\<not> live_op reg (hd ?o)" using ended [of "hd ?o"] hd(1) by (auto simp: live_op_def)
    then have live: "live_op reg' j \<longleftrightarrow> live_op reg j \<and> j \<noteq> i" for j using r(1) hd(2) by (auto simp: live_op_def rec)
    have ended': "(\<exists>q. map_of (reg_records reg') j = Some q \<and> op_terminal q) \<longleftrightarrow> j \<in> set (reg_terminal_order reg')" for j
      unfolding o' using ended [of j] r(1) hd by (auto simp: rec)
    have "tl ?o = drop (Suc (length log) - ?lim) log" unfolding o using len(1) by (simp add: tl_drop drop_Suc Suc_diff_le)
    then have "reg_terminal_order reg' = drop (length (log @ [i]) - ?lim) (log @ [i])" unfolding o' using len by simp
    moreover have "j = i \<and> q = r \<or> map_of (reg_records reg) j = Some q" if "map_of (reg_records reg') j = Some q" for j q
      using that by (simp add: rec split: if_splits)
    ultimately have "registry_inv (reg', log @ [i])" using live ended' by (intro res)
    then show ?thesis using r(2,3) by simp
  qed
qed

lemma registry_step_inv: "registry_step s t \<Longrightarrow> registry_inv s \<Longrightarrow> registry_inv t"
proof (induction rule: registry_step.induct)
  case (created reg kind session caller detail now i reg' log)
  show ?case by (rule created_inv [OF created.prems created.hyps])
next
  case (running reg log i)
  then have wf: "om_wf (reg_records reg)" by (simp add: registry_inv_def)
  have wf': "om_wf (reg_records (SetRunning i reg))" using wf by (simp add: SetRunning_def split: option.split)
  have same: "map_option (\<lambda>r. (orc_id r, op_terminal r)) (map_of (reg_records (SetRunning i reg)) j) =
      map_option (\<lambda>r. (orc_id r, op_terminal r)) (map_of (reg_records reg) j)" for j
    by (cases "map_of (reg_records reg) j") (auto simp: SetRunning_record [OF wf] op_terminal_def)
  show ?case by (rule registry_inv_update [OF running wf' same]) (simp_all add: step_frames)
next
  case (versioned reg log i v)
  then have wf: "om_wf (reg_records reg)" by (simp add: registry_inv_def)
  have wf': "om_wf (reg_records (SetTopologyVersion i v reg))" using wf by (simp add: SetTopologyVersion_def split: option.split)
  have same: "map_option (\<lambda>r. (orc_id r, op_terminal r)) (map_of (reg_records (SetTopologyVersion i v reg)) j) =
      map_option (\<lambda>r. (orc_id r, op_terminal r)) (map_of (reg_records reg) j)" for j
    by (cases "map_of (reg_records reg) j") (auto simp: SetTopologyVersion_record [OF wf] op_terminal_def)
  show ?case by (rule registry_inv_update [OF versioned wf' same]) (simp_all add: step_frames)
next
  case (finished state i result detail tv pv now reg reg' snapshot log)
  show ?case by (rule finished_inv [OF finished.prems finished.hyps])
qed

interpretation registry_sys: invariant_system registry_init registry_step registry_inv
proof
  fix s assume "registry_init s"
  then show "registry_inv s"
    by (auto simp: registry_init_def registry_inv_def OperationRegistry_new_def SetTerminalHook_def live_op_def)
qed (rule registry_step_inv)

lemma terminal_kept:
  assumes "registry_step s t" "registry_inv s" "map_of (reg_records (fst s)) i = Some r" "op_terminal r"
    "map_of (reg_records (fst t)) i = Some r'"
  shows "r' = r\<lparr>orc_topology_version := orc_topology_version r'\<rparr>"
  using assms
proof (induction rule: registry_step.induct)
  case (created reg kind session caller detail now j reg' log)
  have wf: "om_wf (reg_records reg)" and "i \<noteq> reg_next_id reg" using created.prems(1,2) by (auto simp: registry_inv_def)
  then have "map_of (reg_records reg') i = map_of (reg_records reg) i"
    using created.hyps(2) by (auto simp: Op_Create_def Let_def om_emplace_def split: option.split)
  then show ?case using created.prems by simp
next
  case (running reg log j)
  then have wf: "om_wf (reg_records reg)" by (simp add: registry_inv_def)
  show ?case using running by (simp add: SetRunning_record [OF wf])
next
  case (versioned reg log j v)
  then have wf: "om_wf (reg_records reg)" by (simp add: registry_inv_def)
  show ?case using versioned by (auto simp: SetTopologyVersion_record [OF wf] split: if_splits)
next
  case (finished state j result detail tv pv now reg reg' snapshot log)
  show ?case
  proof (cases "live_op reg j")
    case False
    then show ?thesis using Op_Finish_ended [OF False] finished by simp
  next
    case True
    then have ij: "i \<noteq> j" using finished.prems by (auto simp: live_op_def)
    obtain q where "if length (reg_terminal_order reg) < reg_retain_terminal reg
      then reg_terminal_order reg' = reg_terminal_order reg @ [j] \<and>
        (\<forall>k. map_of (reg_records reg') k = (if k = j then Some q else map_of (reg_records reg) k))
      else reg_terminal_order reg' = tl (reg_terminal_order reg) @ [j] \<and>
        (\<forall>k. map_of (reg_records reg') k = (if k = hd (reg_terminal_order reg) then None
          else if k = j then Some q else map_of (reg_records reg) k))"
      by (rule Op_Finish_live [OF finished.prems(1) True finished.hyps])
    then show ?thesis using finished.prems(2-4) ij by (auto split: if_splits)
  qed
qed

lemma wait_done_live: "wait_done i reg \<longleftrightarrow> \<not> live_op reg i"
  by (auto simp: wait_done_def live_op_def split: option.split)

text \<open>C22. Every operation ends once. In any run the terminal hook is called at most once per operation, and exactly
  for the operations that are over, which are those a waiter finds done. The terminal records kept are those of
  the most recent ends, at most the retention limit; an unfinished operation is never forgotten, and the state,
  result and detail of a finished one never change.\<close>

theorem operation_ends_once:
  assumes "reachable registry_init registry_step (reg, log)"
  shows "distinct log \<and> set log = {i. 1 \<le> i \<and> i < reg_next_id reg \<and> wait_done i reg} \<and>
    {i. \<exists>r. Op_Get i reg = Some r \<and> op_terminal r} = set (drop (length log - reg_retain_terminal reg) log) \<and>
    (\<forall>i r reg' log' r'. Op_Get i reg = Some r \<and> op_terminal r \<and> registry_step (reg, log) (reg', log') \<and>
       Op_Get i reg' = Some r' \<longrightarrow> r' = r\<lparr>orc_topology_version := orc_topology_version r'\<rparr>)"
proof (intro conjI allI impI)
  have inv: "registry_inv (reg, log)" by (rule registry_sys.reachable_inv [OF assms])
  note I = inv [unfolded registry_inv_def prod.case]
  show "distinct log" "set log = {i. 1 \<le> i \<and> i < reg_next_id reg \<and> wait_done i reg}"
    unfolding wait_done_live using I by blast+
  have o: "reg_terminal_order reg = drop (length log - reg_retain_terminal reg) log" using I by blast
  show "{i. \<exists>r. Op_Get i reg = Some r \<and> op_terminal r} = set (drop (length log - reg_retain_terminal reg) log)"
    unfolding o [symmetric] Op_Get_def using I by blast
  fix i r reg' log' r'
  assume "Op_Get i reg = Some r \<and> op_terminal r \<and> registry_step (reg, log) (reg', log') \<and> Op_Get i reg' = Some r'"
  then show "r' = r\<lparr>orc_topology_version := orc_topology_version r'\<rparr>"
    using terminal_kept [OF _ inv, of "(reg', log')" i r r'] by (simp add: Op_Get_def)
qed

definition no_caller :: caller_context where
  "no_caller = \<lparr>cx_caller_id = [], cx_request_id = []\<rparr>"

theorem operation_ends_once_witness:
  "\<exists>reg i reg1 reg2 r. reg = SetTerminalHook True (OperationRegistry_new 8) \<and>
     Op_Create ''session.stop'' 1 no_caller JNull 5 reg = (i, reg1) \<and> Op_Succeed i None None JNull 9 reg1 = (reg2, Some r) \<and>
     wait_done i reg2 \<and> set [orc_id r] = {j. 1 \<le> j \<and> j < reg_next_id reg2 \<and> wait_done j reg2}"
proof -
  define reg where "reg = SetTerminalHook True (OperationRegistry_new 8)"
  obtain i reg1 where c: "Op_Create ''session.stop'' 1 no_caller JNull 5 reg = (i, reg1)" by fastforce
  have i: "i = 1" "map_of (reg_records reg1) 1 \<noteq> None" "\<not> op_terminal (the (map_of (reg_records reg1) 1))"
    using c by (auto simp: Op_Create_def reg_def SetTerminalHook_def OperationRegistry_new_def Let_def om_emplace_def op_terminal_def)
  have "registry_init (reg, [])" by (auto simp: registry_init_def reg_def)
  then have r0: "reachable registry_init registry_step (reg, [])" by (rule reach_init)
  have "registry_step (reg, []) (reg1, [])"
    by (rule created [OF _ c]) (simp add: reg_def SetTerminalHook_def OperationRegistry_new_def)
  with r0 have r1: "reachable registry_init registry_step (reg1, [])" by (rule reach_step)
  obtain reg2 s where f: "Op_Succeed i None None JNull 9 reg1 = (reg2, s)" by fastforce
  have live: "live_op reg1 i" using i by (auto simp: live_op_def)
  obtain r where r: "orc_id r = i" "s = Some r"
    by (rule Op_Finish_live [OF registry_sys.reachable_inv [OF r1] live _ f [unfolded Op_Succeed_def]]) simp_all
  have "registry_step (reg1, []) (reg2, [] @ [orc_id r])"
    using finished [OF _ f [unfolded Op_Succeed_def], of "[]"] r by simp
  with r1 have "reachable registry_init registry_step (reg2, [orc_id r])" by (simp add: reach_step)
  from operation_ends_once [OF this] have "set [orc_id r] = {j. 1 \<le> j \<and> j < reg_next_id reg2 \<and> wait_done j reg2}" by blast
  moreover from this have "wait_done i reg2" using r(1) by auto
  ultimately show ?thesis using c f r(2) reg_def by blast
qed

end
