(* ===== verification/Spec2Isabelle.thy ===== *)
theory Spec2Isabelle
  imports Edge_Channel Mutation_Applier Graph_Diff Resource_Ledger Operation_Registry
begin

text \<open>
  A verification of GE, a graph execution engine in C++20: packets flow through a graph of operators, and the
  graph can be changed while it runs. A graph specification (\<open>graph_spec.cpp\<close>) lists nodes and edges; it is
  written by a builder or read from JSON (\<open>json.cpp\<close>, \<open>json_reader.h\<close>, \<open>graph_spec_json.cpp\<close>). Operators
  describe their ports by capability descriptors (\<open>capability.cpp\<close>, \<open>capability_json.cpp\<close>). The validator
  (\<open>graph_validator.cpp\<close>) resolves every node, checks the wiring, sorts the graph and negotiates one contract
  per output. A patch is applied to a copy of the running graph (\<open>mutation_applier.cpp\<close>), whose result is
  validated again. At run time every edge is a bounded channel (\<open>edge_channel.cpp\<close>) of references to packets
  with pooled buffers (\<open>packet.cpp\<close>).

  \<^bold>\<open>Theories.\<close>

  \<^item> \<open>Ge_Prelude\<close>: ordered association lists for \<open>std::map\<close>, unsigned arithmetic modulo \<open>2 ^ 32\<close> and
    \<open>2 ^ 64\<close>, the result type, folds with errors, decimal texts; the locale \<open>id_table\<close> of a vector searched by
    id (interpreted on the nodes and on the edges of a graph, \<open>nt\<close> and \<open>et\<close>) and the locale
    \<open>invariant_system\<close> of a step relation with an invariant (interpreted on the buffer pool and on the races
    of a channel).
  \<^item> \<open>Json\<close> (\<open>json.h\<close>, \<open>json.cpp\<close>): values, accessors, equality, \<open>Serialize\<close>, the recursive-descent parser.
    Round trip, and that any accepted text gives a value that is stable under another round. The loops over
    array items and members have as fuel one more than the length of the remaining text; each round consumes a
    character, so the branch without fuel is never taken (\<open>ParseArray_items_fuel\<close>,
    \<open>ParseObject_members_fuel\<close>).
  \<^item> \<open>Ge_Types\<close> (\<open>types.h\<close>): status codes, statuses with context, operator keys and their texts.
  \<^item> \<open>Packet\<close> (\<open>packet.h\<close>, \<open>packet.cpp\<close>): the buffer pool over an explicit heap of reference-counted blocks,
    the table of type tags, metadata. A buffer handed out is exclusive, after any sequence of client calls.
  \<^item> \<open>Edge_Channel\<close> (\<open>edge_channel.h\<close>, \<open>edge_channel.cpp\<close>): the ring with its drop policies, channel states,
    counters of 32 and 64 bits, and the two steps of \<open>Push\<close> (an unlocked test, then the locked part) for
    interleavings. A refinement to a bounded queue, the locale \<open>fifo_queue\<close> interpreted on it (\<open>chan\<close>), order and
    end-of-stream over all runs, counters over all runs of fewer than \<open>2 ^ 64\<close> calls, and that a channel
    retired fast stays empty in every interleaving. The shift that closes the gap of an evicted packet runs at
    most \<open>ec_size\<close> rounds, its fuel.
  \<^item> \<open>Graph_Spec\<close> (\<open>graph_spec.h\<close>, \<open>graph_spec.cpp\<close>): port references, nodes, edges, queues, the guarded
    operations of \<open>GraphSpec\<close>, patch actions, and the builders.
  \<^item> \<open>Json_Reader\<close>, \<open>Graph_Spec_Json\<close>, \<open>Capability_Json\<close> (\<open>json_reader.h\<close>, \<open>graph_spec_json.cpp\<close>,
    \<open>capability_json.cpp\<close>): the strict object reader as a state-passing reader, and the codecs built on it, with
    round trips in one direction and well-formedness of whatever is accepted in the other.
  \<^item> \<open>Capability\<close>, \<open>Negotiation\<close> (\<open>capability.h\<close>, \<open>capability.cpp\<close>): constraint data, intersections,
    negotiation per dimension, the edge cache and the fan-out rule. A contract fits every port it was made for,
    does not depend on the order of the consumers, and is renewed after an invalidation.
  \<^item> \<open>Graph_Validator\<close> (\<open>graph_validator.h\<close>, \<open>graph_validator.cpp\<close>): \<open>Validate\<close> in the order of its
    sections, \<open>FindSharedDependencies\<close>, \<open>CheckLinearChain\<close>. What an accepted graph has: fitting contracts,
    wiring, a topological order; and that the cycle check is exact. The sort takes every
    node at most once; its fuel is twice the number of nodes, and \<open>cycle_check_exact\<close> states that it ends with
    nothing left to visit.
  \<^item> \<open>Mutation_Applier\<close> (\<open>mutation_applier.h\<close>, \<open>mutation_applier.cpp\<close>): every action on a candidate, the
    record of what was added and removed, the branch rules. The record is exactly the difference of the two
    graphs, and a removed branch is exactly one joined by its entry edges.
  \<^item> \<open>Graph_Diff\<close> (\<open>graph_diff.h\<close>, \<open>graph_diff.cpp\<close>): the comparison of two graphs that decides what a new
    version carries over. Every class is characterised exactly.
  \<^item> \<open>Resource_Ledger\<close> (\<open>resource_ledger.h\<close>, \<open>resource_ledger.cpp\<close>): accounts, leases, commits and the
    estimates of admission. Reservations are all or nothing, the accounts balance with the live leases in every
    run (\<open>invariant_system\<close> interpreted as \<open>ledger_sys\<close>), and the estimate of a graph bounds what its queues hold.
  \<^item> \<open>Operation_Registry\<close> (\<open>operation.h\<close>, \<open>operation.cpp\<close>): the records of control operations. Every operation
    ends once in every run (\<open>invariant_system\<close> interpreted as \<open>registry_sys\<close>), and its outcome is final.

  \<^bold>\<open>Conventions.\<close> Unsigned integers are natural numbers with the wrap-around written out (\<open>u32\<close>, \<open>u64\<close>,
  \<open>sub64\<close>), signed ones integers with the casts written out, flags and hashes are words. \<open>std::map\<close> is a list
  sorted by its keys, a hash table is a list whose order is an argument where the code iterates over it, a
  \<open>Result\<close> is a sum type whose left side is a status with the code, the text and the context of the source. A
  double is its 64-bit pattern; rendering, parsing and comparing doubles is the argument \<open>fp\<close> of type
  \<open>fp_ops\<close>. The operator resolver of the validator is an argument, since operators come from plugins.

  \<^bold>\<open>Not modelled.\<close> Threads, locks and clocks of the standard library (executor pool, the scheduler's
  hand-off); dynamic loading and the plugin ABI; the C API, which copies structures; the operators on FFmpeg, CUDA
  and ONNX Runtime, which are not part of the repository; files and rendering of metrics. The scheduler, the
  sessions, the node runtime, input bindings, the event bus and the topology builder are
  not modelled either: their behaviour is that of the parts above under a schedule of threads.
\<close>

end
